(* ===== verification/Prelude.thy ===== *)
theory Prelude
  imports Main "HOL-Library.Word"
begin

text \<open>
  Shared vocabulary of the development: the machine types of the Go sources, slices of byte
  lists, the fact collections the component theories extend, and three small interfaces stated
  as locales: a checked byte codec, a one-step invariant of a transition system, and a
  refinement of event executions, in which every concrete event performs a list of events of the
  specification.
  Component theories interpret the locales on their own definitions.
\<close>

section \<open>Machine types\<close>

type_synonym byte = "8 word"
type_synonym bytes = "8 word list"
type_synonym u16 = "16 word"
type_synonym u32 = "32 word"
type_synonym u64 = "64 word"
type_synonym i64 = "64 word" \<comment> \<open>Go's int64: the same bits, read with \<open>sint\<close>\<close>

section \<open>Fact collections\<close>

named_theorems codec_simps \<open>evaluation of slices and fields of encoded packets\<close>
named_theorems result_iff \<open>inversion of successful results\<close>

section \<open>Slices\<close>

text \<open>\<open>slice a b xs\<close> is Go's \<open>xs[a:b]\<close> on a list long enough to hold it; the callers below
  check the length first, as the sources do.\<close>

definition slice :: "nat \<Rightarrow> nat \<Rightarrow> 'a list \<Rightarrow> 'a list" where
  "slice a b xs = take (b - a) (drop a xs)"

lemma length_slice [simp]: "length (slice a b xs) = min (b - a) (length xs - a)"
  by (simp add: slice_def)

lemma slice_append_skip [codec_simps]:
  "length xs \<le> a \<Longrightarrow> slice a b (xs @ ys) = slice (a - length xs) (b - length xs) ys"
  by (simp add: slice_def)

lemma slice_append_take [codec_simps]:
  "length xs = b \<Longrightarrow> slice 0 b (xs @ ys) = xs"
  by (simp add: slice_def)

lemma slice_all [codec_simps]: "length xs = b \<Longrightarrow> slice 0 b xs = xs"
  by (simp add: slice_def)

lemma slice_join: "a \<le> b \<Longrightarrow> b \<le> c \<Longrightarrow> slice a b xs @ slice b c xs = slice a c xs"
proof -
  assume "a \<le> b" "b \<le> c"
  then have "drop b xs = drop (b - a) (drop a xs)" and "c - a = (b - a) + (c - b)"
    by auto
  then show ?thesis by (simp only: slice_def take_add)
qed

lemma slice_to_end: "a \<le> length xs \<Longrightarrow> slice a (length xs) xs = drop a xs"
  by (simp add: slice_def)

lemma take_slice: "take n xs = slice 0 n xs"
  by (simp add: slice_def)

section \<open>Results\<close>

lemma if_Inl_eq_Inr [result_iff]: "(if c then Inl e else r) = Inr x \<longleftrightarrow> \<not> c \<and> r = Inr x"
  by simp

lemma Inr_eq_if_Inl [result_iff]: "Inr x = (if c then Inl e else r) \<longleftrightarrow> \<not> c \<and> r = Inr x"
  by auto

lemma case_sum_eq_Inr [result_iff]:
  "(case r of Inl e \<Rightarrow> Inl e | Inr v \<Rightarrow> f v) = Inr x \<longleftrightarrow> (\<exists>v. r = Inr v \<and> f v = Inr x)"
  by (cases r) auto

section \<open>Checked byte codecs\<close>

text \<open>
  An encoder that may refuse a value and a decoder that may refuse a packet. The two laws say
  that decoding inverts encoding and that the decoder accepts canonical packets only.
\<close>

locale checked_codec =
  fixes enc :: "'a \<Rightarrow> 'e + bytes"
    and dec :: "bytes \<Rightarrow> 'e + 'a"
  assumes dec_enc: "enc x = Inr bs \<Longrightarrow> dec bs = Inr x"
    and enc_dec: "dec bs = Inr x \<Longrightarrow> enc x = Inr bs"
begin

lemma dec_iff_enc: "dec bs = Inr x \<longleftrightarrow> enc x = Inr bs"
  using dec_enc enc_dec by blast

lemma enc_inj: "enc x = Inr bs \<Longrightarrow> enc y = Inr bs \<Longrightarrow> x = y"
  by (drule dec_enc, drule dec_enc) simp

lemma dec_inj: "dec bs = Inr x \<Longrightarrow> dec bs' = Inr x \<Longrightarrow> bs = bs'"
  by (drule enc_dec, drule enc_dec) simp

lemma enc_distinct: "enc x = Inr bs \<Longrightarrow> enc y = Inr bs' \<Longrightarrow> x \<noteq> y \<Longrightarrow> bs \<noteq> bs'"
  using enc_inj by blast

end

text \<open>A total encoder with a checking decoder: the decoder accepts exactly the encodings of
  the values that pass its check \<open>ok\<close>. Restricting the encoder to those values gives a
  checked codec.\<close>

locale total_codec =
  fixes put :: "'a \<Rightarrow> bytes"
    and get :: "bytes \<Rightarrow> 'e + 'a"
    and ok :: "'a \<Rightarrow> bool"
    and err :: 'e
  assumes get_put: "ok x \<Longrightarrow> get (put x) = Inr x"
    and put_get: "get bs = Inr x \<Longrightarrow> ok x \<and> put x = bs"
begin

lemma get_iff: "get bs = Inr x \<longleftrightarrow> ok x \<and> put x = bs"
  using get_put put_get by blast

end

sublocale total_codec \<subseteq> checked: checked_codec "\<lambda>x. if ok x then Inr (put x) else Inl err" get
  by unfold_locales (auto simp: get_put put_get split: if_splits)

section \<open>Transition systems\<close>

inductive reaches :: "('s \<Rightarrow> bool) \<Rightarrow> ('s \<Rightarrow> 's \<Rightarrow> bool) \<Rightarrow> 's \<Rightarrow> bool"
  for init :: "'s \<Rightarrow> bool" and step :: "'s \<Rightarrow> 's \<Rightarrow> bool" where
  reaches_init: "init s \<Longrightarrow> reaches init step s"
| reaches_step: "reaches init step s \<Longrightarrow> step s t \<Longrightarrow> reaches init step t"

text \<open>An invariant that holds initially and is kept by every step holds in every reachable
  state; a consequence of it therefore holds there too.\<close>

locale inductive_invariant =
  fixes init :: "'s \<Rightarrow> bool"
    and step :: "'s \<Rightarrow> 's \<Rightarrow> bool"
    and inv :: "'s \<Rightarrow> bool"
  assumes inv_init: "init s \<Longrightarrow> inv s"
    and inv_step: "inv s \<Longrightarrow> step s t \<Longrightarrow> inv t"
begin

lemma reaches_inv: "reaches init step s \<Longrightarrow> inv s"
  by (induction rule: reaches.induct) (auto intro: inv_init inv_step)

lemma reaches_safe: "(\<And>s. inv s \<Longrightarrow> P s) \<Longrightarrow> reaches init step s \<Longrightarrow> P s"
  using reaches_inv by blast

end

text \<open>Executions as lists of events: an event is a partial function on states. A refinement of
  executions labels every concrete event, taken in a state, with the events of the specification
  it performs; an execution then maps to the concatenation of its labels.\<close>

fun execute :: "('e \<Rightarrow> 's \<Rightarrow> 's option) \<Rightarrow> 'e list \<Rightarrow> 's \<Rightarrow> 's option" where
  "execute step [] s = Some s"
| "execute step (e # es) s = (case step e s of None \<Rightarrow> None | Some t \<Rightarrow> execute step es t)"

fun labels :: "('e \<Rightarrow> 's \<Rightarrow> 's option) \<Rightarrow> ('e \<Rightarrow> 's \<Rightarrow> 'a list) \<Rightarrow> 'e list \<Rightarrow> 's \<Rightarrow> 'a list" where
  "labels step label [] s = []"
| "labels step label (e # es) s =
     label e s @ (case step e s of None \<Rightarrow> [] | Some t \<Rightarrow> labels step label es t)"

lemma execute_append:
  "execute step (es @ fs) s = (case execute step es s of None \<Rightarrow> None | Some t \<Rightarrow> execute step fs t)"
  by (induction es arbitrary: s) (auto split: option.splits)

locale execution_refinement =
  fixes step :: "'e \<Rightarrow> 's \<Rightarrow> 's option"
    and inv :: "'s \<Rightarrow> bool"
    and abst :: "'s \<Rightarrow> 't"
    and astep :: "'a \<Rightarrow> 't \<Rightarrow> 't option"
    and label :: "'e \<Rightarrow> 's \<Rightarrow> 'a list"
  assumes inv_event: "inv s \<Longrightarrow> step e s = Some t \<Longrightarrow> inv t"
    and label_event: "inv s \<Longrightarrow> step e s = Some t \<Longrightarrow> execute astep (label e s) (abst s) = Some (abst t)"
begin

lemma refines_execution:
  "inv s \<Longrightarrow> execute step es s = Some t \<Longrightarrow>
     execute astep (labels step label es s) (abst s) = Some (abst t)"
proof (induction es arbitrary: s)
  case (Cons e es)
  then obtain u where u: "step e s = Some u" "execute step es u = Some t"
    by (auto split: option.splits)
  with Cons.IH [OF inv_event [OF Cons.prems(1)]] label_event [OF Cons.prems(1) u(1)]
  show ?case by (simp add: execute_append)
qed simp

end

section \<open>Signed reading of 64-bit words\<close>

lemma sint_unat: "sint (x :: i64) = (if unat x < 2 ^ 63 then int (unat x) else int (unat x) - 2 ^ 64)"
proof -
  have u: "uint x < 2 ^ 64" using unsigned_less [of x] by simp
  have "sint x = signed_take_bit 63 (uint x)" by (simp add: sint_uint)
  also have "\<dots> = (uint x + 2 ^ 63) mod 2 ^ 64 - 2 ^ 63"
    by (simp add: signed_take_bit_eq_take_bit_shift take_bit_eq_mod)
  also have "\<dots> = (if uint x < 2 ^ 63 then uint x else uint x - 2 ^ 64)"
  proof (cases "uint x < 2 ^ 63")
    case False
    have "(uint x + 2 ^ 63) mod 2 ^ 64 = (uint x + 2 ^ 63 - 2 ^ 64) mod 2 ^ 64" by (rule minus_mod_self2 [symmetric])
    then show ?thesis using u False by simp
  qed simp
  finally show ?thesis by (simp add: uint_nat del: of_nat_unat)
qed

lemma unat_sint: "0 \<le> sint (x :: i64) \<Longrightarrow> int (unat x) = sint x"
  using unsigned_less [of x, where ?'a = int] by (simp add: sint_unat split: if_splits)

lemma sint_of_nat_i64: "n < 2 ^ 63 \<Longrightarrow> sint (of_nat n :: i64) = int n"
  by (simp add: sint_unat unat_of_nat)

end
