(* ===== verification/Go_Bytes.thy ===== *)
theory Go_Bytes
  imports Prelude
begin

text \<open>
  The parts of Go's byte-level standard library the sources use: \<open>encoding/binary\<close>'s
  big-endian integers and the conversion between Go strings and byte slices.
\<close>

section \<open>Big-endian integers\<close>

primrec be_bytes :: "nat \<Rightarrow> nat \<Rightarrow> bytes" where
  "be_bytes 0 x = []"
| "be_bytes (Suc n) x = be_bytes n (x div 256) @ [of_nat x]"

definition be_val :: "bytes \<Rightarrow> nat" where
  "be_val bs = foldl (\<lambda>a b. a * 256 + unat b) 0 bs"

definition PutUint16 :: "u16 \<Rightarrow> bytes" where "PutUint16 w = be_bytes 2 (unat w)"
definition PutUint32 :: "u32 \<Rightarrow> bytes" where "PutUint32 w = be_bytes 4 (unat w)"
definition PutUint64 :: "u64 \<Rightarrow> bytes" where "PutUint64 w = be_bytes 8 (unat w)"
definition Uint16 :: "bytes \<Rightarrow> u16" where "Uint16 bs = of_nat (be_val bs)"
definition Uint32 :: "bytes \<Rightarrow> u32" where "Uint32 bs = of_nat (be_val bs)"
definition Uint64 :: "bytes \<Rightarrow> u64" where "Uint64 bs = of_nat (be_val bs)"

lemma length_be_bytes [simp]: "length (be_bytes n x) = n"
  by (induction n arbitrary: x) auto

lemma be_val_snoc [simp]: "be_val (bs @ [b]) = be_val bs * 256 + unat b"
  by (simp add: be_val_def)

lemma be_val_Nil [simp]: "be_val [] = 0"
  by (simp add: be_val_def)

lemma unat_byte_lt [simp]: "unat (b :: byte) < 256"
  using unsigned_less [of b] by simp

lemma unat_of_nat_byte: "unat (of_nat x :: byte) = x mod 256"
  by (simp add: unat_of_nat)

lemma be_val_be_bytes: "be_val (be_bytes n x) = x mod 256 ^ n"
proof (induction n arbitrary: x)
  case 0
  then show ?case by simp
next
  case (Suc n)
  have "x mod 256 ^ Suc n = (x div 256) mod 256 ^ n * 256 + x mod 256"
    by (simp add: mod_mult2_eq mult.commute)
  with Suc show ?case by (simp add: unat_of_nat_byte)
qed

lemma be_val_bound: "be_val bs < 256 ^ length bs"
proof (induction bs rule: rev_induct)
  case Nil
  then show ?case by simp
next
  case (snoc b bs)
  then have "be_val bs + 1 \<le> 256 ^ length bs" by simp
  then have "be_val bs * 256 + 256 \<le> 256 ^ length bs * 256" by simp
  moreover have "unat b < 256" by simp
  ultimately have "be_val bs * 256 + unat b < 256 ^ length bs * 256" by linarith
  then show ?case by (simp add: mult.commute)
qed

lemma be_bytes_be_val: "be_bytes (length bs) (be_val bs) = bs"
proof (induction bs rule: rev_induct)
  case Nil
  then show ?case by simp
next
  case (snoc b bs)
  have "unat b < 256" by simp
  then have "(be_val bs * 256 + unat b) div 256 = be_val bs" by simp
  moreover have "(of_nat (be_val bs * 256 + unat b) :: byte) = b"
    by (simp only: word_unat_eq_iff unat_of_nat_byte) simp
  ultimately show ?case using snoc by simp
qed

lemma length_PutUint [simp]:
  "length (PutUint16 w) = 2" "length (PutUint32 d) = 4" "length (PutUint64 q) = 8"
  by (simp_all add: PutUint16_def PutUint32_def PutUint64_def)

lemma Uint_PutUint [simp]:
  "Uint16 (PutUint16 w) = w" "Uint32 (PutUint32 d) = d" "Uint64 (PutUint64 q) = q"
  using unsigned_less [of w, where ?'a = nat] unsigned_less [of d, where ?'a = nat]
    unsigned_less [of q, where ?'a = nat]
  by (simp_all add: PutUint16_def PutUint32_def PutUint64_def Uint16_def Uint32_def Uint64_def
      be_val_be_bytes)

lemma PutUint_Uint:
  "length bs = 2 \<Longrightarrow> PutUint16 (Uint16 bs) = bs"
  "length bs = 4 \<Longrightarrow> PutUint32 (Uint32 bs) = bs"
  "length bs = 8 \<Longrightarrow> PutUint64 (Uint64 bs) = bs"
  using be_val_bound [of bs] be_bytes_be_val [of bs]
  by (simp_all add: PutUint16_def PutUint32_def PutUint64_def Uint16_def Uint32_def Uint64_def
      unat_of_nat)

section \<open>Strings as bytes\<close>

text \<open>A Go string is a sequence of bytes; \<open>string\<close> keeps each byte as a \<open>char\<close>.\<close>

definition bytes_of_string :: "string \<Rightarrow> bytes" where
  "bytes_of_string s = map of_char s"

lemma length_bytes_of_string [simp]: "length (bytes_of_string s) = length s"
  by (simp add: bytes_of_string_def)

lemma of_char_byte_inj: "inj (of_char :: char \<Rightarrow> byte)"
proof (rule injI)
  fix c d :: char
  assume "(of_char c :: byte) = of_char d"
  then have "(of_nat (of_char c) :: byte) = of_nat (of_char d)"
    by (simp add: of_nat_of_char)
  then have "unat (of_nat (of_char c) :: byte) = unat (of_nat (of_char d) :: byte)"
    by simp
  then have "(of_char c :: nat) mod 256 = of_char d mod 256"
    by (simp only: unat_of_nat_byte)
  then show "c = d" by simp
qed

lemma bytes_of_string_inj: "bytes_of_string s = bytes_of_string t \<longleftrightarrow> s = t"
  using of_char_byte_inj by (auto simp: bytes_of_string_def dest: map_injective)

definition string_of_bytes :: "bytes \<Rightarrow> string" where
  "string_of_bytes bs = map (\<lambda>b. char_of (unat b)) bs"

lemma string_of_bytes_of_string [simp]: "string_of_bytes (bytes_of_string s) = s"
proof -
  have "char_of (unat (of_char c :: byte)) = c" for c
  proof -
    have "(of_char c :: byte) = of_nat (of_char c)" by (simp add: of_nat_of_char)
    then show ?thesis by (simp add: unat_of_nat_byte)
  qed
  then show ?thesis by (induction s) (simp_all add: string_of_bytes_def bytes_of_string_def)
qed

lemma bytes_of_string_of_bytes [simp]: "bytes_of_string (string_of_bytes bs) = bs"
proof -
  have "(of_char (char_of (unat b) :: char) :: byte) = b" for b :: byte
  proof -
    have "(of_char (char_of (unat b) :: char) :: byte) = of_nat (of_char (char_of (unat b) :: char))"
      by (simp only: of_nat_of_char)
    also have "\<dots> = b" by simp
    finally show ?thesis .
  qed
  then show ?thesis by (induction bs) (simp_all add: string_of_bytes_def bytes_of_string_def)
qed

lemma length_string_of_bytes [simp]: "length (string_of_bytes bs) = length bs"
  by (simp add: string_of_bytes_def)

lemma bytes_of_string_append [simp]: "bytes_of_string (s @ t) = bytes_of_string s @ bytes_of_string t"
  by (simp add: bytes_of_string_def)

lemma string_of_bytes_append [simp]: "string_of_bytes (s @ t) = string_of_bytes s @ string_of_bytes t"
  by (simp add: string_of_bytes_def)

end
