(* ===== verification/Go_Text.thy ===== *)
theory Go_Text
  imports Prelude "HOL-Library.Sublist"
begin

text \<open>
  The parts of Go's text libraries the sources use: \<open>strings.Split\<close> on one byte,
  \<open>path.Clean\<close> and \<open>path.Base\<close>, \<open>utf8.ValidString\<close> with the decoded runes, and the two
  Unicode categories the portal refuses in names (\<open>Cc\<close> and \<open>Cf\<close>).
\<close>

section \<open>Splitting and joining\<close>

fun splitOn :: "char \<Rightarrow> string \<Rightarrow> string list" where
  "splitOn d [] = [[]]"
| "splitOn d (c # s) =
     (if c = d then [] # splitOn d s
      else case splitOn d s of [] \<Rightarrow> [[c]] | p # ps \<Rightarrow> (c # p) # ps)"

fun joinWith :: "char \<Rightarrow> string list \<Rightarrow> string" where
  "joinWith d [] = []"
| "joinWith d [p] = p"
| "joinWith d (p # q # ps) = p @ d # joinWith d (q # ps)"

lemma splitOn_not_Nil [simp]: "splitOn d s \<noteq> []"
  by (induction s) (auto split: list.splits)

lemma joinWith_head: "joinWith d ((c # p) # ps) = c # joinWith d (p # ps)"
  by (cases ps) auto

lemma joinWith_Nil_Cons: "ps \<noteq> [] \<Longrightarrow> joinWith d ([] # ps) = d # joinWith d ps"
  by (cases ps) auto

lemma joinWith_splitOn [simp]: "joinWith d (splitOn d s) = s"
proof (induction s)
  case Nil
  then show ?case by simp
next
  case (Cons c s)
  then show ?case
    by (cases "splitOn d s") (auto simp: joinWith_head joinWith_Nil_Cons)
qed

lemma splitOn_parts: "p \<in> set (splitOn d s) \<Longrightarrow> d \<notin> set p"
  by (induction s arbitrary: p) (auto split: list.splits if_splits)

lemma splitOn_free: "d \<notin> set s \<Longrightarrow> splitOn d s = [s]"
  by (induction s) auto

lemma splitOn_append: "d \<notin> set p \<Longrightarrow> splitOn d (p @ d # s) = p # splitOn d s"
  by (induction p) auto

lemma splitOn_joinWith:
  "ps \<noteq> [] \<Longrightarrow> (\<forall>p \<in> set ps. d \<notin> set p) \<Longrightarrow> splitOn d (joinWith d ps) = ps"
proof (induction d ps rule: joinWith.induct)
  case (3 d p q ps)
  then show ?case by (simp add: splitOn_append)
qed (simp_all add: splitOn_free)

lemma joinWith_append:
  "ps \<noteq> [] \<Longrightarrow> qs \<noteq> [] \<Longrightarrow> joinWith d (ps @ qs) = joinWith d ps @ d # joinWith d qs"
proof (induction d ps rule: joinWith.induct)
  case (2 d p)
  then show ?case by (cases qs) auto
qed auto

section \<open>Lexical path cleaning\<close>

abbreviation slash :: char where "slash \<equiv> CHR ''/''"
abbreviation dot :: char where "dot \<equiv> CHR ''.''"

text \<open>\<open>clean_step\<close> is one element of the path: empty elements and \<open>.\<close> are dropped, \<open>..\<close>
  removes the preceding element when there is one and is dropped at the root of a rooted
  path. The stack holds the elements kept so far, last first.\<close>

definition clean_step :: "bool \<Rightarrow> string list \<Rightarrow> string \<Rightarrow> string list" where
  "clean_step rooted stack e =
     (if e = [] \<or> e = ''.'' then stack
      else if e = ''..'' then
        (case stack of
           [] \<Rightarrow> if rooted then [] else [''..'']
         | t # ts \<Rightarrow> if t = ''..'' then ''..'' # stack else ts)
      else e # stack)"

definition clean_elements :: "bool \<Rightarrow> string list \<Rightarrow> string list" where
  "clean_elements rooted es = rev (foldl (clean_step rooted) [] es)"

definition isAbs :: "string \<Rightarrow> bool" where
  "isAbs p \<longleftrightarrow> prefix [slash] p"

definition path_Clean :: "string \<Rightarrow> string" where
  "path_Clean p =
     (let es = clean_elements (isAbs p) (splitOn slash p) in
      if isAbs p then slash # joinWith slash es
      else if es = [] then ''.'' else joinWith slash es)"

definition path_Base :: "string \<Rightarrow> string" where
  "path_Base p =
     (if p = [] then ''.''
      else (let q = rev (dropWhile (\<lambda>c. c = slash) (rev p)) in
            if q = [] then [slash] else last (splitOn slash q)))"

text \<open>An element that cleaning keeps as it is.\<close>

definition plain_element :: "string \<Rightarrow> bool" where
  "plain_element e \<longleftrightarrow> e \<noteq> [] \<and> e \<noteq> ''.'' \<and> e \<noteq> ''..''"

lemma clean_step_plain: "plain_element e \<Longrightarrow> clean_step r st e = e # st"
  by (simp add: plain_element_def clean_step_def)

lemma foldl_clean_plain:
  "(\<forall>e \<in> set es. plain_element e) \<Longrightarrow> foldl (clean_step r) st es = rev es @ st"
  by (induction es arbitrary: st) (auto simp: clean_step_plain)

lemma clean_elements_plain:
  "(\<forall>e \<in> set es. plain_element e) \<Longrightarrow> clean_elements r es = es"
  by (simp add: clean_elements_def foldl_clean_plain)

lemma clean_elements_append_plain:
  "(\<forall>e \<in> set fs. plain_element e) \<Longrightarrow>
     clean_elements r (es @ fs) = clean_elements r es @ fs"
  by (simp add: clean_elements_def foldl_clean_plain)

lemma path_Base_cases:
  "path_Base n = ''.'' \<or> path_Base n = [slash] \<or> slash \<notin> set (path_Base n)"
proof -
  have "slash \<notin> set (last (splitOn slash q))" for q
    by (rule splitOn_parts [of _ _ q]) (rule last_in_set, simp)
  then show ?thesis by (simp add: path_Base_def Let_def)
qed

lemma path_Base_plain:
  assumes "n \<noteq> []" "slash \<notin> set n"
  shows "path_Base n = n"
proof -
  have "dropWhile (\<lambda>c. c = slash) (rev n) = rev n" by (rule dropWhile_eq_self_iff [THEN iffD2]) (use assms last_in_set in \<open>force simp: hd_rev\<close>)
  then show ?thesis using assms by (simp add: path_Base_def Let_def splitOn_free)
qed

lemma path_Base_self: "path_Base n = n \<Longrightarrow> n = [slash] \<or> slash \<notin> set n"
  using path_Base_cases [of n] by auto

section \<open>UTF-8\<close>

definition utf8_cont :: "nat \<Rightarrow> bool" where
  "utf8_cont b \<longleftrightarrow> 0x80 \<le> b \<and> b \<le> 0xBF"

text \<open>The range of the second byte after the leading byte \<open>a\<close> of a three or four byte rune
  (no overlong forms, no surrogates, nothing above U+10FFFF).\<close>

definition utf8_second :: "nat \<Rightarrow> nat \<Rightarrow> bool" where
  "utf8_second a b \<longleftrightarrow>
     (if a = 0xE0 then 0xA0 \<le> b \<and> b \<le> 0xBF
      else if a = 0xED then 0x80 \<le> b \<and> b \<le> 0x9F
      else if a = 0xF0 then 0x90 \<le> b \<and> b \<le> 0xBF
      else if a = 0xF4 then 0x80 \<le> b \<and> b \<le> 0x8F
      else utf8_cont b)"

fun utf8_decode :: "nat list \<Rightarrow> nat list option" where
  "utf8_decode [] = Some []"
| "utf8_decode (a # r) =
     (if a < 0x80 then map_option ((#) a) (utf8_decode r)
      else if 0xC2 \<le> a \<and> a \<le> 0xDF then
        (case r of
           b # r' \<Rightarrow>
             if utf8_cont b
             then map_option ((#) ((a - 0xC0) * 0x40 + (b - 0x80))) (utf8_decode r')
             else None
         | _ \<Rightarrow> None)
      else if 0xE0 \<le> a \<and> a \<le> 0xEF then
        (case r of
           b # c # r' \<Rightarrow>
             if utf8_second a b \<and> utf8_cont c
             then map_option ((#) ((a - 0xE0) * 0x1000 + (b - 0x80) * 0x40 + (c - 0x80)))
                    (utf8_decode r')
             else None
         | _ \<Rightarrow> None)
      else if 0xF0 \<le> a \<and> a \<le> 0xF4 then
        (case r of
           b # c # d # r' \<Rightarrow>
             if utf8_second a b \<and> utf8_cont c \<and> utf8_cont d
             then map_option ((#) ((a - 0xF0) * 0x40000 + (b - 0x80) * 0x1000
                                   + (c - 0x80) * 0x40 + (d - 0x80)))
                    (utf8_decode r')
             else None
         | _ \<Rightarrow> None)
      else None)"

definition runes :: "string \<Rightarrow> nat list option" where
  "runes s = utf8_decode (map of_char s)"

definition utf8_ValidString :: "string \<Rightarrow> bool" where
  "utf8_ValidString s \<longleftrightarrow> runes s \<noteq> None"

section \<open>Unicode categories\<close>

definition unicode_IsControl :: "nat \<Rightarrow> bool" where
  "unicode_IsControl r \<longleftrightarrow> r < 0x20 \<or> (0x7F \<le> r \<and> r \<le> 0x9F)"

text \<open>The ranges of \<open>unicode.Cf\<close>.\<close>

definition unicode_Cf_ranges :: "(nat \<times> nat) list" where
  "unicode_Cf_ranges =
     [(0xAD, 0xAD), (0x600, 0x605), (0x61C, 0x61C), (0x6DD, 0x6DD), (0x70F, 0x70F),
      (0x890, 0x891), (0x8E2, 0x8E2), (0x180E, 0x180E), (0x200B, 0x200F), (0x202A, 0x202E),
      (0x2060, 0x2064), (0x2066, 0x206F), (0xFEFF, 0xFEFF), (0xFFF9, 0xFFFB),
      (0x110BD, 0x110BD), (0x110CD, 0x110CD), (0x13430, 0x1343F), (0x1BCA0, 0x1BCA3),
      (0x1D173, 0x1D17A), (0xE0001, 0xE0001), (0xE0020, 0xE007F)]"

definition unicode_Cf :: "nat \<Rightarrow> bool" where
  "unicode_Cf r \<longleftrightarrow> list_ex (\<lambda>(lo, hi). lo \<le> r \<and> r \<le> hi) unicode_Cf_ranges"

lemma runes_ascii: "(\<forall>c \<in> set s. of_char c < (0x80 :: nat)) \<Longrightarrow> runes s = Some (map of_char s)"
  unfolding runes_def by (induction s) auto

text \<open>An ASCII byte in a valid string is a rune of it: decoding never hides one inside a
  longer sequence.\<close>

lemma utf8_cont_ascii: "utf8_cont b \<Longrightarrow> \<not> b < 0x80" "utf8_second a b \<Longrightarrow> \<not> b < 0x80"
  by (auto simp: utf8_cont_def utf8_second_def split: if_splits)

lemma utf8_decode_ascii_mem:
  "utf8_decode bs = Some rs \<Longrightarrow> b \<in> set bs \<Longrightarrow> b < 0x80 \<Longrightarrow> b \<in> set rs"
proof (induction bs arbitrary: rs rule: utf8_decode.induct)
  case 1
  then show ?case by simp
next
  case (2 a r)
  consider "a < 0x80" | "0xC2 \<le> a" "a \<le> 0xDF" | "0xE0 \<le> a" "a \<le> 0xEF" | "0xF0 \<le> a" "a \<le> 0xF4"
    using "2.prems"(1) by (fastforce split: if_splits)
  then show ?case
  proof cases
    case 1
    then obtain rs' where "utf8_decode r = Some rs'" "rs = a # rs'" using "2.prems"(1) by auto
    with 1 "2.prems" "2.IH"(1) show ?thesis by auto
  next
    case 2
    then obtain c r' where "r = c # r'" "utf8_cont c" using "2.prems"(1)
      by (auto split: list.splits if_splits)
    with 2 "2.prems" "2.IH"(2) show ?thesis by (auto dest: utf8_cont_ascii)
  next
    case 3
    then obtain c d r' where "r = c # d # r'" "utf8_second a c" "utf8_cont d" using "2.prems"(1)
      by (auto split: list.splits if_splits)
    with 3 "2.prems" "2.IH"(3) show ?thesis by (auto dest: utf8_cont_ascii)
  next
    case 4
    then obtain c d e r' where "r = c # d # e # r'" "utf8_second a c" "utf8_cont d" "utf8_cont e"
      using "2.prems"(1) by (auto split: list.splits if_splits)
    with 4 "2.prems" "2.IH"(4) show ?thesis by (auto dest: utf8_cont_ascii)
  qed
qed

lemma runes_ascii_mem:
  "runes s = Some rs \<Longrightarrow> c \<in> set s \<Longrightarrow> of_char c < (0x80 :: nat) \<Longrightarrow> of_char c \<in> set rs"
  unfolding runes_def by (rule utf8_decode_ascii_mem) auto

lemma printable_visible: "32 \<le> r \<Longrightarrow> r < 127 \<Longrightarrow> \<not> unicode_IsControl r \<and> \<not> unicode_Cf r"
  by (simp add: unicode_IsControl_def unicode_Cf_def unicode_Cf_ranges_def)

text \<open>Evaluation of the text functions on ASCII literals.\<close>

lemmas text_eval =
  runes_ascii printable_visible path_Clean_def isAbs_def clean_elements_def clean_step_def
  utf8_ValidString_def Let_def

end
