(* ===== verification/Public_Paths.thy ===== *)
theory Public_Paths
  imports Go_Text
begin

text \<open>
  Names and paths at the public boundary (\<open>pkg/publicfiles/portal.go\<close>):
  \<open>isSafeVisibleName\<close>, \<open>validateRelativePath\<close> and \<open>validateAbsoluteConfigPath\<close>.
  The lemmas characterise the accepted relative and configuration paths exactly and show that an
  accepted relative path,
  joined to an accepted root, stays beneath that root under lexical resolution.
\<close>

section \<open>Definitions\<close>

datatype path_error =
    FilePathRequired
  | PathMustBeRelative
  | ForbiddenComponent
  | PathMustBeClean
  | AbsolutePathRequired
  | RootIsNotAFile
  | RootCannotBeShared

definition isSafeVisibleName :: "string \<Rightarrow> bool" where
  "isSafeVisibleName value \<longleftrightarrow>
     value \<noteq> [] \<and>
     (case runes value of
        None \<Rightarrow> False
      | Some rs \<Rightarrow> list_all (\<lambda>r. \<not> (unicode_IsControl r \<or> unicode_Cf r)) rs)"

definition forbidden_component :: "string \<Rightarrow> bool" where
  "forbidden_component part \<longleftrightarrow>
     \<not> isSafeVisibleName part \<or> part = ''.'' \<or> part = ''..'' \<or> prefix ''.'' part"

definition validateRelativePath :: "string \<Rightarrow> bool \<Rightarrow> path_error + string" where
  "validateRelativePath value allowRoot =
     (if value = [] then (if allowRoot then Inr [] else Inl FilePathRequired)
      else if 4096 < length value \<or> CHR 0x00 \<in> set value \<or> CHR 0x5C \<in> set value
              \<or> prefix [slash] value
      then Inl PathMustBeRelative
      else if list_ex forbidden_component (splitOn slash value) then Inl ForbiddenComponent
      else if path_Clean value \<noteq> value then Inl PathMustBeClean
      else Inr value)"

definition validateAbsoluteConfigPath :: "string \<Rightarrow> bool \<Rightarrow> path_error + string" where
  "validateAbsoluteConfigPath value allowFile =
     (if value = [] \<or> CHR 0x00 \<in> set value \<or> \<not> utf8_ValidString value \<or> \<not> isAbs value
      then Inl AbsolutePathRequired
      else let clean = path_Clean value in
        if clean \<noteq> value then Inl PathMustBeClean
        else if clean = [slash] then
          (if allowFile then Inl RootIsNotAFile else Inl RootCannotBeShared)
        else Inr clean)"

section \<open>Accepted relative paths\<close>

lemma visible_plain: "\<not> forbidden_component e \<Longrightarrow> plain_element e"
  by (auto simp: forbidden_component_def plain_element_def isSafeVisibleName_def)

lemma relative_parts_clean:
  assumes "value \<noteq> []" "\<not> prefix [slash] value"
    and parts: "list_all (\<lambda>p. \<not> forbidden_component p) (splitOn slash value)"
  shows "path_Clean value = value"
proof -
  have "\<forall>e \<in> set (splitOn slash value). plain_element e"
    using parts visible_plain by (auto simp: list_all_iff)
  then have "clean_elements False (splitOn slash value) = splitOn slash value"
    by (rule clean_elements_plain)
  with assms(1,2) show ?thesis
    by (simp add: path_Clean_def isAbs_def)
qed

lemma not_list_ex_list_all: "\<not> list_ex P xs \<longleftrightarrow> list_all (\<lambda>x. \<not> P x) xs"
  by (simp add: list_ex_iff list_all_iff)

definition public_path :: "string \<Rightarrow> bool" where
  "public_path v \<longleftrightarrow>
     v \<noteq> [] \<and> length v \<le> 4096 \<and> CHR 0x5C \<notin> set v \<and>
     (\<forall>p \<in> set (splitOn slash v). isSafeVisibleName p \<and> \<not> prefix ''.'' p)"

lemma prefix_dot: "prefix ''.'' ''.''" "prefix ''.'' ''..''"
  by simp_all

lemma forbidden_iff: "forbidden_component p \<longleftrightarrow> \<not> isSafeVisibleName p \<or> prefix ''.'' p"
  using prefix_dot by (auto simp: forbidden_component_def)

lemma safe_no_nul: "isSafeVisibleName v \<Longrightarrow> CHR 0x00 \<notin> set v"
proof
  assume v: "isSafeVisibleName v" and nul: "CHR 0x00 \<in> set v"
  then obtain rs where rs: "runes v = Some rs"
      "\<forall>r \<in> set rs. \<not> (unicode_IsControl r \<or> unicode_Cf r)"
    by (auto simp: isSafeVisibleName_def list_all_iff split: option.splits)
  from runes_ascii_mem [OF rs(1) nul] have "0 \<in> set rs" by simp
  with rs(2) show False by (auto simp: unicode_IsControl_def)
qed

lemma splitOn_covers: "c \<in> set s \<Longrightarrow> c \<noteq> d \<Longrightarrow> \<exists>p \<in> set (splitOn d s). c \<in> set p"
  by (induction s) (auto split: list.splits)

lemma public_path_no_nul: "public_path v \<Longrightarrow> CHR 0x00 \<notin> set v"
  using splitOn_covers [of "CHR 0x00" v slash] safe_no_nul by (auto simp: public_path_def)

lemma public_path_relative: "public_path v \<Longrightarrow> \<not> prefix [slash] v"
proof
  assume v: "public_path v" and "prefix [slash] v"
  then obtain w where "v = slash # w" by (auto simp: prefix_def)
  then have "[] \<in> set (splitOn slash v)" by simp
  with v show False by (auto simp: public_path_def isSafeVisibleName_def)
qed

lemma validateRelativePath_iff:
  "validateRelativePath v allowRoot = Inr p \<longleftrightarrow>
     p = v \<and> (v = [] \<and> allowRoot \<or> public_path v)"
proof (cases "v = []")
  case True
  then show ?thesis by (auto simp: validateRelativePath_def public_path_def)
next
  case False
  show ?thesis
  proof
    assume "validateRelativePath v allowRoot = Inr p"
    with False show "p = v \<and> (v = [] \<and> allowRoot \<or> public_path v)"
      by (auto simp: validateRelativePath_def public_path_def forbidden_iff list_ex_iff
          split: if_splits)
  next
    assume r: "p = v \<and> (v = [] \<and> allowRoot \<or> public_path v)"
    with False have v: "public_path v" by simp
    then have "list_all (\<lambda>p. \<not> forbidden_component p) (splitOn slash v)"
      by (auto simp: public_path_def list_all_iff forbidden_iff)
    with False v r show "validateRelativePath v allowRoot = Inr p"
      using public_path_no_nul [OF v] public_path_relative [OF v]
        relative_parts_clean [of v]
      by (auto simp: validateRelativePath_def not_list_ex_list_all public_path_def)
  qed
qed

lemma validateRelativePath_never_unclean:
  "validateRelativePath v allowRoot \<noteq> Inl PathMustBeClean"
  using relative_parts_clean [of v]
  by (auto simp: validateRelativePath_def not_list_ex_list_all)

section \<open>Confinement\<close>

lemma splitOn_beneath: "splitOn d (s @ d # v) = splitOn d s @ splitOn d v"
  by (induction s) (auto split: list.splits)

lemma clean_beneath:
  assumes root: "isAbs r" "path_Clean r = r" "r \<noteq> [slash]"
    and v: "public_path v"
  shows "path_Clean (r @ slash # v) = r @ slash # v"
proof -
  let ?es = "clean_elements True (splitOn slash r)"
  have plain: "\<forall>e \<in> set (splitOn slash v). plain_element e"
    using v by (auto simp: public_path_def plain_element_def isSafeVisibleName_def)
  have r: "r = slash # joinWith slash ?es"
    using root by (simp add: path_Clean_def)
  with root(3) have ne: "?es \<noteq> []" by (metis joinWith.simps(1))
  have abs: "isAbs (r @ slash # v)"
    using root(1) by (auto simp: isAbs_def prefix_def)
  have "clean_elements True (splitOn slash (r @ slash # v)) = ?es @ splitOn slash v"
    using plain by (simp add: splitOn_beneath clean_elements_append_plain)
  then have "path_Clean (r @ slash # v) = slash # joinWith slash (?es @ splitOn slash v)"
    using abs by (simp add: path_Clean_def)
  also have "\<dots> = (slash # joinWith slash ?es) @ slash # v"
    using ne by (simp add: joinWith_append)
  finally show ?thesis using r by simp
qed

lemma validateAbsoluteConfigPath_Inr:
  "validateAbsoluteConfigPath r f = Inr p \<Longrightarrow>
     p = r \<and> isAbs r \<and> path_Clean r = r \<and> r \<noteq> [slash] \<and> CHR 0x00 \<notin> set r"
  by (auto simp: validateAbsoluteConfigPath_def Let_def split: if_splits)

section \<open>Accepted configuration paths\<close>

text \<open>Cleaning a rooted path keeps only plain elements of it.\<close>

lemma foldl_clean_rooted:
  "(\<forall>e \<in> set st. plain_element e) \<Longrightarrow>
     \<forall>e \<in> set (foldl (clean_step True) st es). plain_element e \<and> (e \<in> set st \<or> e \<in> set es)"
proof (induction es arbitrary: st)
  case (Cons x es)
  have step: "\<forall>e \<in> set (clean_step True st x). plain_element e \<and> (e \<in> set st \<or> e = x)"
  proof (cases "plain_element x")
    case False
    then have "set (clean_step True st x) \<subseteq> set st"
      using Cons.prems by (cases st; cases "x = ''..''") (auto simp: clean_step_def plain_element_def)
    with Cons.prems show ?thesis by blast
  qed (use Cons.prems in \<open>auto simp: clean_step_plain\<close>)
  then have "\<forall>e \<in> set (foldl (clean_step True) (clean_step True st x) es).
      plain_element e \<and> (e \<in> set (clean_step True st x) \<or> e \<in> set es)"
    by (intro Cons.IH) blast
  with step show ?case by auto
qed simp

lemma joinWith_concat: "es \<noteq> [] \<Longrightarrow> d # joinWith d es = concat (map ((#) d) es)"
  by (induction d es rule: joinWith.induct) auto

text \<open>A configured path: a slash before each of its elements, of which there is at least one.\<close>

definition config_path :: "string \<Rightarrow> bool" where
  "config_path p \<longleftrightarrow> utf8_ValidString p \<and> CHR 0x00 \<notin> set p \<and>
     (\<exists>es. es \<noteq> [] \<and> (\<forall>e \<in> set es. plain_element e \<and> slash \<notin> set e) \<and> p = concat (map ((#) slash) es))"

lemma clean_absolute_iff:
  "isAbs p \<and> path_Clean p = p \<and> p \<noteq> [slash] \<longleftrightarrow>
     (\<exists>es. es \<noteq> [] \<and> (\<forall>e \<in> set es. plain_element e \<and> slash \<notin> set e) \<and> p = concat (map ((#) slash) es))"
    (is "?L = ?R")
proof
  assume L: ?L
  let ?es = "clean_elements True (splitOn slash p)"
  from L have abs: "isAbs p" and clean: "path_Clean p = p" and root: "p \<noteq> [slash]" by blast+
  from clean abs have p: "slash # joinWith slash ?es = p" by (simp add: path_Clean_def Let_def)
  have ne: "?es \<noteq> []" using p root by (cases ?es) auto
  have "\<forall>e \<in> set ?es. plain_element e \<and> e \<in> set (splitOn slash p)"
    using foldl_clean_rooted [of "[]" "splitOn slash p"] by (simp add: clean_elements_def)
  then have "\<forall>e \<in> set ?es. plain_element e \<and> slash \<notin> set e" by (auto dest: splitOn_parts)
  moreover have "p = concat (map ((#) slash) ?es)" using p joinWith_concat [OF ne, of slash] by simp
  ultimately show ?R using ne by blast
next
  assume ?R
  then obtain es where es: "es \<noteq> []" "\<forall>e \<in> set es. plain_element e \<and> slash \<notin> set e"
    "p = concat (map ((#) slash) es)" by blast
  then have es: "es \<noteq> []" "\<forall>e \<in> set es. plain_element e \<and> slash \<notin> set e" "p = slash # joinWith slash es"
    by (simp_all add: joinWith_concat)
  then have sp: "splitOn slash p = [] # es" by (simp add: splitOn_joinWith)
  have "foldl (clean_step True) [] es = rev es" using es(2) foldl_clean_plain [of es True "[]"] by simp
  then have "clean_elements True (splitOn slash p) = es"
    by (simp add: sp clean_elements_def clean_step_def)
  moreover have "isAbs p" using es(3) by (simp add: isAbs_def)
  moreover have "joinWith slash es \<noteq> []"
    using es(1,2) by (cases es; cases "tl es") (auto simp: plain_element_def)
  ultimately show ?L using es(3) by (simp add: path_Clean_def Let_def)
qed

lemma validateAbsoluteConfigPath_iff:
  "validateAbsoluteConfigPath p f = Inr q \<longleftrightarrow> q = p \<and> config_path p"
proof -
  have "validateAbsoluteConfigPath p f = Inr q \<longleftrightarrow>
      q = p \<and> utf8_ValidString p \<and> CHR 0x00 \<notin> set p \<and> (isAbs p \<and> path_Clean p = p \<and> p \<noteq> [slash])"
    by (cases "p = []") (auto simp: validateAbsoluteConfigPath_def isAbs_def Let_def split: if_splits)
  then show ?thesis by (simp only: clean_absolute_iff config_path_def)
qed

section \<open>Properties of the path checks\<close>

text \<open>C40. \<open>validateRelativePath\<close> accepts exactly the empty path (where the caller allows the root)
  and the paths of at most 4096 bytes without a backslash whose every component is a visible name
  that does not start with a dot, and it returns the path unchanged.\<close>

theorem validateRelativePath_exact:
  "validateRelativePath v allowRoot = Inr p \<longleftrightarrow>
     p = v \<and> (v = [] \<and> allowRoot \<or>
       v \<noteq> [] \<and> length v \<le> 4096 \<and> CHR 0x5C \<notin> set v \<and>
       list_all (\<lambda>c. isSafeVisibleName c \<and> \<not> prefix ''.'' c) (splitOn slash v))"
  by (auto simp: validateRelativePath_iff public_path_def list_all_iff)

text \<open>C5. Confinement: joining the configured share root with an accepted request path gives a path
  that is already clean and lies strictly beneath the root, so no dot segment, doubled slash or
  absolute component can leave it.\<close>

theorem request_path_confined:
  assumes "validateAbsoluteConfigPath root f = Inr r" "validateRelativePath v a = Inr p" "p \<noteq> []"
  shows "path_Clean (r @ slash # p) = r @ slash # p \<and> prefix (r @ [slash]) (r @ slash # p) \<and>
    splitOn slash (r @ slash # p) = splitOn slash r @ splitOn slash p \<and>
    ''..'' \<notin> set (splitOn slash p)"
proof -
  have v: "public_path p" using assms(2,3) by (auto simp: validateRelativePath_iff)
  then have "''..'' \<notin> set (splitOn slash p)" by (force simp: public_path_def)
  then show ?thesis
    using validateAbsoluteConfigPath_Inr [OF assms(1)] clean_beneath [OF _ _ _ v]
    by (simp add: splitOn_beneath)
qed

theorem request_path_confined_witness:
  "validateAbsoluteConfigPath ''/srv/share'' False = Inr ''/srv/share'' \<and>
   validateRelativePath ''a/b.txt'' False = Inr ''a/b.txt'' \<and>
   path_Clean (''/srv/share'' @ slash # ''a/b.txt'') = ''/srv/share/a/b.txt''"
proof -
  have r: "validateAbsoluteConfigPath ''/srv/share'' False = Inr ''/srv/share''"
    by (simp add: validateAbsoluteConfigPath_def text_eval)
  have v: "validateRelativePath ''a/b.txt'' False = Inr ''a/b.txt''"
    by (simp add: validateRelativePath_def forbidden_component_def isSafeVisibleName_def text_eval)
  show ?thesis using r v request_path_confined [OF r v] by simp
qed

text \<open>The final \<open>path.Clean\<close> comparison of \<open>validateRelativePath\<close> never fires: the component
  checks before it already imply a clean path.\<close>

lemma relative_clean_check_redundant:
  "validateRelativePath v allowRoot \<noteq> Inl PathMustBeClean"
  by (rule validateRelativePath_never_unclean)

end
