(* ===== verification/Go_Strconv.thy ===== *)
theory Go_Strconv
  imports Go_Text
begin

text \<open>
  Decimal integers as Go's \<open>strconv\<close> prints and reads them: \<open>FormatUint\<close>/\<open>FormatInt\<close> in base 10
  and \<open>ParseUint\<close>/\<open>ParseInt\<close> with their range checks.
\<close>

definition is_digit :: "char \<Rightarrow> bool" where
  "is_digit c \<longleftrightarrow> 48 \<le> (of_char c :: nat) \<and> of_char c \<le> (57 :: nat)"

definition digit :: "nat \<Rightarrow> char" where
  "digit n = char_of (48 + n)"

definition digit_val :: "char \<Rightarrow> nat" where
  "digit_val c = of_char c - 48"

fun dec_digits :: "nat \<Rightarrow> string" where
  "dec_digits n = (if n < 10 then [digit n] else dec_digits (n div 10) @ [digit (n mod 10)])"

declare dec_digits.simps [simp del]

definition dec_val :: "string \<Rightarrow> nat" where
  "dec_val s = foldl (\<lambda>v c. 10 * v + digit_val c) 0 s"

definition strconv_FormatInt :: "int \<Rightarrow> string" where
  "strconv_FormatInt i = (if i < 0 then CHR ''-'' # dec_digits (nat (- i)) else dec_digits (nat i))"

definition strconv_ParseUint :: "string \<Rightarrow> nat \<Rightarrow> nat option" where
  "strconv_ParseUint s bitSize =
     (if s \<noteq> [] \<and> list_all is_digit s \<and> dec_val s < 2 ^ bitSize then Some (dec_val s) else None)"

definition strconv_ParseInt :: "string \<Rightarrow> nat \<Rightarrow> int option" where
  "strconv_ParseInt s bitSize =
     (let neg = prefix ''-'' s; t = (if prefix ''-'' s \<or> prefix ''+'' s then tl s else s) in
      if t = [] \<or> \<not> list_all is_digit t then None
      else if neg
      then (if dec_val t \<le> 2 ^ (bitSize - 1) then Some (- int (dec_val t)) else None)
      else (if dec_val t < 2 ^ (bitSize - 1) then Some (int (dec_val t)) else None))"

section \<open>Printing and reading back\<close>

lemma digit_facts [simp]:
  assumes "n < 10"
  shows "is_digit (digit n)" "digit_val (digit n) = n"
proof -
  have "(of_char (char_of (48 + n)) :: nat) = 48 + n"
    using assms by simp
  then show "is_digit (digit n)" "digit_val (digit n) = n"
    using assms by (simp_all add: is_digit_def digit_val_def digit_def)
qed

lemma dec_digits_all: "list_all is_digit (dec_digits n)"
proof (induction n rule: dec_digits.induct)
  case (1 n)
  then show ?case by (subst dec_digits.simps) simp
qed

lemma dec_digits_ne [simp]: "dec_digits n \<noteq> []"
  by (subst dec_digits.simps) simp

lemma dec_val_digits [simp]: "dec_val (dec_digits n) = n"
proof (induction n rule: dec_digits.induct)
  case (1 n)
  then show ?case by (subst dec_digits.simps) (simp add: dec_val_def)
qed

lemma dec_digits_length: "n < 10 ^ k \<Longrightarrow> 0 < k \<Longrightarrow> length (dec_digits n) \<le> k"
proof (induction k arbitrary: n)
  case (Suc k)
  show ?case
  proof (cases "n < 10")
    case True
    then show ?thesis by (subst dec_digits.simps) simp
  next
    case False
    then have "0 < k" using Suc.prems by (cases k) auto
    moreover have "n div 10 < 10 ^ k" using Suc.prems by (simp add: less_mult_imp_div_less)
    ultimately have "length (dec_digits (n div 10)) \<le> k" by (rule Suc.IH [rotated])
    with False show ?thesis by (subst dec_digits.simps) simp
  qed
qed simp

lemma dec_digits_lead: "hd (dec_digits n) = digit 0 \<longleftrightarrow> n = 0"
proof (induction n rule: dec_digits.induct)
  case (1 n)
  show ?case
  proof (cases "n < 10")
    case True
    then have "digit n = digit 0 \<longleftrightarrow> n = 0" using digit_facts(2) by (metis zero_less_numeral)
    with True show ?thesis by (subst dec_digits.simps) simp
  next
    case False
    with 1 show ?thesis by (subst dec_digits.simps) (simp add: hd_append)
  qed
qed

lemma sign_not_digit [simp]: "\<not> is_digit CHR ''-''" "\<not> is_digit CHR ''+''"
  by (simp_all add: is_digit_def)

lemma dec_digits_no_sign [simp]:
  "\<not> prefix ''-'' (dec_digits n)" "\<not> prefix ''+'' (dec_digits n)"
  using dec_digits_all [of n] by (auto simp: prefix_def)

lemma ParseUint_digits [simp]:
  "n < 2 ^ b \<Longrightarrow> strconv_ParseUint (dec_digits n) b = Some n"
  by (simp add: strconv_ParseUint_def dec_digits_all)

lemma ParseInt_FormatInt:
  assumes "- (2 ^ (b - 1)) \<le> i" "i < 2 ^ (b - 1)"
  shows "strconv_ParseInt (strconv_FormatInt i) b = Some i"
proof (cases "i < 0")
  case True
  then have "nat (- i) \<le> 2 ^ (b - 1)" using assms(1) by (simp add: nat_le_iff)
  with True show ?thesis
    by (simp add: strconv_ParseInt_def strconv_FormatInt_def dec_digits_all Let_def)
next
  case False
  then have "nat i < 2 ^ (b - 1)" using assms(2) by (simp add: nat_less_iff)
  with False show ?thesis
    by (simp add: strconv_ParseInt_def strconv_FormatInt_def dec_digits_all Let_def)
qed

end
