(* ===== verification/Go_Json.thy ===== *)
theory Go_Json
  imports Go_Strconv
begin

text \<open>
  What the sources use of \<open>encoding/json\<close>: the compact encoder with its HTML and UTF-8 escaping of
  strings, the scanner and unquoting of the decoder, integer conversion with range checks, the
  case-folding match of object keys against field names, and the \<open>Decode\<close>-then-\<open>io.EOF\<close> idiom that
  accepts exactly one value. Object members stay in source order, so that a later duplicate
  overrides an earlier one as it does in Go.
\<close>

section \<open>Runes\<close>

text \<open>The number of bytes of the rune at the front of a string, 0 when it is not valid UTF-8
  (\<open>utf8.DecodeRune\<close> then reports \<open>RuneError\<close> with width 1).\<close>

definition rune_len :: "string \<Rightarrow> nat" where
  "rune_len s =
     (case map of_char s :: nat list of
        [] \<Rightarrow> 0
      | a # r \<Rightarrow>
          if a < 0x80 then 1
          else if 0xC2 \<le> a \<and> a \<le> 0xDF then
            (case r of b # _ \<Rightarrow> if utf8_cont b then 2 else 0 | _ \<Rightarrow> 0)
          else if 0xE0 \<le> a \<and> a \<le> 0xEF then
            (case r of b # c # _ \<Rightarrow> if utf8_second a b \<and> utf8_cont c then 3 else 0 | _ \<Rightarrow> 0)
          else if 0xF0 \<le> a \<and> a \<le> 0xF4 then
            (case r of
               b # c # d # _ \<Rightarrow> if utf8_second a b \<and> utf8_cont c \<and> utf8_cont d then 4 else 0
             | _ \<Rightarrow> 0)
          else 0)"

definition utf8_AppendRune :: "nat \<Rightarrow> string" where
  "utf8_AppendRune r =
     map char_of
       (if r < 0x80 then [r]
        else if r < 0x800 then [0xC0 + r div 0x40, 0x80 + r mod 0x40]
        else if 0xD800 \<le> r \<and> r < 0xE000 \<or> 0x110000 \<le> r then [0xEF, 0xBF, 0xBD]
        else if r < 0x10000
        then [0xE0 + r div 0x1000, 0x80 + r div 0x40 mod 0x40, 0x80 + r mod 0x40]
        else [0xF0 + r div 0x40000, 0x80 + r div 0x1000 mod 0x40, 0x80 + r div 0x40 mod 0x40,
              0x80 + r mod 0x40])"

definition runeError :: string where
  "runeError = map char_of [0xEF, 0xBF, 0xBD :: nat]"

lemma rune_len_ascii: "of_char c < (0x80 :: nat) \<Longrightarrow> rune_len (c # r) = 1"
  by (simp add: rune_len_def)

lemma rune_len_2:
  "0xC2 \<le> (of_char a :: nat) \<Longrightarrow> of_char a \<le> (0xDF :: nat) \<Longrightarrow>
   rune_len (a # r) = (case r of b # _ \<Rightarrow> if utf8_cont (of_char b) then 2 else 0 | _ \<Rightarrow> 0)"
  by (cases r) (simp_all add: rune_len_def)

lemma rune_len_3:
  "0xE0 \<le> (of_char a :: nat) \<Longrightarrow> of_char a \<le> (0xEF :: nat) \<Longrightarrow>
   rune_len (a # r) =
     (case r of
        b # c # _ \<Rightarrow> if utf8_second (of_char a) (of_char b) \<and> utf8_cont (of_char c) then 3 else 0
      | _ \<Rightarrow> 0)"
  by (simp add: rune_len_def split: list.split)

lemma rune_len_4:
  "0xF0 \<le> (of_char a :: nat) \<Longrightarrow> of_char a \<le> (0xF4 :: nat) \<Longrightarrow>
   rune_len (a # r) =
     (case r of
        b # c # d # _ \<Rightarrow>
          if utf8_second (of_char a) (of_char b) \<and> utf8_cont (of_char c) \<and> utf8_cont (of_char d)
          then 4 else 0
      | _ \<Rightarrow> 0)"
  by (simp add: rune_len_def split: list.split)

lemma rune_len_0:
  "\<not> (of_char a :: nat) < 0x80 \<Longrightarrow> \<not> (0xC2 \<le> (of_char a :: nat) \<and> of_char a \<le> (0xDF :: nat)) \<Longrightarrow>
   \<not> (0xE0 \<le> (of_char a :: nat) \<and> of_char a \<le> (0xEF :: nat)) \<Longrightarrow>
   \<not> (0xF0 \<le> (of_char a :: nat) \<and> of_char a \<le> (0xF4 :: nat)) \<Longrightarrow> rune_len (a # r) = 0"
  unfolding rune_len_def by auto

lemma rune_len_cases:
  assumes "0 < rune_len s"
  obtains (one) a r where "s = a # r" "of_char a < (0x80 :: nat)"
  | (two) a b r where "s = a # b # r" "0xC2 \<le> (of_char a :: nat)" "of_char a \<le> (0xDF :: nat)"
      "utf8_cont (of_char b)"
  | (three) a b c r where "s = a # b # c # r" "0xE0 \<le> (of_char a :: nat)"
      "of_char a \<le> (0xEF :: nat)" "utf8_second (of_char a) (of_char b)" "utf8_cont (of_char c)"
  | (four) a b c d r where "s = a # b # c # d # r" "0xF0 \<le> (of_char a :: nat)"
      "of_char a \<le> (0xF4 :: nat)" "utf8_second (of_char a) (of_char b)" "utf8_cont (of_char c)"
      "utf8_cont (of_char d)"
proof -
  obtain a r where s: "s = a # r" using assms by (cases s) (auto simp: rune_len_def)
  let ?a = "of_char a :: nat"
  consider "?a < 0x80" | "0xC2 \<le> ?a" "?a \<le> 0xDF" | "0xE0 \<le> ?a" "?a \<le> 0xEF"
    | "0xF0 \<le> ?a" "?a \<le> 0xF4"
    using assms rune_len_0 [of a r] s by fastforce
  then show thesis
  proof cases
    case 1
    with s one show ?thesis by blast
  next
    case 2
    with assms s two show ?thesis by (auto simp: rune_len_2 split: list.splits if_splits)
  next
    case 3
    with assms s three show ?thesis by (auto simp: rune_len_3 split: list.splits if_splits)
  next
    case 4
    with assms s four show ?thesis by (auto simp: rune_len_4 split: list.splits if_splits)
  qed
qed

lemmas rune_len_simps = rune_len_ascii rune_len_2 rune_len_3 rune_len_4

lemma rune_len_bounds: "rune_len s \<le> length s \<and> rune_len s \<le> 4"
proof (cases "0 < rune_len s")
  case True
  then show ?thesis by (elim rune_len_cases) (simp_all add: rune_len_simps)
qed simp

lemma rune_len_append:
  "0 < rune_len s \<Longrightarrow> rune_len (take (rune_len s) s @ t) = rune_len s"
  by (elim rune_len_cases) (simp_all add: rune_len_simps)

lemma rune_bytes_high:
  "c \<in> set (take (rune_len s) s) \<Longrightarrow> 1 < rune_len s \<Longrightarrow> 0x80 \<le> (of_char c :: nat)"
proof -
  assume c: "c \<in> set (take (rune_len s) s)" and "1 < rune_len s"
  then have "0 < rune_len s" by simp
  then show ?thesis
    using c \<open>1 < rune_len s\<close>
    by (elim rune_len_cases) (auto simp: rune_len_simps not_less dest!: utf8_cont_ascii)
qed

lemma valid_rune_step:
  assumes "utf8_ValidString s" "s \<noteq> []"
  shows "0 < rune_len s \<and> utf8_ValidString (drop (rune_len s) s)"
proof -
  obtain a r where s: "s = a # r" using assms(2) by (cases s) auto
  let ?a = "of_char a :: nat"
  consider "?a < 0x80" | "0xC2 \<le> ?a" "?a \<le> 0xDF" | "0xE0 \<le> ?a" "?a \<le> 0xEF"
    | "0xF0 \<le> ?a" "?a \<le> 0xF4"
    using assms(1) s by (auto simp: utf8_ValidString_def runes_def split: if_splits)
  then show ?thesis
  proof cases
    case 1
    with assms(1) s show ?thesis by (auto simp: utf8_ValidString_def runes_def rune_len_simps)
  next
    case 2
    with assms(1) s show ?thesis
      by (cases r) (auto simp: utf8_ValidString_def runes_def rune_len_simps split: if_splits)
  next
    case 3
    with assms(1) s show ?thesis
      by (auto simp: utf8_ValidString_def runes_def rune_len_simps split: list.splits if_splits)
  next
    case 4
    with assms(1) s show ?thesis
      by (auto simp: utf8_ValidString_def runes_def rune_len_simps split: list.splits if_splits)
  qed
qed

lemma rune_len_extend: "0 < rune_len a \<Longrightarrow> rune_len (a @ b) = rune_len a"
  by (elim rune_len_cases) (simp_all add: rune_len_simps)

lemma valid_rune_back:
  assumes "0 < rune_len s" "utf8_ValidString (drop (rune_len s) s)"
  shows "utf8_ValidString s"
  using assms by (elim rune_len_cases) (auto simp: rune_len_simps utf8_ValidString_def runes_def)

lemma utf8_ValidString_append:
  "utf8_ValidString a \<Longrightarrow> utf8_ValidString b \<Longrightarrow> utf8_ValidString (a @ b)"
proof (induction a rule: length_induct)
  case (1 a)
  show ?case
  proof (cases "a = []")
    case False
    then have step: "0 < rune_len a \<and> utf8_ValidString (drop (rune_len a) a)"
      using valid_rune_step "1.prems"(1) by blast
    then have len: "length (drop (rune_len a) a) < length a" using False by simp
    then have rest: "utf8_ValidString (drop (rune_len a) a @ b)"
      using "1.IH" step "1.prems"(2) by blast
    have k: "rune_len (a @ b) = rune_len a" using step by (simp add: rune_len_extend)
    have "drop (rune_len (a @ b)) (a @ b) = drop (rune_len a) a @ b"
      unfolding k using rune_len_bounds [of a] by simp
    then show ?thesis using rest step k valid_rune_back [of "a @ b"] by simp
  qed (simp add: "1.prems")
qed

lemma utf8_ValidString_joinWith:
  "(\<And>x. x \<in> set xs \<Longrightarrow> utf8_ValidString x) \<Longrightarrow> of_char d < (0x80 :: nat) \<Longrightarrow>
     utf8_ValidString (joinWith d xs)"
proof (induction xs)
  case (Cons x xs)
  have d: "utf8_ValidString [d]" using Cons.prems(2) by (simp add: utf8_ValidString_def runes_def)
  have "utf8_ValidString (x @ [d] @ joinWith d xs)"
    using Cons d by (intro utf8_ValidString_append) auto
  then show ?case using Cons.prems by (cases xs) auto
qed (simp add: utf8_ValidString_def runes_def)

section \<open>Strings\<close>

definition hexdigit :: "nat \<Rightarrow> char" where
  "hexdigit n = (if n < 10 then char_of (48 + n) else char_of (87 + n))"

definition hex_val :: "char \<Rightarrow> nat option" where
  "hex_val c =
     (let n = of_char c :: nat in
      if 48 \<le> n \<and> n \<le> 57 then Some (n - 48)
      else if 97 \<le> n \<and> n \<le> 102 then Some (n - 87)
      else if 65 \<le> n \<and> n \<le> 70 then Some (n - 55)
      else None)"

definition html_safe :: "char \<Rightarrow> bool" where
  "html_safe c \<longleftrightarrow>
     0x20 \<le> (of_char c :: nat) \<and> of_char c < (0x80 :: nat) \<and>
     c \<noteq> CHR 0x22 \<and> c \<noteq> CHR 0x5C \<and> c \<noteq> CHR ''<'' \<and> c \<noteq> CHR ''>'' \<and> c \<noteq> CHR ''&''"

definition escape_ascii :: "char \<Rightarrow> string" where
  "escape_ascii c =
     (if c = CHR 0x5C \<or> c = CHR 0x22 then [CHR 0x5C, c]
      else if c = CHR 0x08 then [CHR 0x5C, CHR ''b'']
      else if c = CHR 0x0C then [CHR 0x5C, CHR ''f'']
      else if c = CHR 0x0A then [CHR 0x5C, CHR ''n'']
      else if c = CHR 0x0D then [CHR 0x5C, CHR ''r'']
      else if c = CHR 0x09 then [CHR 0x5C, CHR ''t'']
      else [CHR 0x5C, CHR ''u'', CHR ''0'', CHR ''0'',
            hexdigit (of_char c div 16), hexdigit (of_char c mod 16)])"

definition line_separators :: "string list" where
  "line_separators = [map char_of [0xE2, 0x80, 0xA8 :: nat], map char_of [0xE2, 0x80, 0xA9 :: nat]]"

text \<open>\<open>appendString\<close> with \<open>escapeHTML\<close>, without the surrounding quotes.\<close>

function json_escape :: "string \<Rightarrow> string" where
  "json_escape [] = []"
| "json_escape (c # r) =
     (if of_char c < (0x80 :: nat)
      then (if html_safe c then [c] else escape_ascii c) @ json_escape r
      else let k = rune_len (c # r) in
        if k = 0 then [CHR 0x5C, CHR ''u'', CHR ''f'', CHR ''f'', CHR ''f'', CHR ''d''] @ json_escape r
        else if take k (c # r) = line_separators ! 0
        then [CHR 0x5C, CHR ''u'', CHR ''2'', CHR ''0'', CHR ''2'', CHR ''8''] @ json_escape (drop k (c # r))
        else if take k (c # r) = line_separators ! 1
        then [CHR 0x5C, CHR ''u'', CHR ''2'', CHR ''0'', CHR ''2'', CHR ''9''] @ json_escape (drop k (c # r))
        else take k (c # r) @ json_escape (drop k (c # r)))"
  by pat_completeness auto
termination by (relation "measure length") auto

definition json_quote :: "string \<Rightarrow> string" where
  "json_quote s = CHR 0x22 # json_escape s @ [CHR 0x22]"

definition unescape_char :: "char \<Rightarrow> char option" where
  "unescape_char c =
     (if c = CHR 0x22 \<or> c = CHR 0x5C \<or> c = CHR ''/'' then Some c
      else if c = CHR ''b'' then Some CHR 0x08
      else if c = CHR ''f'' then Some CHR 0x0C
      else if c = CHR ''n'' then Some CHR 0x0A
      else if c = CHR ''r'' then Some CHR 0x0D
      else if c = CHR ''t'' then Some CHR 0x09
      else None)"

definition hex4 :: "string \<Rightarrow> nat option" where
  "hex4 s =
     (case s of
        a # b # c # d # _ \<Rightarrow>
          (case (hex_val a, hex_val b, hex_val c, hex_val d) of
             (Some i, Some j, Some k, Some l) \<Rightarrow> Some (i * 4096 + j * 256 + k * 16 + l)
           | _ \<Rightarrow> None)
      | _ \<Rightarrow> None)"

definition low_surrogate :: "string \<Rightarrow> nat option" where
  "low_surrogate s =
     (case s of
        a # b # r \<Rightarrow>
          if a = CHR 0x5C \<and> b = CHR ''u''
          then (case hex4 r of
                  Some l \<Rightarrow> if 0xDC00 \<le> l \<and> l < 0xE000 then Some l else None
                | None \<Rightarrow> None)
          else None
      | _ \<Rightarrow> None)"

text \<open>The contents of a string literal up to its closing quote, and what follows.\<close>

function json_unquote :: "string \<Rightarrow> (string \<times> string) option" where
  "json_unquote [] = None"
| "json_unquote (c # r) =
     (if c = CHR 0x22 then Some ([], r)
      else if c = CHR 0x5C then
        (case r of
           [] \<Rightarrow> None
         | e # t \<Rightarrow>
             (case unescape_char e of
                Some d \<Rightarrow> map_option (apfst (Cons d)) (json_unquote t)
              | None \<Rightarrow>
                  if e \<noteq> CHR ''u'' then None
                  else (case hex4 t of
                    None \<Rightarrow> None
                  | Some u \<Rightarrow>
                      if 0xD800 \<le> u \<and> u < 0xDC00 \<and> low_surrogate (drop 4 t) \<noteq> None
                      then map_option
                             (apfst (append (utf8_AppendRune
                               (0x10000 + (u - 0xD800) * 0x400
                                + (the (low_surrogate (drop 4 t)) - 0xDC00)))))
                             (json_unquote (drop 10 t))
                      else map_option (apfst (append (utf8_AppendRune u)))
                             (json_unquote (drop 4 t)))))
      else if of_char c < (0x20 :: nat) then None
      else if of_char c < (0x80 :: nat) then map_option (apfst (Cons c)) (json_unquote r)
      else let k = rune_len (c # r) in
        if k = 0 then map_option (apfst (append runeError)) (json_unquote r)
        else map_option (apfst (append (take k (c # r)))) (json_unquote (drop k (c # r))))"
  by pat_completeness auto
termination by (relation "measure length") auto

section \<open>Strings read back\<close>

lemma hex_val_hexdigit: "n < 16 \<Longrightarrow> hex_val (hexdigit n) = Some n"
  by (auto simp: hex_val_def hexdigit_def Let_def)

lemma unquote_plain:
  assumes "html_safe c"
  shows "json_unquote (c # X) = map_option (apfst (Cons c)) (json_unquote X)"
  using assms by (simp add: html_safe_def)

lemma unquote_hex:
  assumes "n < 0x80"
  shows "json_unquote ([CHR 0x5C, CHR ''u'', CHR ''0'', CHR ''0'', hexdigit (n div 16), hexdigit (n mod 16)] @ X)
    = map_option (apfst (Cons (char_of n))) (json_unquote X)"
proof -
  have "hex_val (hexdigit (n div 16)) = Some (n div 16)" "hex_val (hexdigit (n mod 16)) = Some (n mod 16)"
    using assms by (simp_all add: hex_val_hexdigit less_mult_imp_div_less)
  moreover have "hex_val CHR ''0'' = Some 0" by (simp add: hex_val_def Let_def)
  ultimately have "hex4 (CHR ''0'' # CHR ''0'' # hexdigit (n div 16) # hexdigit (n mod 16) # X) = Some n"
    by (simp add: hex4_def)
  moreover have "(Cons (char_of n) :: string \<Rightarrow> string) = append [char_of n]" by auto
  ultimately show ?thesis
    using assms by (simp add: unescape_char_def utf8_AppendRune_def)
qed

lemma unquote_escape_ascii:
  assumes "of_char c < (0x80 :: nat)"
  shows "json_unquote (escape_ascii c @ X) = map_option (apfst (Cons c)) (json_unquote X)"
  using unquote_hex [OF assms, of X]
  by (auto simp: escape_ascii_def unescape_char_def)

lemma unquote_separators:
  "json_unquote ([CHR 0x5C, CHR ''u'', CHR ''2'', CHR ''0'', CHR ''2'', CHR ''8''] @ X) =
     map_option (apfst (append (line_separators ! 0))) (json_unquote X)"
  "json_unquote ([CHR 0x5C, CHR ''u'', CHR ''2'', CHR ''0'', CHR ''2'', CHR ''9''] @ X) =
     map_option (apfst (append (line_separators ! 1))) (json_unquote X)"
  by (simp_all add: unescape_char_def hex4_def hex_val_def utf8_AppendRune_def line_separators_def
      Let_def)

lemma unquote_rune:
  assumes "1 < rune_len s"
  shows "json_unquote (take (rune_len s) s @ X) =
    map_option (apfst (append (take (rune_len s) s))) (json_unquote X)"
proof -
  obtain c r where t: "take (rune_len s) s = c # r"
    using assms rune_len_bounds [of s] by (cases "take (rune_len s) s") auto
  have len: "length (take (rune_len s) s) = rune_len s" using rune_len_bounds [of s] by simp
  have k: "rune_len (c # r @ X) = rune_len s" using rune_len_append [of s X] assms t by simp
  have "0x80 \<le> (of_char c :: nat)" using rune_bytes_high [OF _ assms, of c] t by simp
  then have hi: "c \<noteq> CHR 0x22" "c \<noteq> CHR 0x5C" "\<not> of_char c < (0x80 :: nat)" "\<not> of_char c < (0x20 :: nat)"
    by auto
  have "take (rune_len s) (c # r @ X) = c # r" "drop (rune_len s) (c # r @ X) = X"
    using t len by (metis append_Cons append_take_drop_id append_eq_conv_conj)+
  then show ?thesis
    using hi assms by (simp add: t k Let_def del: take.simps drop.simps)
qed

lemma json_unquote_escape:
  "utf8_ValidString s \<Longrightarrow> json_unquote (json_escape s @ CHR 0x22 # rest) = Some (s, rest)"
proof (induction s rule: length_induct)
  case (1 s)
  show ?case
  proof (cases s)
    case (Cons c r)
    let ?k = "rune_len s"
    have step: "0 < ?k" "utf8_ValidString (drop ?k s)"
      using valid_rune_step [OF "1.prems"] Cons by auto
    have ih: "json_unquote (json_escape (drop ?k s) @ CHR 0x22 # rest) = Some (drop ?k s, rest)"
      using "1.IH" step Cons by simp
    show ?thesis
    proof (cases "of_char c < (0x80 :: nat)")
      case True
      then have "drop ?k s = r" using Cons by (simp add: rune_len_ascii)
      with True ih Cons show ?thesis
        by (cases "html_safe c")
           (simp_all add: unquote_plain unquote_escape_ascii del: json_unquote.simps)
    next
      case False
      have k1: "1 < ?k"
        using step(1) False Cons by (elim rune_len_cases) (auto simp: rune_len_simps)
      have split_s: "take ?k s @ drop ?k s = s" by simp
      have "json_escape s =
          (if take ?k s = line_separators ! 0
           then [CHR 0x5C, CHR ''u'', CHR ''2'', CHR ''0'', CHR ''2'', CHR ''8'']
           else if take ?k s = line_separators ! 1
           then [CHR 0x5C, CHR ''u'', CHR ''2'', CHR ''0'', CHR ''2'', CHR ''9'']
           else take ?k s) @ json_escape (drop ?k s)"
        using False step(1) by (simp add: Cons Let_def)
      then have "json_unquote (json_escape s @ CHR 0x22 # rest) =
          map_option (apfst (append (take ?k s)))
            (json_unquote (json_escape (drop ?k s) @ CHR 0x22 # rest))"
        using unquote_rune [OF k1, of "json_escape (drop ?k s) @ CHR 0x22 # rest"]
          unquote_separators [of "json_escape (drop ?k s) @ CHR 0x22 # rest"]
        by (simp del: json_unquote.simps)
      with ih split_s show ?thesis by simp
    qed
  qed simp
qed

lemma json_escape_length: "length (json_escape s) \<le> 6 * length s"
proof (induction s rule: length_induct)
  case (1 s)
  show ?case
  proof (cases s)
    case (Cons c r)
    have "length (json_escape r) \<le> 6 * length r" using "1.IH" Cons by simp
    moreover have "length (json_escape (drop (rune_len s) s)) \<le> 6 * (length s - rune_len s)"
      if "0 < rune_len s" using "1.IH" Cons that by (metis diff_less length_drop length_greater_0_conv list.distinct(1))
    moreover have "rune_len s \<le> length s" using rune_len_bounds [of s] by simp
    ultimately show ?thesis
      using Cons by (auto simp: Let_def escape_ascii_def)
  qed simp
qed

section \<open>Values\<close>

datatype json =
    JNull
  | JBool bool
  | JNum string
  | JStr string
  | JArr "json list"
  | JObj "(string \<times> json) list"

primrec json_encode :: "json \<Rightarrow> string" where
  "json_encode JNull = ''null''"
| "json_encode (JBool b) = (if b then ''true'' else ''false'')"
| "json_encode (JNum n) = n"
| "json_encode (JStr s) = json_quote s"
| "json_encode (JArr vs) = CHR ''['' # joinWith CHR '','' (map json_encode vs) @ '']''"
| "json_encode (JObj ms) =
     CHR ''{'' # joinWith CHR '','' (map (\<lambda>(k, t). json_quote k @ CHR '':'' # t)
       (map (map_prod (\<lambda>x. x) json_encode) ms)) @ ''}''"

primrec json_depth :: "json \<Rightarrow> nat" where
  "json_depth JNull = 0"
| "json_depth (JBool b) = 0"
| "json_depth (JNum n) = 0"
| "json_depth (JStr s) = 0"
| "json_depth (JArr vs) = Suc (foldr max (map json_depth vs) 0)"
| "json_depth (JObj ms) =
     Suc (foldr max (map snd (map (map_prod (\<lambda>x. x) json_depth) ms)) 0)"

fun skip_ws :: "string \<Rightarrow> string" where
  "skip_ws [] = []"
| "skip_ws (c # r) =
     (if c = CHR 0x20 \<or> c = CHR 0x09 \<or> c = CHR 0x0A \<or> c = CHR 0x0D then skip_ws r else c # r)"

definition json_frac :: "string \<Rightarrow> string option" where
  "json_frac s =
     (if prefix ''.'' s
      then let d = takeWhile is_digit (tl s) in if d = [] then None else Some (CHR ''.'' # d)
      else Some [])"

definition json_exp :: "string \<Rightarrow> string option" where
  "json_exp s =
     (if prefix ''e'' s \<or> prefix ''E'' s
      then let t = tl s; g = (if prefix ''+'' t \<or> prefix ''-'' t then take 1 t else []);
               d = takeWhile is_digit (drop (length g) t) in
        if d = [] then None else Some (take 1 s @ g @ d)
      else Some [])"

definition json_int :: "string \<Rightarrow> string" where
  "json_int s = (if prefix ''0'' s then ''0'' else takeWhile is_digit s)"

definition json_unsigned :: "string \<Rightarrow> (string \<times> string) option" where
  "json_unsigned s =
     (let ip = json_int s; t = drop (length ip) s in
      if ip = [] then None
      else case json_frac t of
        None \<Rightarrow> None
      | Some f \<Rightarrow>
          (case json_exp (drop (length f) t) of
             None \<Rightarrow> None
           | Some e \<Rightarrow> Some (ip @ f @ e, drop (length f + length e) t)))"

definition json_number :: "string \<Rightarrow> (string \<times> string) option" where
  "json_number s =
     (if prefix ''-'' s then map_option (apfst (Cons CHR ''-'')) (json_unsigned (tl s))
      else json_unsigned s)"

definition json_literal :: "string \<Rightarrow> (json \<times> string) option" where
  "json_literal s =
     (if prefix ''true'' s then Some (JBool True, drop 4 s)
      else if prefix ''false'' s then Some (JBool False, drop 5 s)
      else if prefix ''null'' s then Some (JNull, drop 4 s)
      else map_option (apfst JNum) (json_number s))"

fun json_value :: "nat \<Rightarrow> string \<Rightarrow> (json \<times> string) option"
  and json_elements :: "nat \<Rightarrow> string \<Rightarrow> (json list \<times> string) option"
  and json_members :: "nat \<Rightarrow> string \<Rightarrow> ((string \<times> json) list \<times> string) option" where
  "json_value 0 s = None"
| "json_value (Suc n) s =
     (case skip_ws s of
        [] \<Rightarrow> None
      | c # r \<Rightarrow>
          if c = CHR 0x22 then map_option (apfst JStr) (json_unquote r)
          else if c = CHR ''['' then
            (if prefix '']'' (skip_ws r) then Some (JArr [], tl (skip_ws r))
             else map_option (apfst JArr) (json_elements n r))
          else if c = CHR ''{'' then
            (if prefix ''}'' (skip_ws r) then Some (JObj [], tl (skip_ws r))
             else map_option (apfst JObj) (json_members n r))
          else json_literal (c # r))"
| "json_elements 0 s = None"
| "json_elements (Suc n) s =
     (case json_value n s of
        None \<Rightarrow> None
      | Some (v, r) \<Rightarrow>
          (case skip_ws r of
             [] \<Rightarrow> None
           | d # t \<Rightarrow>
               if d = CHR '','' then map_option (apfst (Cons v)) (json_elements n t)
               else if d = CHR '']'' then Some ([v], t)
               else None))"
| "json_members 0 s = None"
| "json_members (Suc n) s =
     (if \<not> prefix [CHR 0x22] (skip_ws s) then None
      else case json_unquote (tl (skip_ws s)) of
        None \<Rightarrow> None
      | Some (k, r) \<Rightarrow>
          if \<not> prefix '':'' (skip_ws r) then None
          else (case json_value n (tl (skip_ws r)) of
            None \<Rightarrow> None
          | Some (v, r') \<Rightarrow>
              (case skip_ws r' of
                 [] \<Rightarrow> None
               | d # t \<Rightarrow>
                   if d = CHR '','' then map_option (apfst (Cons (k, v))) (json_members n t)
                   else if d = CHR ''}'' then Some ([(k, v)], t)
                   else None)))"

definition maxNestingDepth :: nat where "maxNestingDepth = 10000"

text \<open>One value and then \<open>io.EOF\<close>. At most two nested calls of the three functions above pass before
  a byte is consumed, so twice the length of the input is enough fuel (\<open>json_fuel\<close> below).\<close>

definition json_decode_one :: "string \<Rightarrow> json option" where
  "json_decode_one s =
     (case json_value (2 * length s + 1) s of
        Some (v, r) \<Rightarrow> if skip_ws r = [] \<and> json_depth v \<le> maxNestingDepth then Some v else None
      | None \<Rightarrow> None)"

section \<open>The fuel is enough\<close>

lemma map_apfst_Some [simp]:
  "map_option (apfst f) x = Some (v, r) \<longleftrightarrow> (\<exists>u. x = Some (u, r) \<and> v = f u)"
  by (cases x) auto

lemma skip_ws_length: "length (skip_ws s) \<le> length s"
  by (induction s) auto

lemma json_unquote_shorter: "json_unquote s = Some (t, r) \<Longrightarrow> length r < length s"
proof (induction s arbitrary: t r rule: length_induct)
  case (1 s)
  then have ih: "json_unquote u = Some (t', r') \<Longrightarrow> length u < length s \<Longrightarrow> length r' < length u"
    for u t' r' by blast
  have opt: "map_option (apfst f) (json_unquote u) = Some (t, r) \<Longrightarrow> length u < length s \<Longrightarrow>
      length r < length s" for f u
    using ih by (cases "json_unquote u") (auto, fastforce)
  show ?case
    using "1.prems" opt
    by (cases s) (auto simp: Let_def split: if_splits list.splits option.splits)
qed

lemma json_unsigned_shorter: "json_unsigned s = Some (t, r) \<Longrightarrow> length r < length s"
  by (cases "s = []")
     (auto simp: json_unsigned_def json_int_def Let_def intro!: diff_less split: if_splits option.splits)

lemma json_number_shorter: "json_number s = Some (t, r) \<Longrightarrow> length r < length s"
  by (cases s) (auto simp: json_number_def split: if_splits dest!: json_unsigned_shorter)

lemma json_literal_shorter: "json_literal s = Some (v, r) \<Longrightarrow> length r < length s"
  by (auto simp: json_literal_def prefix_def split: if_splits dest: json_number_shorter)

lemma skip_ws_Cons: "skip_ws s = c # r \<Longrightarrow> length r < length s"
  using skip_ws_length [of s] by simp

lemma skip_ws_tl: "prefix [c] (skip_ws s) \<Longrightarrow> length (tl (skip_ws s)) < length s"
  using skip_ws_length [of s] by (auto simp: prefix_def)

lemma json_shorter:
  "json_value n s = Some (v, r) \<Longrightarrow> length r < length s"
  "json_elements n s = Some (vs, r) \<Longrightarrow> length r < length s"
  "json_members n s = Some (ms, r) \<Longrightarrow> length r < length s"
proof (induction n s and n s and n s arbitrary: v r and vs r and ms r
    rule: json_value_json_elements_json_members.induct)
  case (2 n s)
  then obtain c t where t: "skip_ws s = c # t" by (auto split: list.splits)
  note len = skip_ws_Cons [OF t] skip_ws_tl [of _ t]
  consider "c = CHR 0x22" | "c = CHR ''[''" | "c = CHR ''{''"
    | "c \<noteq> CHR 0x22" "c \<noteq> CHR ''[''" "c \<noteq> CHR ''{''" by blast
  then show ?case
  proof cases
    case 1
    with "2.prems" t len show ?thesis by (auto dest!: json_unquote_shorter)
  next
    case 2
    with "2.prems" t len "2.IH"(1) [OF t] show ?thesis
      by (auto split: if_splits) (metis less_trans)+
  next
    case 3
    with "2.prems" t len "2.IH"(2) [OF t] show ?thesis
      by (auto split: if_splits) (metis less_trans)+
  next
    case 4
    with "2.prems" t have "json_literal (c # t) = Some (v, r)" by simp
    then show ?thesis using json_literal_shorter skip_ws_length [of s] t by fastforce
  qed
next
  case (4 n s)
  then obtain v u d t where v: "json_value n s = Some (v, u)" and d: "skip_ws u = d # t"
    by (auto split: option.splits list.splits)
  have u: "length u < length s" using "4.IH"(1) [OF v] .
  show ?case
  proof (cases "d = CHR '',''")
    case True
    with "4.prems" v d obtain vs' where "json_elements n t = Some (vs', r)" by auto
    then have "length r < length t" using "4.IH"(2) [OF v refl d True] by simp
    then show ?thesis using u skip_ws_Cons [OF d] by simp
  next
    case False
    with "4.prems" v d u skip_ws_Cons [OF d] show ?thesis by (auto split: if_splits)
  qed
next
  case (6 n s)
  then have q: "prefix [CHR 0x22] (skip_ws s)" by (auto split: if_splits)
  with 6 obtain k u where k: "json_unquote (tl (skip_ws s)) = Some (k, u)"
    by (auto split: option.splits)
  with 6 q have c: "prefix '':'' (skip_ws u)" by (auto split: if_splits)
  with 6 q k obtain v w d t where v: "json_value n (tl (skip_ws u)) = Some (v, w)"
      and d: "skip_ws w = d # t"
    by (auto split: option.splits list.splits)
  have w: "length w < length s"
    using "6.IH"(1) [of "(k, u)" k u v w] q k c v json_unquote_shorter [OF k] skip_ws_tl [OF q]
      skip_ws_tl [OF c]
    by simp
  show ?case
  proof (cases "d = CHR '',''")
    case True
    with "6.prems" q k c v d obtain ms' where ms: "json_members n t = Some (ms', r)" by auto
    then have "length r < length t"
      using "6.IH"(2) [of "(k, u)" k u "(v, w)" v w d t ms' r] q k c v d True by simp
    then show ?thesis using w skip_ws_Cons [OF d] by simp
  next
    case False
    with "6.prems" q k c v d w skip_ws_Cons [OF d] show ?thesis by (auto split: if_splits)
  qed
qed simp_all

lemma json_fuel:
  "2 * length s + 1 \<le> n \<Longrightarrow> n \<le> m \<Longrightarrow> json_value m s = json_value n s"
  "2 * length s + 2 \<le> n \<Longrightarrow> n \<le> m \<Longrightarrow> json_elements m s = json_elements n s"
  "2 * length s + 2 \<le> n \<Longrightarrow> n \<le> m \<Longrightarrow> json_members m s = json_members n s"
proof (induction n s and n s and n s arbitrary: m and m and m
    rule: json_value_json_elements_json_members.induct)
  case (2 n s)
  obtain m' where m: "m = Suc m'" "n \<le> m'" using "2.prems" by (cases m) auto
  show ?case
  proof (cases "skip_ws s")
    case (Cons c t)
    have len: "2 * length t + 2 \<le> n" using skip_ws_Cons [OF Cons] "2.prems" by simp
    have "json_elements m' t = json_elements n t" if "c = CHR ''[''" "\<not> prefix '']'' (skip_ws t)"
      by (rule "2.IH"(1) [OF Cons]) (use that len m(2) in simp_all)
    moreover have "json_members m' t = json_members n t" if "c = CHR ''{''" "\<not> prefix ''}'' (skip_ws t)"
      by (rule "2.IH"(2) [OF Cons]) (use that len m(2) in simp_all)
    ultimately show ?thesis using Cons m(1) by simp
  qed (simp add: m)
next
  case (4 n s)
  obtain m' where m: "m = Suc m'" "n \<le> m'" using "4.prems" by (cases m) auto
  have val: "json_value m' s = json_value n s" 
    by (rule "4.IH"(1)) (use "4.prems" m in simp_all)
  show ?case
  proof (cases "json_value n s")
    case (Some p)
    obtain v u where p: "p = (v, u)" by (cases p)
    have "json_elements m' t = json_elements n t" if "skip_ws u = CHR '','' # t" for t
      by (rule "4.IH"(2) [OF Some p [symmetric] that refl])
         (use "4.prems" m skip_ws_Cons [OF that] json_shorter(1) [of n s v u] Some p in simp_all)
    then show ?thesis using m val Some p by (auto split: list.split)
  qed (simp add: m val)
next
  case (6 n s)
  obtain m' where m: "m = Suc m'" "n \<le> m'" using "6.prems" by (cases m) auto
  show ?case
  proof (cases "prefix [CHR 0x22] (skip_ws s) \<and> json_unquote (tl (skip_ws s)) \<noteq> None")
    case True
    then obtain k u where k: "json_unquote (tl (skip_ws s)) = Some (k, u)" by auto
    have u: "length u < length s"
      using json_unquote_shorter [OF k] skip_ws_tl [of _ s] True by (metis less_trans)
    have val: "json_value m' (tl (skip_ws u)) = json_value n (tl (skip_ws u))"
      if "prefix '':'' (skip_ws u)"
      by (rule "6.IH"(1)) (use True k that m "6.prems" u skip_ws_tl [OF that] in simp_all)
    have "json_members m' t = json_members n t"
      if "prefix '':'' (skip_ws u)" "json_value n (tl (skip_ws u)) = Some (v, w)"
        "skip_ws w = CHR '','' # t" for v w t
      by (rule "6.IH"(2))
         (use True k that m "6.prems" u skip_ws_tl [OF that(1)] json_shorter(1) [OF that(2)]
            skip_ws_Cons [OF that(3)] in simp_all)
    then show ?thesis using m val True k by (auto split: list.split option.split)
  qed (auto simp: m split: option.split)
qed simp_all

section \<open>Values read back\<close>

definition number_end :: "string \<Rightarrow> bool" where
  "number_end r \<longleftrightarrow>
     (case r of [] \<Rightarrow> True | c # _ \<Rightarrow> \<not> is_digit c \<and> c \<noteq> CHR ''.'' \<and> c \<noteq> CHR ''e'' \<and> c \<noteq> CHR ''E'')"

lemma number_end_simps [simp]:
  "number_end []" "number_end (CHR '','' # r)" "number_end (CHR '']'' # r)" "number_end (CHR ''}'' # r)"
  by (simp_all add: number_end_def is_digit_def)

lemma takeWhile_digits:
  "list_all is_digit ds \<Longrightarrow> number_end r \<Longrightarrow> takeWhile is_digit (ds @ r) = ds"
  by (induction ds) (auto simp: number_end_def split: list.splits)

lemma number_end_tail: "number_end r \<Longrightarrow> json_frac r = Some [] \<and> json_exp r = Some []"
  by (auto simp: number_end_def json_frac_def json_exp_def prefix_def split: list.splits)

lemma digit_0: "digit 0 = CHR ''0''"
  by code_simp

lemma json_unsigned_digits:
  assumes "number_end r"
  shows "json_unsigned (dec_digits n @ r) = Some (dec_digits n, r)"
proof -
  have ds: "list_all is_digit (dec_digits n)" by (rule dec_digits_all)
  obtain d ds' where d: "dec_digits n = d # ds'"
    using dec_digits_ne [of n] by (cases "dec_digits n") auto
  have "json_int (dec_digits n @ r) = dec_digits n"
  proof (cases "n = 0")
    case True
    have "dec_digits 0 = ''0''" by (simp add: dec_digits.simps digit_0)
    with True show ?thesis by (simp add: json_int_def)
  next
    case False
    then have "d \<noteq> CHR ''0''" using dec_digits_lead [of n] d by (simp add: digit_0)
    then have "\<not> prefix ''0'' (dec_digits n @ r)" using d by (auto simp: prefix_def)
    then show ?thesis using takeWhile_digits [OF ds assms] by (simp add: json_int_def)
  qed
  with number_end_tail [OF assms] show ?thesis by (simp add: json_unsigned_def Let_def)
qed

lemma json_number_FormatInt:
  assumes "number_end r"
  shows "json_number (strconv_FormatInt i @ r) = Some (strconv_FormatInt i, r)"
proof -
  have "\<not> prefix ''-'' (dec_digits m @ r)" for m
    using dec_digits_no_sign(1) [of m] dec_digits_ne [of m] by (cases "dec_digits m") auto
  then show ?thesis
    using json_unsigned_digits [OF assms] by (simp add: json_number_def strconv_FormatInt_def)
qed

text \<open>The values the encoder is applied to: valid strings, and integers in canonical form.\<close>

primrec json_ok :: "json \<Rightarrow> bool" where
  "json_ok JNull = True"
| "json_ok (JBool b) = True"
| "json_ok (JNum n) = (\<exists>i. n = strconv_FormatInt i)"
| "json_ok (JStr s) = utf8_ValidString s"
| "json_ok (JArr vs) = list_all (\<lambda>b. b) (map json_ok vs)"
| "json_ok (JObj ms) =
     list_all (\<lambda>(k, b). utf8_ValidString k \<and> b) (map (map_prod (\<lambda>x. x) json_ok) ms)"

definition plain_start :: "string \<Rightarrow> bool" where
  "plain_start s \<longleftrightarrow> s \<noteq> [] \<and> hd s \<notin> {CHR 0x20, CHR 0x09, CHR 0x0A, CHR 0x0D, CHR '']'', CHR ''}''}"

lemma plain_start_append:
  "plain_start s \<Longrightarrow>
     skip_ws (s @ r) = s @ r \<and> \<not> prefix '']'' (s @ r) \<and> \<not> prefix ''}'' (s @ r)"
  by (cases s) (auto simp: plain_start_def)

lemma plain_start_join: "plain_start x \<Longrightarrow> plain_start (joinWith d (x # xs))"
  by (cases xs) (auto simp: plain_start_def)

lemma digit_start: "is_digit c \<Longrightarrow> c \<notin> {CHR 0x20, CHR 0x09, CHR 0x0A, CHR 0x0D, CHR '']'', CHR ''}'',
    CHR ''['', CHR ''{'', CHR 0x22, CHR ''t'', CHR ''f'', CHR ''n''}"
  by (auto simp: is_digit_def)

lemma FormatInt_Cons:
  obtains c r where "strconv_FormatInt i = c # r" "c = CHR ''-'' \<or> is_digit c"
proof (cases "i < 0")
  case False
  obtain c r where "dec_digits (nat i) = c # r"
    using dec_digits_ne [of "nat i"] by (cases "dec_digits (nat i)") auto
  with that [of c r] dec_digits_all [of "nat i"] False show thesis by (simp add: strconv_FormatInt_def)
qed (use that in \<open>auto simp: strconv_FormatInt_def\<close>)

lemma FormatInt_literal:
  assumes "number_end r"
  shows "json_value (Suc n) (strconv_FormatInt i @ r) = Some (JNum (strconv_FormatInt i), r)"
    and "plain_start (strconv_FormatInt i)"
proof -
  obtain c t where ct: "strconv_FormatInt i = c # t" "c = CHR ''-'' \<or> is_digit c"
    by (rule FormatInt_Cons)
  then have c: "c \<notin> {CHR 0x20, CHR 0x09, CHR 0x0A, CHR 0x0D, CHR '']'', CHR ''}'',
    CHR ''['', CHR ''{'', CHR 0x22, CHR ''t'', CHR ''f'', CHR ''n''}"
    using digit_start [of c] by (elim disjE) simp_all
  then show "plain_start (strconv_FormatInt i)" by (simp add: ct plain_start_def)
  have skip: "skip_ws (c # t @ r) = c # t @ r" using c by simp
  have "json_literal (c # t @ r) = map_option (apfst JNum) (json_number (c # t @ r))"
    using c by (auto simp: json_literal_def)
  also have "\<dots> = Some (JNum (c # t), r)"
    using json_number_FormatInt [OF assms, of i] by (simp only: ct) simp
  finally show "json_value (Suc n) (strconv_FormatInt i @ r) = Some (JNum (strconv_FormatInt i), r)"
    using c by (simp only: ct json_value.simps append_Cons skip list.case) simp
qed

lemma encode_start: "json_ok v \<Longrightarrow> plain_start (json_encode v)"
  using FormatInt_literal(2) [of "[]"] by (cases v) (auto simp: plain_start_def json_quote_def)

lemma json_elements_encode:
  assumes "vs \<noteq> []" "list_all json_ok vs"
    and ih: "\<And>v r n. v \<in> set vs \<Longrightarrow> json_ok v \<Longrightarrow> number_end r \<Longrightarrow> 2 * length (json_encode v) \<le> n \<Longrightarrow>
      json_value n (json_encode v @ r) = Some (v, r)"
    and "2 * length (joinWith CHR '','' (map json_encode vs)) < n"
  shows "json_elements n (joinWith CHR '','' (map json_encode vs) @ CHR '']'' # r) = Some (vs, r)"
  using assms
proof (induction vs arbitrary: n)
  case (Cons v vs)
  then obtain m where m: "n = Suc m" by (cases n) auto
  show ?case
  proof (cases vs)
    case Nil
    with Cons m have "json_value m (json_encode v @ CHR '']'' # r) = Some (v, CHR '']'' # r)" by simp
    with Nil m show ?thesis by simp
  next
    case (Cons w ws)
    let ?j = "joinWith CHR '','' (map json_encode vs)"
    have j: "joinWith CHR '','' (map json_encode (v # vs)) = json_encode v @ CHR '','' # ?j"
      using Cons by simp
    have "json_value m (json_encode v @ CHR '','' # ?j @ CHR '']'' # r) = Some (v, CHR '','' # ?j @ CHR '']'' # r)"
      using Cons.prems m j by simp
    moreover have "json_elements m (?j @ CHR '']'' # r) = Some (vs, r)"
      using Cons.IH [of m] Cons.prems m j Cons by simp
    ultimately show ?thesis using m j by simp
  qed
qed simp

lemma json_members_encode:
  assumes "ms \<noteq> []" "list_all (\<lambda>(k, v). utf8_ValidString k \<and> json_ok v) ms"
    and ih: "\<And>k v r n. (k, v) \<in> set ms \<Longrightarrow> json_ok v \<Longrightarrow> number_end r \<Longrightarrow>
      2 * length (json_encode v) \<le> n \<Longrightarrow> json_value n (json_encode v @ r) = Some (v, r)"
    and "2 * length (joinWith CHR '','' (map (\<lambda>(k, v). json_quote k @ CHR '':'' # json_encode v) ms)) < n"
  shows "json_members n (joinWith CHR '','' (map (\<lambda>(k, v). json_quote k @ CHR '':'' # json_encode v) ms)
    @ CHR ''}'' # r) = Some (ms, r)"
  using assms
proof (induction ms arbitrary: n)
  case (Cons m ms)
  obtain k v where kv: "m = (k, v)" by (cases m)
  obtain n' where n: "n = Suc n'" using Cons.prems by (cases n) auto
  have key: "json_unquote (json_escape k @ CHR 0x22 # X) = Some (k, X)" for X
    using Cons.prems(2) kv by (simp add: json_unquote_escape)
  have start: "skip_ws (json_encode v @ X) = json_encode v @ X" for X
    using Cons.prems(2) kv encode_start [of v] plain_start_append by simp
  let ?f = "\<lambda>(k, v). json_quote k @ CHR '':'' # json_encode v"
  show ?case
  proof (cases ms)
    case Nil
    with Cons.prems n kv have "json_value n' (json_encode v @ CHR ''}'' # r) = Some (v, CHR ''}'' # r)"
      by simp
    with Nil n kv key show ?thesis by (simp add: json_quote_def)
  next
    case (Cons w ws)
    let ?j = "joinWith CHR '','' (map ?f ms)"
    have j: "joinWith CHR '','' (map ?f (m # ms)) = json_quote k @ CHR '':'' # json_encode v @ CHR '','' # ?j"
      using Cons kv by simp
    have "json_value n' (json_encode v @ CHR '','' # ?j @ CHR ''}'' # r) =
        Some (v, CHR '','' # ?j @ CHR ''}'' # r)"
      by (rule Cons.prems(3) [of k]) (use Cons.prems(2,4) n j kv in simp_all)
    moreover have "json_members n' (?j @ CHR ''}'' # r) = Some (ms, r)"
      by (rule Cons.IH) (use Cons.prems n j Cons kv in auto)
    ultimately show ?thesis using n j key kv by (simp add: json_quote_def)
  qed
qed simp

lemma json_value_encode:
  "json_ok v \<Longrightarrow> number_end r \<Longrightarrow> 2 * length (json_encode v) \<le> n \<Longrightarrow>
     json_value n (json_encode v @ r) = Some (v, r)"
proof (induction v arbitrary: n r)
  case (JNum s)
  then obtain i where i: "s = strconv_FormatInt i" by auto
  have "s \<noteq> []" using FormatInt_literal(2) [of "[]" i] i by (auto simp: plain_start_def)
  then obtain m where "n = Suc m" using JNum.prems(3) by (cases n) auto
  then show ?case using FormatInt_literal(1) [OF JNum.prems(2)] i by simp
next
  case (JArr vs)
  obtain m where n: "n = Suc m" using JArr.prems(3) by (cases n) auto
  show ?case
  proof (cases "vs = []")
    case False
    have ok: "list_all json_ok vs" using JArr.prems(1) by (simp add: list_all_iff)
    have el: "json_elements m (joinWith CHR '','' (map json_encode vs) @ CHR '']'' # r) = Some (vs, r)"
      by (rule json_elements_encode [OF False ok])
         (use JArr.IH JArr.prems(3) n in simp_all)
    obtain w ws where vs: "vs = w # ws" using False by (cases vs) auto
    have "plain_start (joinWith CHR '','' (map json_encode vs))"
      using encode_start [of w] ok vs by (simp add: plain_start_join del: joinWith.simps)
    then show ?thesis using el n plain_start_append by simp
  qed (simp add: n)
next
  case (JObj ms)
  obtain m where n: "n = Suc m" using JObj.prems(3) by (cases n) auto
  let ?j = "joinWith CHR '','' (map (\<lambda>(k, v). json_quote k @ CHR '':'' # json_encode v) ms)"
  have "map (\<lambda>(k, t). json_quote k @ CHR '':'' # t) (map (map_prod (\<lambda>x. x) json_encode) ms) =
      map (\<lambda>(k, v). json_quote k @ CHR '':'' # json_encode v) ms"
    by (induction ms) auto
  then have enc: "json_encode (JObj ms) = CHR ''{'' # ?j @ ''}''"
    by (simp only: json_encode.simps)
  show ?case
  proof (cases "ms = []")
    case False
    have ok: "list_all (\<lambda>(k, v). utf8_ValidString k \<and> json_ok v) ms"
      using JObj.prems(1) by (auto simp: list_all_iff)
    have el: "json_members m (?j @ CHR ''}'' # r) = Some (ms, r)"
      by (rule json_members_encode [OF False ok])
         (use JObj.IH JObj.prems(3) n enc in \<open>auto simp: snds.simps\<close>)
    obtain k v ms' where ms: "ms = (k, v) # ms'" using False by (cases ms) auto
    have "plain_start (json_quote k @ CHR '':'' # json_encode v)"
      by (simp add: plain_start_def json_quote_def)
    then have "plain_start ?j" using ms by (simp add: plain_start_join del: joinWith.simps)
    then show ?thesis using el n plain_start_append [of ?j] by (simp add: enc del: json_encode.simps)
  qed (simp add: n)
next
  case JNull
  then show ?case by (cases n) (auto simp: json_literal_def)
next
  case (JBool b)
  then show ?case by (cases n; cases b) (auto simp: json_literal_def)
next
  case (JStr t)
  then show ?case by (cases n) (auto simp: json_quote_def json_unquote_escape)
qed

lemma json_decode_encode:
  assumes "json_ok v" "json_depth v \<le> maxNestingDepth"
  shows "json_decode_one (json_encode v) = Some v"
  using json_value_encode [OF assms(1), of "[]" "2 * length (json_encode v) + 1"] assms(2)
  by (simp add: json_decode_one_def)

section \<open>Decoding into Go values\<close>

text \<open>\<open>foldName\<close>: the smallest rune of each simple-folding orbit. Only the two non-ASCII runes below
  share an orbit with ASCII letters, so the others cannot match an ASCII field name and stay as
  they are.\<close>

definition fold_rune :: "nat \<Rightarrow> nat" where
  "fold_rune r =
     (if 97 \<le> r \<and> r \<le> 122 then r - 32 else if r = 0x17F then 83 else if r = 0x212A then 75 else r)"

definition fold_name :: "string \<Rightarrow> nat list" where
  "fold_name s = map fold_rune (case runes s of Some rs \<Rightarrow> rs | None \<Rightarrow> map of_char s)"

definition field_name :: "string list \<Rightarrow> string \<Rightarrow> string option" where
  "field_name names k =
     (if k \<in> set names then Some k else List.find (\<lambda>n. fold_name n = fold_name k) names)"

definition json_string :: "json \<Rightarrow> string \<Rightarrow> string option" where
  "json_string v old = (case v of JNull \<Rightarrow> Some old | JStr s \<Rightarrow> Some s | _ \<Rightarrow> None)"

definition json_integer :: "nat \<Rightarrow> json \<Rightarrow> int \<Rightarrow> int option" where
  "json_integer bits v old = (case v of JNull \<Rightarrow> Some old | JNum n \<Rightarrow> strconv_ParseInt n bits | _ \<Rightarrow> None)"

definition json_uinteger :: "nat \<Rightarrow> json \<Rightarrow> nat \<Rightarrow> nat option" where
  "json_uinteger bits v old =
     (case v of JNull \<Rightarrow> Some old | JNum n \<Rightarrow> strconv_ParseUint n bits | _ \<Rightarrow> None)"

text \<open>Struct members in order, unknown fields refused; \<open>null\<close> leaves the value as it is.\<close>

fun json_fields ::
    "string list \<Rightarrow> (string \<Rightarrow> json \<Rightarrow> 'r \<Rightarrow> 'r option) \<Rightarrow> (string \<times> json) list \<Rightarrow> 'r \<Rightarrow> 'r option" where
  "json_fields names put [] r = Some r"
| "json_fields names put ((k, v) # ms) r =
     (case field_name names k of
        None \<Rightarrow> None
      | Some f \<Rightarrow> (case put f v r of None \<Rightarrow> None | Some r' \<Rightarrow> json_fields names put ms r'))"

definition json_struct ::
    "string list \<Rightarrow> (string \<Rightarrow> json \<Rightarrow> 'r \<Rightarrow> 'r option) \<Rightarrow> 'r \<Rightarrow> json \<Rightarrow> 'r option" where
  "json_struct names put r v =
     (case v of JNull \<Rightarrow> Some r | JObj ms \<Rightarrow> json_fields names put ms r | _ \<Rightarrow> None)"

fun map_all :: "('a \<Rightarrow> 'b option) \<Rightarrow> 'a list \<Rightarrow> 'b list option" where
  "map_all f [] = Some []"
| "map_all f (x # xs) =
     (case f x of None \<Rightarrow> None | Some y \<Rightarrow> map_option (Cons y) (map_all f xs))"

definition json_slice :: "(json \<Rightarrow> 'r option) \<Rightarrow> json \<Rightarrow> 'r list option" where
  "json_slice elem v = (case v of JNull \<Rightarrow> Some [] | JArr vs \<Rightarrow> map_all elem vs | _ \<Rightarrow> None)"

lemma map_all_map: "(\<And>x. x \<in> set xs \<Longrightarrow> f (g x) = Some x) \<Longrightarrow> map_all f (map g xs) = Some xs"
  by (induction xs) auto

lemma map_all_Some_iff:
  "map_all f xs = Some ys \<longleftrightarrow> length xs = length ys \<and> (\<forall>i < length xs. f (xs ! i) = Some (ys ! i))"
proof (induction xs arbitrary: ys)
  case (Cons x xs)
  show ?case
    by (cases ys) (auto simp: Cons.IH nth_Cons less_Suc_eq_0_disj split: option.split nat.split)
qed auto

lemma field_name_exact [simp]: "k \<in> set names \<Longrightarrow> field_name names k = Some k"
  by (simp add: field_name_def)

lemma json_integer_FormatInt [simp]:
  "- (2 ^ (b - 1)) \<le> i \<Longrightarrow> i < 2 ^ (b - 1) \<Longrightarrow> json_integer b (JNum (strconv_FormatInt i)) old = Some i"
  by (simp add: json_integer_def ParseInt_FormatInt)

lemma FormatInt_nat: "strconv_FormatInt (int n) = dec_digits n"
  by (simp add: strconv_FormatInt_def)

lemma json_uinteger_digits [simp]:
  "n < 2 ^ b \<Longrightarrow> json_uinteger b (JNum (dec_digits n)) old = Some n"
  by (simp add: json_uinteger_def)

end
