(* ===== verification/Worker_Protocol.thy ===== *)
theory Worker_Protocol
  imports Go_Bytes Public_Paths Go_Json
begin

unbundle bit_operations_syntax

text \<open>
  The packet format between the public-files coordinator and its disposable storage workers
  (\<open>pkg/publicfiles/worker_protocol.go\<close>): the 24-byte frame header with its payload, the
  fixed-width payloads of the bootstrap, open and read messages, and the checks on decoded
  directory entries. Every encoder and decoder pair is an instance of the codec interfaces of
  the prelude.
\<close>

section \<open>Errors of the storage layer\<close>

datatype errno =
    ENOENT | ENOTDIR | ELOOP | EXDEV | EACCES | EPERM | EBADF | ENOSYS | EINVAL | ESRCH
  | EAGAIN | EMFILE | ENFILE | ENOMEM | ENOBUFS | ENODATA | EOPNOTSUPP | ERANGE | ETIMEDOUT | EUNKNOWN nat

datatype storage_error =
    errStorageCapacity
  | errStorageTimeout
  | errStorageProtocol
  | errEntryLimit
  | ErrUnsupported
  | errPublicRootFilesystemNotAllowed
  | Errno errno
  | OtherError string
  | errWorkerFailed
  | EOF
  | ErrUnexpectedEOF
  | ErrClosed
  | ErrDeadlineExceeded

section \<open>Constants\<close>

definition storageWorkerProtocolVersion :: u16 where "storageWorkerProtocolVersion = 1"
definition storageWorkerHeaderBytes :: nat where "storageWorkerHeaderBytes = 24"
definition storageWorkerMaxFramePayload :: nat where "storageWorkerMaxFramePayload = 60 * 1024"
definition storageWorkerMaxListPayload :: nat where "storageWorkerMaxListPayload = 2 * 1024 * 1024"
definition storageWorkerMaxReadBytes :: nat where
  "storageWorkerMaxReadBytes = storageWorkerMaxFramePayload"

definition storageWorkerMagic :: bytes where
  "storageWorkerMagic = bytes_of_string ''RCFW''"

definition storageWorkerBootstrapRequest :: u16 where "storageWorkerBootstrapRequest = 1"
definition storageWorkerBootstrapResponse :: u16 where "storageWorkerBootstrapResponse = 2"
definition storageWorkerListRequest :: u16 where "storageWorkerListRequest = 3"
definition storageWorkerListResponse :: u16 where "storageWorkerListResponse = 4"
definition storageWorkerOpenRequest :: u16 where "storageWorkerOpenRequest = 5"
definition storageWorkerOpenResponse :: u16 where "storageWorkerOpenResponse = 6"
definition storageWorkerReadRequest :: u16 where "storageWorkerReadRequest = 7"
definition storageWorkerReadResponse :: u16 where "storageWorkerReadResponse = 8"
definition storageWorkerCloseRequest :: u16 where "storageWorkerCloseRequest = 9"
definition storageWorkerCloseResponse :: u16 where "storageWorkerCloseResponse = 10"

definition storageWorkerStatusOK :: u16 where "storageWorkerStatusOK = 0"
definition storageWorkerStatusHidden :: u16 where "storageWorkerStatusHidden = 1"
definition storageWorkerStatusEntryLimit :: u16 where "storageWorkerStatusEntryLimit = 2"
definition storageWorkerStatusInvalid :: u16 where "storageWorkerStatusInvalid = 3"
definition storageWorkerStatusInternal :: u16 where "storageWorkerStatusInternal = 4"
definition storageWorkerStatusEOF :: u16 where "storageWorkerStatusEOF = 5"
definition storageWorkerStatusUnsupported :: u16 where "storageWorkerStatusUnsupported = 6"

definition storageWorkerFlagMore :: u16 where "storageWorkerFlagMore = 1"

lemmas opcode_defs =
  storageWorkerBootstrapRequest_def storageWorkerBootstrapResponse_def
  storageWorkerListRequest_def storageWorkerListResponse_def
  storageWorkerOpenRequest_def storageWorkerOpenResponse_def
  storageWorkerReadRequest_def storageWorkerReadResponse_def
  storageWorkerCloseRequest_def storageWorkerCloseResponse_def

lemmas status_defs =
  storageWorkerStatusOK_def storageWorkerStatusHidden_def storageWorkerStatusEntryLimit_def
  storageWorkerStatusInvalid_def storageWorkerStatusInternal_def storageWorkerStatusEOF_def
  storageWorkerStatusUnsupported_def

lemmas size_defs =
  storageWorkerHeaderBytes_def storageWorkerMaxFramePayload_def storageWorkerMaxListPayload_def
  storageWorkerMaxReadBytes_def

section \<open>Frames\<close>

record storageWorkerFrame =
  opcode :: u16
  requestID :: u64
  status :: u16
  flags :: u16
  payload :: bytes

definition validStorageWorkerFrameHeader :: "storageWorkerFrame \<Rightarrow> bool" where
  "validStorageWorkerFrameHeader frame \<longleftrightarrow>
     storageWorkerBootstrapRequest \<le> opcode frame \<and>
     opcode frame \<le> storageWorkerCloseResponse \<and>
     requestID frame \<noteq> 0 \<and>
     status frame \<le> storageWorkerStatusUnsupported \<and>
     flags frame AND NOT storageWorkerFlagMore = 0"

definition marshalStorageWorkerFrame :: "storageWorkerFrame \<Rightarrow> storage_error + bytes" where
  "marshalStorageWorkerFrame frame =
     (if \<not> validStorageWorkerFrameHeader frame
         \<or> storageWorkerMaxFramePayload < length (payload frame)
      then Inl errStorageProtocol
      else Inr (storageWorkerMagic
                @ PutUint16 storageWorkerProtocolVersion
                @ PutUint16 (opcode frame)
                @ PutUint64 (requestID frame)
                @ PutUint16 (status frame)
                @ PutUint16 (flags frame)
                @ PutUint32 (of_nat (length (payload frame)))
                @ payload frame))"

definition parseStorageWorkerFrame :: "bytes \<Rightarrow> storage_error + storageWorkerFrame" where
  "parseStorageWorkerFrame packet =
     (if length packet < storageWorkerHeaderBytes
         \<or> slice 0 4 packet \<noteq> storageWorkerMagic
         \<or> Uint16 (slice 4 6 packet) \<noteq> storageWorkerProtocolVersion
      then Inl errStorageProtocol
      else let payloadLength = unat (Uint32 (slice 20 24 packet)) in
        if storageWorkerMaxFramePayload < payloadLength
           \<or> length packet \<noteq> storageWorkerHeaderBytes + payloadLength
        then Inl errStorageProtocol
        else let frame =
          \<lparr> opcode = Uint16 (slice 6 8 packet),
            requestID = Uint64 (slice 8 16 packet),
            status = Uint16 (slice 16 18 packet),
            flags = Uint16 (slice 18 20 packet),
            payload = drop storageWorkerHeaderBytes packet \<rparr> in
          if \<not> validStorageWorkerFrameHeader frame then Inl errStorageProtocol
          else Inr frame)"

lemma length_storageWorkerMagic [simp]: "length storageWorkerMagic = 4"
  by (simp add: storageWorkerMagic_def)

lemma unat_of_nat_u32: "n < 2 ^ 32 \<Longrightarrow> unat (of_nat n :: u32) = n"
  by (simp add: unat_of_nat)

lemma drop_header [codec_simps]:
  "length a = 4 \<Longrightarrow> length b = 2 \<Longrightarrow> length c = 2 \<Longrightarrow> length d = 8 \<Longrightarrow> length e = 2 \<Longrightarrow>
   length f = 2 \<Longrightarrow> length g = 4 \<Longrightarrow>
   drop 24 (a @ b @ c @ d @ e @ f @ g @ p) = p"
  by simp

lemma parse_marshal_frame:
  assumes "marshalStorageWorkerFrame frame = Inr packet"
  shows "parseStorageWorkerFrame packet = Inr frame"
proof -
  from assms have v: "validStorageWorkerFrameHeader frame"
    and n: "length (payload frame) \<le> 61440"
    and p: "packet = storageWorkerMagic @ PutUint16 storageWorkerProtocolVersion
        @ PutUint16 (opcode frame) @ PutUint64 (requestID frame) @ PutUint16 (status frame)
        @ PutUint16 (flags frame) @ PutUint32 (of_nat (length (payload frame)))
        @ payload frame"
    by (auto simp: marshalStorageWorkerFrame_def size_defs split: if_splits)
  from n have "unat (of_nat (length (payload frame)) :: u32) = length (payload frame)"
    by (intro unat_of_nat_u32) simp
  then show ?thesis
    using v n by (simp add: p parseStorageWorkerFrame_def validStorageWorkerFrameHeader_def
        codec_simps size_defs Let_def)
qed

lemma frame_bytes_split:
  assumes "24 \<le> length packet"
  shows "slice 0 4 packet @ slice 4 6 packet @ slice 6 8 packet @ slice 8 16 packet
    @ slice 16 18 packet @ slice 18 20 packet @ slice 20 24 packet @ drop 24 packet = packet"
proof -
  have "drop 24 packet = slice 24 (length packet) packet"
    using assms by (simp add: slice_to_end)
  with assms show ?thesis by (simp add: slice_join slice_all)
qed

lemma marshal_parse_frame:
  assumes "parseStorageWorkerFrame packet = Inr frame"
  shows "marshalStorageWorkerFrame frame = Inr packet"
proof -
  let ?n = "unat (Uint32 (slice 20 24 packet))"
  from assms have len: "24 \<le> length packet" and m: "slice 0 4 packet = storageWorkerMagic"
    and v: "Uint16 (slice 4 6 packet) = storageWorkerProtocolVersion"
    and n: "?n \<le> storageWorkerMaxFramePayload" "length packet = 24 + ?n"
    and f: "frame = \<lparr> opcode = Uint16 (slice 6 8 packet), requestID = Uint64 (slice 8 16 packet),
        status = Uint16 (slice 16 18 packet), flags = Uint16 (slice 18 20 packet),
        payload = drop 24 packet \<rparr>"
    and h: "validStorageWorkerFrameHeader frame"
    unfolding parseStorageWorkerFrame_def Let_def if_Inl_eq_Inr storageWorkerHeaderBytes_def
    by (auto simp only: de_Morgan_disj not_less not_not sum.inject)
  have "PutUint16 storageWorkerProtocolVersion = slice 4 6 packet"
    using len by (simp add: PutUint_Uint flip: v)
  moreover have "(of_nat (length (payload frame)) :: u32) = Uint32 (slice 20 24 packet)"
    using n(2) f by simp
  ultimately have "storageWorkerMagic @ PutUint16 storageWorkerProtocolVersion
      @ PutUint16 (opcode frame) @ PutUint64 (requestID frame) @ PutUint16 (status frame)
      @ PutUint16 (flags frame) @ PutUint32 (of_nat (length (payload frame)))
      @ payload frame = packet"
    using len frame_bytes_split [OF len] by (simp add: f PutUint_Uint m)
  then show ?thesis using h n f by (simp add: marshalStorageWorkerFrame_def)
qed

interpretation frame_codec: checked_codec marshalStorageWorkerFrame parseStorageWorkerFrame
  by unfold_locales (fact parse_marshal_frame, fact marshal_parse_frame)

lemma marshal_frame_length:
  "marshalStorageWorkerFrame frame = Inr packet \<Longrightarrow>
     length packet = storageWorkerHeaderBytes + length (payload frame)"
  by (auto simp: marshalStorageWorkerFrame_def storageWorkerHeaderBytes_def split: if_splits)

section \<open>Fixed-width payloads\<close>

record storageBootstrapResponse =
  Verifier :: bytes
  MountID :: u64
  FilesystemType :: u32

definition marshalStorageBootstrapResponse :: "storageBootstrapResponse \<Rightarrow> bytes" where
  "marshalStorageBootstrapResponse response =
     Verifier response @ PutUint64 (MountID response) @ PutUint32 (FilesystemType response)"

definition parseStorageBootstrapResponse ::
    "bytes \<Rightarrow> storage_error + storageBootstrapResponse" where
  "parseStorageBootstrapResponse pl =
     (if length pl \<noteq> 44 then Inl errStorageProtocol
      else let response =
        \<lparr> Verifier = slice 0 32 pl,
          MountID = Uint64 (slice 32 40 pl),
          FilesystemType = Uint32 (slice 40 44 pl) \<rparr> in
        if MountID response = 0 then Inl errStorageProtocol else Inr response)"

record storageOpenResponse =
  Size :: i64
  ModTimeUnixNano :: i64

definition marshalStorageOpenResponse :: "storageOpenResponse \<Rightarrow> bytes" where
  "marshalStorageOpenResponse response =
     PutUint64 (Size response) @ PutUint64 (ModTimeUnixNano response)"

definition parseStorageOpenResponse :: "bytes \<Rightarrow> storage_error + storageOpenResponse" where
  "parseStorageOpenResponse pl =
     (if length pl \<noteq> 16 then Inl errStorageProtocol
      else let response =
        \<lparr> Size = Uint64 (slice 0 8 pl), ModTimeUnixNano = Uint64 (slice 8 16 pl) \<rparr> in
        if sint (Size response) < 0 then Inl errStorageProtocol else Inr response)"

record storageReadRequest =
  Offset :: i64
  Length :: u32

definition valid_read_request :: "storageReadRequest \<Rightarrow> bool" where
  "valid_read_request request \<longleftrightarrow>
     \<not> (sint (Offset request) < 0 \<or> Length request = 0
        \<or> storageWorkerMaxReadBytes < unat (Length request))"

definition marshalStorageReadRequest :: "storageReadRequest \<Rightarrow> storage_error + bytes" where
  "marshalStorageReadRequest request =
     (if \<not> valid_read_request request then Inl errStorageProtocol
      else Inr (PutUint64 (Offset request) @ PutUint32 (Length request)))"

definition parseStorageReadRequest :: "bytes \<Rightarrow> storage_error + storageReadRequest" where
  "parseStorageReadRequest pl =
     (if length pl \<noteq> 12 then Inl errStorageProtocol
      else let request =
        \<lparr> Offset = Uint64 (slice 0 8 pl), Length = Uint32 (slice 8 12 pl) \<rparr> in
        if \<not> valid_read_request request then Inl errStorageProtocol else Inr request)"

lemma slice_split2: "length xs = b \<Longrightarrow> a \<le> b \<Longrightarrow> slice 0 a xs @ slice a b xs = xs"
  by (simp add: slice_join slice_all)

lemma slice_split3:
  "length xs = c \<Longrightarrow> a \<le> b \<Longrightarrow> b \<le> c \<Longrightarrow> slice 0 a xs @ slice a b xs @ slice b c xs = xs"
  by (simp add: slice_join slice_all)

interpretation bootstrap_codec: total_codec
  marshalStorageBootstrapResponse parseStorageBootstrapResponse
  "\<lambda>r. length (Verifier r) = 32 \<and> MountID r \<noteq> 0" errStorageProtocol
proof unfold_locales
  fix r :: storageBootstrapResponse
  assume "length (Verifier r) = 32 \<and> MountID r \<noteq> 0"
  then show "parseStorageBootstrapResponse (marshalStorageBootstrapResponse r) = Inr r"
    by (simp add: parseStorageBootstrapResponse_def marshalStorageBootstrapResponse_def
        codec_simps)
next
  fix bs r
  assume "parseStorageBootstrapResponse bs = Inr r"
  then have "length bs = 44"
    and "r = \<lparr> Verifier = slice 0 32 bs, MountID = Uint64 (slice 32 40 bs),
               FilesystemType = Uint32 (slice 40 44 bs) \<rparr>"
    and "MountID r \<noteq> 0"
    unfolding parseStorageBootstrapResponse_def Let_def if_Inl_eq_Inr
    by (auto simp only: not_not sum.inject)
  then show "(length (Verifier r) = 32 \<and> MountID r \<noteq> 0) \<and> marshalStorageBootstrapResponse r = bs"
    by (simp add: marshalStorageBootstrapResponse_def PutUint_Uint slice_split3)
qed

interpretation open_codec: total_codec
  marshalStorageOpenResponse parseStorageOpenResponse "\<lambda>r. 0 \<le> sint (Size r)" errStorageProtocol
proof unfold_locales
  fix r :: storageOpenResponse
  assume "0 \<le> sint (Size r)"
  then show "parseStorageOpenResponse (marshalStorageOpenResponse r) = Inr r"
    by (simp add: parseStorageOpenResponse_def marshalStorageOpenResponse_def codec_simps)
next
  fix bs r
  assume "parseStorageOpenResponse bs = Inr r"
  then have "length bs = 16"
    and "r = \<lparr> Size = Uint64 (slice 0 8 bs), ModTimeUnixNano = Uint64 (slice 8 16 bs) \<rparr>"
    and "0 \<le> sint (Size r)"
    unfolding parseStorageOpenResponse_def Let_def if_Inl_eq_Inr
    by (auto simp only: not_not not_less sum.inject)
  then show "0 \<le> sint (Size r) \<and> marshalStorageOpenResponse r = bs"
    by (simp add: marshalStorageOpenResponse_def PutUint_Uint slice_split2)
qed

interpretation read_codec: checked_codec marshalStorageReadRequest parseStorageReadRequest
proof unfold_locales
  fix r :: storageReadRequest and bs
  assume "marshalStorageReadRequest r = Inr bs"
  then show "parseStorageReadRequest bs = Inr r"
    by (auto simp: parseStorageReadRequest_def marshalStorageReadRequest_def
        valid_read_request_def codec_simps split: if_splits)
next
  fix bs r
  assume "parseStorageReadRequest bs = Inr r"
  then have "length bs = 12"
    and "r = \<lparr> Offset = Uint64 (slice 0 8 bs), Length = Uint32 (slice 8 12 bs) \<rparr>"
    and "valid_read_request r"
    unfolding parseStorageReadRequest_def Let_def if_Inl_eq_Inr
    by (auto simp only: not_not sum.inject)
  then show "marshalStorageReadRequest r = Inr bs"
    by (simp add: marshalStorageReadRequest_def PutUint_Uint slice_split2)
qed

section \<open>Directory entries\<close>

record Entry =
  EntryName :: string
  EntryType :: string
  EntrySize :: i64

definition acceptable_entry :: "Entry \<Rightarrow> bool" where
  "acceptable_entry entry \<longleftrightarrow>
     \<not> (\<not> isSafeVisibleName (EntryName entry) \<or>
        EntryName entry = ''.'' \<or>
        EntryName entry = ''..'' \<or>
        prefix ''.'' (EntryName entry) \<or>
        CHR 0x5C \<in> set (EntryName entry) \<or>
        path_Base (EntryName entry) \<noteq> EntryName entry \<or>
        sint (EntrySize entry) < 0 \<or>
        (EntryType entry \<noteq> ''file'' \<and> EntryType entry \<noteq> ''directory'') \<or>
        (EntryType entry = ''directory'' \<and> EntrySize entry \<noteq> 0))"

definition entry_json :: "Entry \<Rightarrow> json" where
  "entry_json e =
     JObj [(''name'', JStr (EntryName e)), (''type'', JStr (EntryType e)),
           (''size'', JNum (strconv_FormatInt (sint (EntrySize e))))]"

definition put_entry :: "string \<Rightarrow> json \<Rightarrow> Entry \<Rightarrow> Entry option" where
  "put_entry f v e =
     (if f = ''name'' then map_option (\<lambda>s. e\<lparr>EntryName := s\<rparr>) (json_string v (EntryName e))
      else if f = ''type'' then map_option (\<lambda>s. e\<lparr>EntryType := s\<rparr>) (json_string v (EntryType e))
      else map_option (\<lambda>i. e\<lparr>EntrySize := word_of_int i\<rparr>) (json_integer 64 v (sint (EntrySize e))))"

definition entry_of_json :: "json \<Rightarrow> Entry option" where
  "entry_of_json =
     json_struct [''name'', ''type'', ''size''] put_entry
       \<lparr> EntryName = [], EntryType = [], EntrySize = 0 \<rparr>"

definition decodeStorageWorkerEntries :: "bytes \<Rightarrow> nat \<Rightarrow> storage_error + Entry list" where
  "decodeStorageWorkerEntries pl maxEntries =
     (if pl = [] \<or> storageWorkerMaxListPayload < length pl then Inl errStorageProtocol
      else case Option.bind (json_decode_one (string_of_bytes pl)) (json_slice entry_of_json) of
        None \<Rightarrow> Inl errStorageProtocol
      | Some entries \<Rightarrow>
          if maxEntries < length entries then Inl errStorageProtocol
          else if list_all acceptable_entry entries then Inr entries
          else Inl errStorageProtocol)"

text \<open>\<open>json.Marshal(entries)\<close> in the list worker. The slice comes from \<open>make\<close>, so an empty listing is
  \<open>[]\<close> and not \<open>null\<close>.\<close>

definition marshal_entries :: "Entry list \<Rightarrow> bytes" where
  "marshal_entries es = bytes_of_string (json_encode (JArr (map entry_json es)))"

lemma decode_entries_acceptable:
  "decodeStorageWorkerEntries pl n = Inr es \<Longrightarrow> e \<in> set es \<Longrightarrow> acceptable_entry e"
  by (auto simp: decodeStorageWorkerEntries_def list_all_iff split: if_splits option.splits)

lemma acceptable_entry_name:
  "acceptable_entry e \<Longrightarrow>
     isSafeVisibleName (EntryName e) \<and> \<not> prefix ''.'' (EntryName e) \<and>
     CHR 0x5C \<notin> set (EntryName e) \<and>
     (EntryName e = [slash] \<or> slash \<notin> set (EntryName e))"
  using path_Base_self [of "EntryName e"] by (simp add: acceptable_entry_def)

lemma public_path_join:
  assumes "d = [] \<or> public_path d" "isSafeVisibleName n" "\<not> prefix ''.'' n"
    "CHR 0x5C \<notin> set n" "slash \<notin> set n"
    "length (if d = [] then n else d @ slash # n) \<le> 4096"
  shows "public_path (if d = [] then n else d @ slash # n)"
proof (cases "d = []")
  case True
  have "n \<noteq> []" using assms(2) by (simp add: isSafeVisibleName_def)
  with True assms show ?thesis by (simp add: public_path_def splitOn_free)
next
  case False
  with assms show ?thesis
    by (simp add: public_path_def splitOn_free splitOn_beneath ball_Un)
qed


lemma sint_i64_range: "- (2 ^ 63) \<le> sint (w :: i64)" "sint (w :: i64) < 2 ^ 63"
  using sint_range_size [of w] by (simp_all add: word_size)

lemma entry_of_json_entry [simp]: "entry_of_json (entry_json e) = Some e"
  using sint_i64_range [of "EntrySize e"]
  by (simp add: entry_of_json_def entry_json_def json_struct_def put_entry_def json_string_def)

lemma entry_json_ok:
  "acceptable_entry e \<Longrightarrow> json_ok (entry_json e)"
proof -
  assume "acceptable_entry e"
  then have "isSafeVisibleName (EntryName e)" "EntryType e = ''file'' \<or> EntryType e = ''directory''"
    by (auto simp: acceptable_entry_def)
  then have "utf8_ValidString (EntryName e)" "utf8_ValidString (EntryType e)"
    by (auto simp: isSafeVisibleName_def utf8_ValidString_def runes_ascii split: option.splits)
  then show ?thesis by (auto simp: entry_json_def utf8_ValidString_def runes_ascii)
qed

lemma decode_marshal_entries:
  assumes "list_all acceptable_entry es" "length es \<le> n"
    "length (marshal_entries es) \<le> storageWorkerMaxListPayload"
  shows "decodeStorageWorkerEntries (marshal_entries es) n = Inr es"
proof -
  let ?v = "JArr (map entry_json es)"
  have "json_ok ?v" using assms(1) entry_json_ok by (simp add: list_all_iff)
  moreover have "json_depth ?v \<le> 2"
    by (induction es) (auto simp: entry_json_def)
  ultimately have "json_decode_one (json_encode ?v) = Some ?v"
    by (intro json_decode_encode) (simp_all add: maxNestingDepth_def)
  moreover have "json_slice entry_of_json ?v = Some es"
    by (simp add: json_slice_def map_all_map)
  moreover have "marshal_entries es \<noteq> []" by (simp add: marshal_entries_def bytes_of_string_def)
  ultimately show ?thesis
    using assms by (simp add: decodeStorageWorkerEntries_def marshal_entries_def)
qed

section \<open>JSON requests\<close>

record storageBootstrapRequest =
  RootPath :: string
  VerifierPath :: string

record storageListRequest =
  ListPath :: string
  MaxEntries :: int
  ListMountID :: u64
  ListFilesystemType :: u32

record storageOpenRequest =
  OpenPath :: string
  OpenMountID :: u64
  OpenFilesystemType :: u32

definition bootstrap_json :: "storageBootstrapRequest \<Rightarrow> json" where
  "bootstrap_json r =
     JObj [(''root_path'', JStr (RootPath r)), (''verifier_path'', JStr (VerifierPath r))]"

definition list_json :: "storageListRequest \<Rightarrow> json" where
  "list_json r =
     JObj [(''path'', JStr (ListPath r)), (''max_entries'', JNum (strconv_FormatInt (MaxEntries r))),
           (''mount_id'', JNum (strconv_FormatInt (uint (ListMountID r)))),
           (''filesystem_type'', JNum (strconv_FormatInt (uint (ListFilesystemType r))))]"

definition open_json :: "storageOpenRequest \<Rightarrow> json" where
  "open_json r =
     JObj [(''path'', JStr (OpenPath r)),
           (''mount_id'', JNum (strconv_FormatInt (uint (OpenMountID r)))),
           (''filesystem_type'', JNum (strconv_FormatInt (uint (OpenFilesystemType r))))]"

definition put_bootstrap :: "string \<Rightarrow> json \<Rightarrow> storageBootstrapRequest \<Rightarrow> storageBootstrapRequest option" where
  "put_bootstrap f v r =
     (if f = ''root_path'' then map_option (\<lambda>s. r\<lparr>RootPath := s\<rparr>) (json_string v (RootPath r))
      else map_option (\<lambda>s. r\<lparr>VerifierPath := s\<rparr>) (json_string v (VerifierPath r)))"

definition put_list :: "string \<Rightarrow> json \<Rightarrow> storageListRequest \<Rightarrow> storageListRequest option" where
  "put_list f v r =
     (if f = ''path'' then map_option (\<lambda>s. r\<lparr>ListPath := s\<rparr>) (json_string v (ListPath r))
      else if f = ''max_entries''
      then map_option (\<lambda>i. r\<lparr>MaxEntries := i\<rparr>) (json_integer 64 v (MaxEntries r))
      else if f = ''mount_id''
      then map_option (\<lambda>n. r\<lparr>ListMountID := of_nat n\<rparr>) (json_uinteger 64 v (unat (ListMountID r)))
      else map_option (\<lambda>n. r\<lparr>ListFilesystemType := of_nat n\<rparr>)
             (json_uinteger 32 v (unat (ListFilesystemType r))))"

definition put_open :: "string \<Rightarrow> json \<Rightarrow> storageOpenRequest \<Rightarrow> storageOpenRequest option" where
  "put_open f v r =
     (if f = ''path'' then map_option (\<lambda>s. r\<lparr>OpenPath := s\<rparr>) (json_string v (OpenPath r))
      else if f = ''mount_id''
      then map_option (\<lambda>n. r\<lparr>OpenMountID := of_nat n\<rparr>) (json_uinteger 64 v (unat (OpenMountID r)))
      else map_option (\<lambda>n. r\<lparr>OpenFilesystemType := of_nat n\<rparr>)
             (json_uinteger 32 v (unat (OpenFilesystemType r))))"

definition bootstrap_of_json :: "json \<Rightarrow> storageBootstrapRequest option" where
  "bootstrap_of_json =
     json_struct [''root_path'', ''verifier_path''] put_bootstrap \<lparr> RootPath = [], VerifierPath = [] \<rparr>"

definition list_of_json :: "json \<Rightarrow> storageListRequest option" where
  "list_of_json =
     json_struct [''path'', ''max_entries'', ''mount_id'', ''filesystem_type''] put_list
       \<lparr> ListPath = [], MaxEntries = 0, ListMountID = 0, ListFilesystemType = 0 \<rparr>"

definition open_of_json :: "json \<Rightarrow> storageOpenRequest option" where
  "open_of_json =
     json_struct [''path'', ''mount_id'', ''filesystem_type''] put_open
       \<lparr> OpenPath = [], OpenMountID = 0, OpenFilesystemType = 0 \<rparr>"

definition marshalStorageWorkerJSON :: "json \<Rightarrow> storage_error + bytes" where
  "marshalStorageWorkerJSON value =
     (let pl = bytes_of_string (json_encode value) in
      if pl = [] \<or> storageWorkerMaxFramePayload < length pl then Inl errStorageProtocol else Inr pl)"

definition unmarshalStorageWorkerJSON :: "(json \<Rightarrow> 'r option) \<Rightarrow> bytes \<Rightarrow> storage_error + 'r" where
  "unmarshalStorageWorkerJSON decode pl =
     (if pl = [] \<or> storageWorkerMaxFramePayload < length pl then Inl errStorageProtocol
      else case Option.bind (json_decode_one (string_of_bytes pl)) decode of
        None \<Rightarrow> Inl errStorageProtocol
      | Some r \<Rightarrow> Inr r)"

text \<open>The request codecs share one shape: a value is printed as JSON and read back through its
  struct decoder.\<close>

locale json_request =
  fixes to_json :: "'r \<Rightarrow> json"
    and of_json :: "json \<Rightarrow> 'r option"
    and ok :: "'r \<Rightarrow> bool"
  assumes of_to: "ok r \<Longrightarrow> of_json (to_json r) = Some r"
    and to_ok: "ok r \<Longrightarrow> json_ok (to_json r)"
    and to_flat: "json_depth (to_json r) \<le> 1"
begin

lemma unmarshal_marshal:
  assumes "ok r" "marshalStorageWorkerJSON (to_json r) = Inr pl"
  shows "unmarshalStorageWorkerJSON of_json pl = Inr r"
proof -
  have "json_decode_one (json_encode (to_json r)) = Some (to_json r)"
    using to_ok [OF assms(1)] to_flat [of r] by (intro json_decode_encode) (simp_all add: maxNestingDepth_def)
  then show ?thesis
    using assms(2) of_to [OF assms(1)]
    by (auto simp: marshalStorageWorkerJSON_def unmarshalStorageWorkerJSON_def Let_def split: if_splits)
qed

end

lemma ascii_key [simp]: "(\<forall>c \<in> set k. of_char c < (0x80 :: nat)) \<Longrightarrow> utf8_ValidString k"
  by (simp add: utf8_ValidString_def runes_ascii)

lemma json_uinteger_uint [simp]:
  fixes w :: "'a :: len word"
  assumes "b = LENGTH('a)"
  shows "json_uinteger b (JNum (strconv_FormatInt (uint w))) old = Some (unat w)"
proof -
  have "strconv_FormatInt (uint w) = dec_digits (unat w)"
    using FormatInt_nat [of "unat w"] by simp
  moreover have "unat w < 2 ^ b" using unsigned_less [of w, where ?'a = nat] assms by simp
  ultimately show ?thesis by simp
qed

interpretation bootstrap_request: json_request bootstrap_json bootstrap_of_json
  "\<lambda>r. utf8_ValidString (RootPath r) \<and> utf8_ValidString (VerifierPath r)"
  by unfold_locales
     (auto simp: bootstrap_json_def bootstrap_of_json_def json_struct_def put_bootstrap_def json_string_def)

interpretation list_request: json_request list_json list_of_json
  "\<lambda>r. utf8_ValidString (ListPath r) \<and> - (2 ^ 63) \<le> MaxEntries r \<and> MaxEntries r < 2 ^ 63"
  by unfold_locales
     (auto simp: list_json_def list_of_json_def json_struct_def put_list_def json_string_def)

interpretation open_request: json_request open_json open_of_json "\<lambda>r. utf8_ValidString (OpenPath r)"
  by unfold_locales
     (auto simp: open_json_def open_of_json_def json_struct_def put_open_def json_string_def)

subsection \<open>Sizes\<close>

lemma json_quote_length: "length (json_quote s) \<le> 6 * length s + 2"
  using json_escape_length [of s] by (simp add: json_quote_def)

lemma FormatInt_length:
  assumes "\<bar>i\<bar> < 10 ^ k" "0 < k"
  shows "length (strconv_FormatInt i) \<le> k + 1"
  using dec_digits_length [of "nat \<bar>i\<bar>" k] assms
  by (auto simp: strconv_FormatInt_def nat_less_iff)

lemma length_joinWith_le:
  "(\<And>x. x \<in> set xs \<Longrightarrow> length x \<le> k) \<Longrightarrow> length (joinWith d xs) \<le> length xs * (k + 1)"
proof (induction xs)
  case (Cons x xs)
  then have "length x \<le> k" "length (joinWith d xs) \<le> length xs * (k + 1)" by auto
  then show ?case by (cases xs) auto
qed simp

lemma uint_length:
  fixes w :: "'a :: len word"
  assumes "LENGTH('a) \<le> 64"
  shows "length (strconv_FormatInt (uint w)) \<le> 21"
proof -
  have "uint w < 2 ^ LENGTH('a)" by (rule unsigned_less)
  also have "\<dots> \<le> (2 ^ 64 :: int)" using assms by (rule power_increasing) simp
  finally have "\<bar>uint w\<bar> < 10 ^ 20" by simp
  then show ?thesis using FormatInt_length [of "uint w" 20] by simp
qed

lemma ascii_escape: "list_all html_safe s \<Longrightarrow> json_escape s = s"
  by (induction s) (auto simp: html_safe_def)

lemma entry_json_length:
  assumes "EntryType e = ''file'' \<or> EntryType e = ''directory''"
  shows "length (json_encode (entry_json e)) \<le> 6 * length (EntryName e) + 64"
proof -
  have "json_escape ''name'' = ''name''" "json_escape ''type'' = ''type''" "json_escape ''size'' = ''size''"
    "json_escape ''file'' = ''file''" "json_escape ''directory'' = ''directory''"
    by (simp_all add: ascii_escape html_safe_def)
  moreover have "length (strconv_FormatInt (sint (EntrySize e))) \<le> 21"
    using FormatInt_length [of "sint (EntrySize e)" 20] sint_i64_range [of "EntrySize e"] by simp
  ultimately show ?thesis
    using assms json_escape_length [of "EntryName e"]
    by (auto simp: entry_json_def json_quote_def)
qed

lemma marshal_entries_length:
  assumes "\<forall>e \<in> set es. acceptable_entry e \<and> length (EntryName e) \<le> 255" "length es \<le> 1000"
  shows "length (marshal_entries es) \<le> storageWorkerMaxListPayload"
proof -
  have "length x \<le> 1594" if x: "x \<in> set (map json_encode (map entry_json es))" for x
  proof -
    from x obtain e where e: "e \<in> set es" "x = json_encode (entry_json e)" by auto
    then have "EntryType e = ''file'' \<or> EntryType e = ''directory''" "length (EntryName e) \<le> 255"
      using assms(1) by (auto simp: acceptable_entry_def)
    then show ?thesis using entry_json_length [of e] e(2) by simp
  qed
  then have "length (joinWith CHR '','' (map json_encode (map entry_json es))) \<le>
      length (map json_encode (map entry_json es)) * (1594 + 1)"
    by (rule length_joinWith_le)
  then show ?thesis
    using assms(2) by (simp add: marshal_entries_def storageWorkerMaxListPayload_def)
qed

lemma list_json_length:
  assumes "\<bar>MaxEntries r\<bar> < 10 ^ 19"
  shows "length (json_encode (list_json r)) \<le> 6 * length (ListPath r) + 150"
proof -
  have "json_escape ''path'' = ''path''" "json_escape ''max_entries'' = ''max_entries''"
    "json_escape ''mount_id'' = ''mount_id''" "json_escape ''filesystem_type'' = ''filesystem_type''"
    by (simp_all add: ascii_escape html_safe_def)
  then show ?thesis
    using json_escape_length [of "ListPath r"] FormatInt_length [OF assms]
      uint_length [of "ListMountID r"] uint_length [of "ListFilesystemType r"]
    by (simp add: list_json_def json_quote_def)
qed

lemma open_json_length: "length (json_encode (open_json r)) \<le> 6 * length (OpenPath r) + 150"
proof -
  have "json_escape ''path'' = ''path''" "json_escape ''mount_id'' = ''mount_id''"
    "json_escape ''filesystem_type'' = ''filesystem_type''"
    by (simp_all add: ascii_escape html_safe_def)
  then show ?thesis
    using json_escape_length [of "OpenPath r"] uint_length [of "OpenMountID r"]
      uint_length [of "OpenFilesystemType r"]
    by (simp add: open_json_def json_quote_def)
qed

lemma public_path_valid: "public_path v \<Longrightarrow> utf8_ValidString v"
  using utf8_ValidString_joinWith [of "splitOn slash v" slash] joinWith_splitOn [of slash v]
  by (auto simp: public_path_def isSafeVisibleName_def utf8_ValidString_def split: option.splits)

lemma marshal_json_ok:
  "length (json_encode v) \<le> storageWorkerMaxFramePayload \<Longrightarrow> json_encode v \<noteq> [] \<Longrightarrow>
     marshalStorageWorkerJSON v = Inr (bytes_of_string (json_encode v))"
  by (auto simp: marshalStorageWorkerJSON_def bytes_of_string_def Let_def)

lemma list_request_crosses:
  assumes "validateRelativePath v allowRoot = Inr p" "ListPath r = p"
    and "- (2 ^ 63) \<le> MaxEntries r" "MaxEntries r < 2 ^ 63"
  obtains pl where "marshalStorageWorkerJSON (list_json r) = Inr pl" "unmarshalStorageWorkerJSON list_of_json pl = Inr r"
proof -
  have p: "utf8_ValidString p" "length p \<le> 4096"
    using assms(1) public_path_valid
    by (auto simp: validateRelativePath_iff public_path_def utf8_ValidString_def runes_def)
  have "\<bar>MaxEntries r\<bar> < 10 ^ 19" using assms(3,4) by (simp add: abs_less_iff)
  then have "length (json_encode (list_json r)) \<le> storageWorkerMaxFramePayload"
    using list_json_length [of r] p(2) assms(2) by (simp add: storageWorkerMaxFramePayload_def)
  moreover have "json_encode (list_json r) \<noteq> []" by (simp add: list_json_def)
  ultimately have m: "marshalStorageWorkerJSON (list_json r) = Inr (bytes_of_string (json_encode (list_json r)))"
    by (rule marshal_json_ok)
  moreover have "unmarshalStorageWorkerJSON list_of_json (bytes_of_string (json_encode (list_json r))) = Inr r"
    by (rule list_request.unmarshal_marshal [OF _ m]) (use assms p in simp)
  ultimately show thesis by (rule that)
qed

lemma open_request_crosses:
  assumes "validateRelativePath v allowRoot = Inr p" "OpenPath r = p"
  obtains pl where "marshalStorageWorkerJSON (open_json r) = Inr pl" "unmarshalStorageWorkerJSON open_of_json pl = Inr r"
proof -
  have p: "utf8_ValidString p" "length p \<le> 4096"
    using assms(1) public_path_valid
    by (auto simp: validateRelativePath_iff public_path_def utf8_ValidString_def runes_def)
  have "length (json_encode (open_json r)) \<le> storageWorkerMaxFramePayload"
    using open_json_length [of r] p(2) assms(2) by (simp add: storageWorkerMaxFramePayload_def)
  moreover have "json_encode (open_json r) \<noteq> []" by (simp add: open_json_def)
  ultimately have m: "marshalStorageWorkerJSON (open_json r) = Inr (bytes_of_string (json_encode (open_json r)))"
    by (rule marshal_json_ok)
  moreover have "unmarshalStorageWorkerJSON open_of_json (bytes_of_string (json_encode (open_json r))) = Inr r"
    by (rule open_request.unmarshal_marshal [OF _ m]) (use assms p in simp)
  ultimately show thesis by (rule that)
qed

section \<open>Properties of the wire format\<close>

text \<open>C6. The frame codec is a bijection between the valid frames and the accepted packets: a packet
  parses to a frame exactly when that frame marshals to the packet, so no packet has two readings
  and no valid frame is lost.\<close>

theorem frame_codec_bijective:
  "parseStorageWorkerFrame packet = Inr frame \<longleftrightarrow> marshalStorageWorkerFrame frame = Inr packet"
  by (rule frame_codec.dec_iff_enc)

text \<open>C7. The three fixed-width payloads are strict: each parser accepts a payload exactly when it is
  the encoding of the value it returns and that value satisfies the field checks.\<close>

theorem payload_codecs_exact:
  "(parseStorageReadRequest bs = Inr r \<longleftrightarrow> marshalStorageReadRequest r = Inr bs) \<and>
   (parseStorageOpenResponse bs = Inr o' \<longleftrightarrow>
      0 \<le> sint (Size o') \<and> marshalStorageOpenResponse o' = bs) \<and>
   (parseStorageBootstrapResponse bs = Inr b \<longleftrightarrow>
      (length (Verifier b) = 32 \<and> MountID b \<noteq> 0) \<and> marshalStorageBootstrapResponse b = bs)"
  using read_codec.dec_iff_enc open_codec.get_iff bootstrap_codec.get_iff by blast

text \<open>Every path the portal accepts crosses to the worker: the list and open requests for it fit a
  frame whatever its bytes escape to, and the worker's strict decoder reads back exactly the
  request that was sent.\<close>

lemma requests_cross_the_wire:
  assumes "validateRelativePath v allowRoot = Inr p" "ListPath r = p" "OpenPath o' = p"
    and "- (2 ^ 63) \<le> MaxEntries r" "MaxEntries r < 2 ^ 63"
  shows "(\<exists>pl. marshalStorageWorkerJSON (list_json r) = Inr pl \<and>
      unmarshalStorageWorkerJSON list_of_json pl = Inr r) \<and>
    (\<exists>pl. marshalStorageWorkerJSON (open_json o') = Inr pl \<and>
      unmarshalStorageWorkerJSON open_of_json pl = Inr o')"
  using list_request_crosses [OF assms(1, 2, 4, 5)] open_request_crosses [OF assms(1, 3)] by metis

text \<open>A legal directory always fits the listing protocol: 1000 entries with names of at most 255
  bytes stay within the 2 MiB payload bound even when every byte needs a six-byte escape, and the
  parent decodes exactly the entries the worker listed.\<close>

lemma listing_fits_and_reads_back:
  assumes "\<forall>e \<in> set es. acceptable_entry e \<and> length (EntryName e) \<le> 255"
    and "length es \<le> n" "n \<le> 1000"
  shows "length (marshal_entries es) \<le> storageWorkerMaxListPayload \<and>
    decodeStorageWorkerEntries (marshal_entries es) n = Inr es"
proof -
  have "length (marshal_entries es) \<le> storageWorkerMaxListPayload"
    by (rule marshal_entries_length) (use assms in auto)
  then show ?thesis
    using assms by (auto intro!: decode_marshal_entries simp: list_all_iff)
qed

lemma demo_entries:
  "acceptable_entry \<lparr> EntryName = ''a<b'', EntryType = ''file'', EntrySize = 5 \<rparr>"
  "acceptable_entry \<lparr> EntryName = ''docs'', EntryType = ''directory'', EntrySize = 0 \<rparr>"
  by (simp_all add: acceptable_entry_def isSafeVisibleName_def text_eval path_Base_def)

text \<open>C27. What the parent accepts from a worker, whatever the worker sends: at most the requested number of
  entries, each with a visible name that does not start with a dot, holds no backslash and holds no slash,
  with one exception the base-name comparison lets through, the name consisting of a single slash; a
  non-negative size, zero for a directory; and one of the two types. Joined to an accepted directory, every
  other name gives an accepted path again as long as the result has at most 4096 bytes.\<close>

theorem decoded_entries_are_safe:
  assumes "decodeStorageWorkerEntries pl n = Inr es" "e \<in> set es"
  shows "length es \<le> n \<and> isSafeVisibleName (EntryName e) \<and> \<not> prefix ''.'' (EntryName e) \<and>
    CHR 0x5C \<notin> set (EntryName e) \<and> (slash \<notin> set (EntryName e) \<or> EntryName e = [slash]) \<and>
    (EntryType e = ''file'' \<and> 0 \<le> sint (EntrySize e) \<or> EntryType e = ''directory'' \<and> EntrySize e = 0) \<and>
    (\<forall>d v. validateRelativePath d True = Inr d \<and> v = (if d = [] then EntryName e else d @ slash # EntryName e) \<and>
       length v \<le> 4096 \<and> EntryName e \<noteq> [slash] \<longrightarrow> validateRelativePath v False = Inr v)"
proof -
  have e: "acceptable_entry e" by (rule decode_entries_acceptable [OF assms])
  note name = acceptable_entry_name [OF e]
  have "length es \<le> n"
    using assms(1) by (auto simp: decodeStorageWorkerEntries_def split: if_splits option.splits)
  moreover have "public_path (if d = [] then EntryName e else d @ slash # EntryName e)"
    if "EntryName e \<noteq> [slash]" "validateRelativePath d True = Inr d"
      "length (if d = [] then EntryName e else d @ slash # EntryName e) \<le> 4096" for d
    using that name by (intro public_path_join) (auto simp: validateRelativePath_iff)
  ultimately show ?thesis
    using name e by (auto simp: validateRelativePath_iff acceptable_entry_def)
qed

theorem decoded_entries_are_safe_witness:
  "decodeStorageWorkerEntries
     (marshal_entries [\<lparr> EntryName = ''/'', EntryType = ''directory'', EntrySize = 0 \<rparr>]) 1 =
     Inr [\<lparr> EntryName = ''/'', EntryType = ''directory'', EntrySize = 0 \<rparr>] \<and>
   (\<exists>pl. decodeStorageWorkerEntries pl 1 =
       Inr [\<lparr> EntryName = ''docs'', EntryType = ''directory'', EntrySize = 0 \<rparr>] \<and>
     validateRelativePath ''a/docs'' False = Inr ''a/docs'')"
proof -
  let ?r = "\<lparr> EntryName = ''/'', EntryType = ''directory'', EntrySize = 0 \<rparr>"
  let ?d = "\<lparr> EntryName = ''docs'', EntryType = ''directory'', EntrySize = 0 \<rparr>"
  have "acceptable_entry ?r"
    by (simp add: acceptable_entry_def isSafeVisibleName_def text_eval path_Base_def)
  then have r: "decodeStorageWorkerEntries (marshal_entries [?r]) 1 = Inr [?r]"
    by (intro decode_marshal_entries marshal_entries_length) simp_all
  have d: "decodeStorageWorkerEntries (marshal_entries [?d]) 1 = Inr [?d]"
    using demo_entries by (intro decode_marshal_entries marshal_entries_length) simp_all
  have a: "validateRelativePath ''a'' True = Inr ''a''"
    by (simp add: validateRelativePath_def forbidden_component_def isSafeVisibleName_def text_eval)
  have "slash \<notin> set (EntryName ?r) \<or> EntryName ?r = [slash]" using decoded_entries_are_safe [OF r, of ?r] by simp
  moreover have "validateRelativePath ''a/docs'' False = Inr ''a/docs''"
    using decoded_entries_are_safe [OF d, of ?d] a by force
  ultimately show ?thesis using r d by blast
qed

end
