(* ===== verification/Worker_Pool.thy ===== *)
theory Worker_Pool
  imports Worker_Protocol
begin

text \<open>
  The admission control and life cycle of the disposable storage workers
  (\<open>pkg/publicfiles/worker_parent_linux.go\<close>: \<open>startRequestWorker\<close>, \<open>startIsolatedStorageProcess\<close>,
  \<open>reap\<close>, \<open>abort\<close>, \<open>release\<close>, \<open>close\<close>) as an interleaving of goroutine steps.

  Every request \<open>i\<close> owns one worker record. Its goroutines are the starter (the request itself),
  the reaper (\<open>go process.reap()\<close>) and whoever first enters \<open>abort\<close>; \<open>release\<close> is a sub-machine
  because two of them may call it (\<open>sync.Once\<close> lets the first one run it and makes the other
  wait). A step is one event; an event is a partial function on the pool state that is defined
  exactly where the goroutine can take that step.

  Granularity. The first critical section of \<open>startRequestWorker\<close> is split into the loads it
  performs and the channel send, the second one into the load and the insertion, because
  \<open>quarantine\<close>, \<open>signalFailure\<close> and the slot channel are touched by other goroutines without
  \<open>manager.mu\<close>; \<open>mu\<close> records the starter that holds the mutex meanwhile. The other critical sections of \<open>manager.mu\<close> are single steps guarded by a
  free mutex. The critical section of \<open>process.mu\<close> in \<open>abort\<close> is two steps (mark, signal) and the
  one in \<open>reap\<close> is a single step that excludes the two.
\<close>

section \<open>State\<close>

datatype starter_pc =
    SIdle            \<comment> \<open>not yet in \<open>startRequestWorker\<close>\<close>
  | SLocked          \<comment> \<open>holds \<open>manager.mu\<close>\<close>
  | SSignalChecked   \<comment> \<open>saw the manager open and no signal failure\<close>
  | SAdmitted        \<comment> \<open>saw the quarantine below its limit\<close>
  | SSlotTaken       \<comment> \<open>sent into the slot channel, still holds \<open>manager.mu\<close>\<close>
  | SStarting        \<comment> \<open>in \<open>startIsolatedStorageProcess\<close>\<close>
  | SStartFailing    \<comment> \<open>child started but unusable: killed and waited for in place\<close>
  | SStarted         \<comment> \<open>child started\<close>
  | SRegistering     \<comment> \<open>saw the manager open again, holds \<open>manager.mu\<close>\<close>
  | SRejected        \<comment> \<open>manager closed meanwhile: reaped and aborted\<close>
  | SRegistered      \<comment> \<open>in \<open>manager.workers\<close>, returned to the caller\<close>
  | SRefused         \<comment> \<open>returned an error, owns nothing\<close>

datatype child_state = NoChild | Running | Exited | Reaped
datatype reaper_pc = RNone | RWaiting | RWaited | RMarked | RUncounted | RReleasing | RDone
datatype aborter_pc = ANone | AEntered | AQuarantined | ASignalled | AReleasing | ADone
datatype release_state = ReleaseNone | ReleaseBegun | ReleaseDeleted | ReleaseDone
datatype signal_result = SignalOK | SignalESRCH | SignalError

record worker =
  spc :: starter_pc
  child :: child_state
  rpc :: reaper_pc
  apc :: aborter_pc
  finished :: bool
  quarantined :: bool
  pidfd_open :: bool
  was_quarantined :: bool   \<comment> \<open>local of \<open>reap\<close>\<close>
  do_release :: bool        \<comment> \<open>local of \<open>abort\<close>\<close>
  release_st :: release_state

record pool =
  capacity :: nat
  quarantineAdmissionLimit :: nat
  mu :: "nat option"
  closed :: bool
  root_open :: bool
  slots :: nat
  quarantine :: int
  signalFailure :: bool
  workers :: "nat set"
  to_abort :: "nat set"     \<comment> \<open>the snapshot \<open>close\<close> aborts\<close>
  proc :: "nat \<Rightarrow> worker"

definition DefaultMaxActiveStorageWorkers :: nat where "DefaultMaxActiveStorageWorkers = 8"
definition DefaultQuarantineAdmissionLimit :: nat where "DefaultQuarantineAdmissionLimit = 4"

definition idle_worker :: worker where
  "idle_worker =
     \<lparr> spc = SIdle, child = NoChild, rpc = RNone, apc = ANone, finished = False,
       quarantined = False, pidfd_open = False, was_quarantined = False, do_release = False,
       release_st = ReleaseNone \<rparr>"

text \<open>\<open>newIsolatedStorageWith\<close>: the parameter checks and the manager it returns once the
  bootstrap worker has delivered the root descriptor.\<close>

definition newIsolatedStorageWith :: "int \<Rightarrow> int \<Rightarrow> storage_error + pool" where
  "newIsolatedStorageWith maxWorkers limit =
     (if maxWorkers < 1 \<or> int DefaultMaxActiveStorageWorkers < maxWorkers
         \<or> limit < 1 \<or> int DefaultQuarantineAdmissionLimit < limit
      then Inl errStorageProtocol
      else Inr \<lparr> capacity = nat maxWorkers, quarantineAdmissionLimit = nat limit, mu = None,
                 closed = False, root_open = True, slots = 0, quarantine = 0,
                 signalFailure = False, workers = {}, to_abort = {},
                 proc = (\<lambda>_. idle_worker) \<rparr>)"

abbreviation upd_proc :: "pool \<Rightarrow> nat \<Rightarrow> worker \<Rightarrow> pool" where
  "upd_proc s i w \<equiv> s\<lparr>proc := (proc s)(i := w)\<rparr>"

section \<open>Steps\<close>

subsection \<open>The starter: \<open>startRequestWorker\<close>\<close>

definition start_lock :: "nat \<Rightarrow> pool \<Rightarrow> pool option" where
  "start_lock i s =
     (let w = proc s i in
      if spc w = SIdle \<and> mu s = None
      then Some ((upd_proc s i (w\<lparr>spc := SLocked\<rparr>))\<lparr>mu := Some i\<rparr>) else None)"

definition start_check_signal :: "nat \<Rightarrow> pool \<Rightarrow> pool option" where
  "start_check_signal i s =
     (let w = proc s i in
      if spc w \<noteq> SLocked then None
      else if closed s \<or> \<not> root_open s \<or> signalFailure s
      then Some ((upd_proc s i (w\<lparr>spc := SRefused\<rparr>))\<lparr>mu := None\<rparr>)
      else Some (upd_proc s i (w\<lparr>spc := SSignalChecked\<rparr>)))"

definition start_check_quarantine :: "nat \<Rightarrow> pool \<Rightarrow> pool option" where
  "start_check_quarantine i s =
     (let w = proc s i in
      if spc w \<noteq> SSignalChecked then None
      else if int (quarantineAdmissionLimit s) \<le> quarantine s
      then Some ((upd_proc s i (w\<lparr>spc := SRefused\<rparr>))\<lparr>mu := None\<rparr>)
      else Some (upd_proc s i (w\<lparr>spc := SAdmitted\<rparr>)))"

definition start_take_slot :: "nat \<Rightarrow> pool \<Rightarrow> pool option" where
  "start_take_slot i s =
     (let w = proc s i in
      if spc w \<noteq> SAdmitted then None
      else if slots s < capacity s
      then Some ((upd_proc s i (w\<lparr>spc := SSlotTaken\<rparr>))\<lparr>slots := slots s + 1\<rparr>)
      else Some ((upd_proc s i (w\<lparr>spc := SRefused\<rparr>))\<lparr>mu := None\<rparr>))"

definition start_unlock :: "nat \<Rightarrow> pool \<Rightarrow> pool option" where
  "start_unlock i s =
     (let w = proc s i in
      if spc w = SSlotTaken
      then Some ((upd_proc s i (w\<lparr>spc := SStarting\<rparr>))\<lparr>mu := None\<rparr>) else None)"

text \<open>\<open>startIsolatedStorageProcess\<close>: it fails without a child, with a child it kills and waits
  for, or returns a process with an open pidfd.\<close>

datatype start_outcome = StartFails | StartUnusable | StartOK

definition start_process :: "nat \<Rightarrow> start_outcome \<Rightarrow> pool \<Rightarrow> pool option" where
  "start_process i outcome s =
     (let w = proc s i in
      if spc w \<noteq> SStarting then None
      else case outcome of
        StartFails \<Rightarrow>
          Some ((upd_proc s i (w\<lparr>spc := SRefused\<rparr>))\<lparr>slots := slots s - 1\<rparr>)
      | StartUnusable \<Rightarrow> Some (upd_proc s i (w\<lparr>spc := SStartFailing, child := Running\<rparr>))
      | StartOK \<Rightarrow>
          Some (upd_proc s i (w\<lparr>spc := SStarted, child := Running, pidfd_open := True\<rparr>)))"

definition start_failed_wait :: "nat \<Rightarrow> pool \<Rightarrow> pool option" where
  "start_failed_wait i s =
     (let w = proc s i in
      if spc w = SStartFailing \<and> child w = Exited
      then Some ((upd_proc s i (w\<lparr>spc := SRefused, child := Reaped\<rparr>))\<lparr>slots := slots s - 1\<rparr>)
      else None)"

text \<open>The second critical section of \<open>startRequestWorker\<close>: the check and the insertion are two
  steps, because \<open>abort\<close> of another worker stores into \<open>signalFailure\<close> without \<open>manager.mu\<close>.\<close>

definition start_check_register :: "nat \<Rightarrow> pool \<Rightarrow> pool option" where
  "start_check_register i s =
     (let w = proc s i in
      if spc w \<noteq> SStarted \<or> mu s \<noteq> None then None
      else if closed s \<or> signalFailure s
      then Some (upd_proc s i (w\<lparr>spc := SRejected, rpc := RWaiting\<rparr>))
      else Some ((upd_proc s i (w\<lparr>spc := SRegistering\<rparr>))\<lparr>mu := Some i\<rparr>))"

definition start_register :: "nat \<Rightarrow> pool \<Rightarrow> pool option" where
  "start_register i s =
     (let w = proc s i in
      if spc w \<noteq> SRegistering then None
      else Some ((upd_proc s i (w\<lparr>spc := SRegistered, rpc := RWaiting\<rparr>))
                   \<lparr>workers := insert i (workers s), mu := None\<rparr>))"

subsection \<open>The child and \<open>reap\<close>\<close>

definition child_exit :: "nat \<Rightarrow> pool \<Rightarrow> pool option" where
  "child_exit i s =
     (let w = proc s i in
      if child w = Running then Some (upd_proc s i (w\<lparr>child := Exited\<rparr>)) else None)"

definition reap_wait :: "nat \<Rightarrow> pool \<Rightarrow> pool option" where
  "reap_wait i s =
     (let w = proc s i in
      if rpc w = RWaiting \<and> child w = Exited
      then Some (upd_proc s i (w\<lparr>rpc := RWaited, child := Reaped\<rparr>)) else None)"

definition reap_mark :: "nat \<Rightarrow> pool \<Rightarrow> pool option" where
  "reap_mark i s =
     (let w = proc s i in
      if rpc w = RWaited \<and> apc w \<noteq> AQuarantined
      then Some (upd_proc s i
             (w\<lparr>rpc := RMarked, finished := True, was_quarantined := quarantined w,
                pidfd_open := False\<rparr>))
      else None)"

definition reap_uncount :: "nat \<Rightarrow> pool \<Rightarrow> pool option" where
  "reap_uncount i s =
     (let w = proc s i in
      if rpc w = RMarked
      then Some ((upd_proc s i (w\<lparr>rpc := RUncounted\<rparr>))
                   \<lparr>quarantine := (if was_quarantined w then quarantine s - 1 else quarantine s)\<rparr>)
      else None)"

definition begin_release :: "worker \<Rightarrow> worker" where
  "begin_release w = (if release_st w = ReleaseNone then w\<lparr>release_st := ReleaseBegun\<rparr> else w)"

definition reap_release :: "nat \<Rightarrow> pool \<Rightarrow> pool option" where
  "reap_release i s =
     (let w = proc s i in
      if rpc w = RUncounted
      then Some (upd_proc s i (begin_release (w\<lparr>rpc := RReleasing\<rparr>))) else None)"

definition reap_done :: "nat \<Rightarrow> pool \<Rightarrow> pool option" where
  "reap_done i s =
     (let w = proc s i in
      if rpc w = RReleasing \<and> release_st w = ReleaseDone
      then Some (upd_proc s i (w\<lparr>rpc := RDone\<rparr>)) else None)"

subsection \<open>\<open>abort\<close>\<close>

definition abort_enter :: "nat \<Rightarrow> pool \<Rightarrow> pool option" where
  "abort_enter i s =
     (let w = proc s i in
      if apc w = ANone \<and> (spc w = SRejected \<or> spc w = SRegistered)
      then Some (upd_proc s i (w\<lparr>apc := AEntered\<rparr>)) else None)"

definition abort_mark :: "nat \<Rightarrow> pool \<Rightarrow> pool option" where
  "abort_mark i s =
     (let w = proc s i in
      if apc w \<noteq> AEntered then None
      else if finished w
      then Some (upd_proc s i (w\<lparr>apc := ASignalled, do_release := True\<rparr>))
      else Some ((upd_proc s i (w\<lparr>apc := AQuarantined, quarantined := True\<rparr>))
                   \<lparr>quarantine := quarantine s + 1\<rparr>))"

definition abort_signal :: "nat \<Rightarrow> signal_result \<Rightarrow> pool \<Rightarrow> pool option" where
  "abort_signal i result s =
     (let w = proc s i; failed = (\<not> pidfd_open w \<or> result = SignalError) in
      if apc w \<noteq> AQuarantined then None
      else Some ((upd_proc s i (w\<lparr>apc := ASignalled, do_release := \<not> failed\<rparr>))
                   \<lparr>signalFailure := (signalFailure s \<or> failed)\<rparr>))"

definition abort_release :: "nat \<Rightarrow> pool \<Rightarrow> pool option" where
  "abort_release i s =
     (let w = proc s i in
      if apc w \<noteq> ASignalled then None
      else if do_release w
      then Some (upd_proc s i (begin_release (w\<lparr>apc := AReleasing\<rparr>)))
      else Some (upd_proc s i (w\<lparr>apc := ADone\<rparr>)))"

definition abort_done :: "nat \<Rightarrow> pool \<Rightarrow> pool option" where
  "abort_done i s =
     (let w = proc s i in
      if apc w = AReleasing \<and> release_st w = ReleaseDone
      then Some (upd_proc s i (w\<lparr>apc := ADone\<rparr>)) else None)"

subsection \<open>\<open>release\<close> and \<open>close\<close>\<close>

definition release_delete :: "nat \<Rightarrow> pool \<Rightarrow> pool option" where
  "release_delete i s =
     (let w = proc s i in
      if release_st w = ReleaseBegun \<and> mu s = None
      then Some ((upd_proc s i (w\<lparr>release_st := ReleaseDeleted\<rparr>))\<lparr>workers := workers s - {i}\<rparr>)
      else None)"

definition release_slot :: "nat \<Rightarrow> pool \<Rightarrow> pool option" where
  "release_slot i s =
     (let w = proc s i in
      if release_st w = ReleaseDeleted \<and> 0 < slots s
      then Some ((upd_proc s i (w\<lparr>release_st := ReleaseDone\<rparr>))\<lparr>slots := slots s - 1\<rparr>)
      else None)"

definition close_manager :: "pool \<Rightarrow> pool option" where
  "close_manager s =
     (if mu s \<noteq> None then None
      else if closed s then Some s
      else Some (s\<lparr>closed := True, root_open := False, to_abort := workers s\<rparr>))"

subsection \<open>The transition system\<close>

datatype pool_event =
    StartLock nat | StartCheckSignal nat | StartCheckQuarantine nat | StartTakeSlot nat
  | StartUnlock nat | StartProcess nat start_outcome | StartFailedWait nat
  | StartCheckRegister nat | StartRegister nat
  | ChildExit nat | ReapWait nat | ReapMark nat | ReapUncount nat | ReapRelease nat | ReapDone nat
  | AbortEnter nat | AbortMark nat | AbortSignal nat signal_result | AbortRelease nat
  | AbortDone nat | ReleaseDelete nat | ReleaseSlot nat | CloseManager

fun exec :: "pool_event \<Rightarrow> pool \<Rightarrow> pool option" where
  "exec (StartLock i) = start_lock i"
| "exec (StartCheckSignal i) = start_check_signal i"
| "exec (StartCheckQuarantine i) = start_check_quarantine i"
| "exec (StartTakeSlot i) = start_take_slot i"
| "exec (StartUnlock i) = start_unlock i"
| "exec (StartProcess i r) = start_process i r"
| "exec (StartFailedWait i) = start_failed_wait i"
| "exec (StartCheckRegister i) = start_check_register i"
| "exec (StartRegister i) = start_register i"
| "exec (ChildExit i) = child_exit i"
| "exec (ReapWait i) = reap_wait i"
| "exec (ReapMark i) = reap_mark i"
| "exec (ReapUncount i) = reap_uncount i"
| "exec (ReapRelease i) = reap_release i"
| "exec (ReapDone i) = reap_done i"
| "exec (AbortEnter i) = abort_enter i"
| "exec (AbortMark i) = abort_mark i"
| "exec (AbortSignal i r) = abort_signal i r"
| "exec (AbortRelease i) = abort_release i"
| "exec (AbortDone i) = abort_done i"
| "exec (ReleaseDelete i) = release_delete i"
| "exec (ReleaseSlot i) = release_slot i"
| "exec CloseManager = close_manager"

lemmas exec_defs =
  start_lock_def start_check_signal_def start_check_quarantine_def start_take_slot_def
  start_unlock_def start_process_def start_failed_wait_def start_check_register_def
  start_register_def child_exit_def
  reap_wait_def reap_mark_def reap_uncount_def reap_release_def reap_done_def abort_enter_def
  abort_mark_def abort_signal_def abort_release_def abort_done_def release_delete_def
  release_slot_def close_manager_def Let_def

fun run :: "pool_event list \<Rightarrow> pool \<Rightarrow> pool option" where
  "run [] s = Some s"
| "run (e # es) s = (case exec e s of None \<Rightarrow> None | Some t \<Rightarrow> run es t)"

inductive pool_step :: "pool \<Rightarrow> pool \<Rightarrow> bool" where
  pool_stepI: "exec e s = Some t \<Longrightarrow> pool_step s t"

definition pool_init :: "pool \<Rightarrow> bool" where
  "pool_init s \<longleftrightarrow> (\<exists>maxWorkers limit. newIsolatedStorageWith maxWorkers limit = Inr s)"

named_theorems worker_steps \<open>what worker records satisfy along the steps\<close>

section \<open>Counting workers\<close>

definition holds_slot :: "worker \<Rightarrow> bool" where
  "holds_slot w \<longleftrightarrow>
     spc w \<in> {SSlotTaken, SStarting, SStartFailing, SStarted, SRegistering, SRejected, SRegistered} \<and>
     release_st w \<noteq> ReleaseDone"

text \<open>Counted in \<open>quarantine\<close>: marked by \<open>abort\<close>, and the reaper has not yet subtracted it again.
  The child itself may have been waited for already.\<close>

definition counted :: "worker \<Rightarrow> bool" where
  "counted w \<longleftrightarrow> quarantined w \<and> rpc w \<notin> {RUncounted, RReleasing, RDone}"

definition unreaped :: "worker \<Rightarrow> bool" where
  "unreaped w \<longleftrightarrow> child w = Running \<or> child w = Exited"

text \<open>Workers that count against the quarantine and whose slot is free or about to be.\<close>

definition detached :: "worker \<Rightarrow> bool" where
  "detached w \<longleftrightarrow> counted w \<and> release_st w \<in> {ReleaseDeleted, ReleaseDone}"

definition number :: "(worker \<Rightarrow> bool) \<Rightarrow> pool \<Rightarrow> nat" where
  "number P s = card {i. P (proc s i)}"

definition touched :: "pool \<Rightarrow> nat set" where
  "touched s = {i. spc (proc s i) \<noteq> SIdle}"

section \<open>The invariant\<close>

text \<open>What every worker record satisfies on its own: before registration only the starter
  touches it; afterwards the reaper and the aborter do.\<close>

definition fresh :: "worker \<Rightarrow> bool" where
  "fresh w \<longleftrightarrow> rpc w = RNone \<and> apc w = ANone \<and> release_st w = ReleaseNone \<and>
     \<not> finished w \<and> \<not> quarantined w"

definition reaper_ok :: "worker \<Rightarrow> bool" where
  "reaper_ok w =
     (case rpc w of
        RNone \<Rightarrow> False
      | RWaiting \<Rightarrow> unreaped w \<and> \<not> finished w
      | RWaited \<Rightarrow> child w = Reaped \<and> \<not> finished w
      | p \<Rightarrow> child w = Reaped \<and> finished w \<and> was_quarantined w = quarantined w \<and>
          (p = RReleasing \<longrightarrow> release_st w \<noteq> ReleaseNone) \<and> (p = RDone \<longrightarrow> release_st w = ReleaseDone))"

definition aborter_ok :: "worker \<Rightarrow> bool" where
  "aborter_ok w =
     (case apc w of
        ANone \<Rightarrow> \<not> quarantined w
      | AEntered \<Rightarrow> \<not> quarantined w
      | AQuarantined \<Rightarrow> quarantined w \<and> \<not> finished w
      | _ \<Rightarrow> quarantined w \<or> finished w)"

definition release_ok :: "worker \<Rightarrow> bool" where
  "release_ok w \<longleftrightarrow>
     release_st w = ReleaseNone \<or> rpc w \<in> {RReleasing, RDone} \<or> apc w \<in> {AReleasing, ADone}"

definition owned_ok :: "worker \<Rightarrow> bool" where
  "owned_ok w \<longleftrightarrow> reaper_ok w \<and> aborter_ok w \<and> release_ok w \<and> (finished w \<or> pidfd_open w)"

definition worker_ok :: "worker \<Rightarrow> bool" where
  "worker_ok w =
     (case spc w of
        SRejected \<Rightarrow> owned_ok w
      | SRegistered \<Rightarrow> owned_ok w
      | SStarted \<Rightarrow> fresh w \<and> unreaped w \<and> pidfd_open w
      | SRegistering \<Rightarrow> fresh w \<and> unreaped w \<and> pidfd_open w
      | SStartFailing \<Rightarrow> fresh w \<and> unreaped w
      | SRefused \<Rightarrow> fresh w \<and> \<not> unreaped w
      | _ \<Rightarrow> fresh w \<and> child w = NoChild)"

lemmas worker_ok_defs =
  worker_ok_def owned_ok_def fresh_def reaper_ok_def aborter_ok_def release_ok_def unreaped_def

definition pool_inv :: "pool \<Rightarrow> bool" where
  "pool_inv s \<longleftrightarrow>
     finite (touched s) \<and>
     (\<forall>i. worker_ok (proc s i)) \<and>
     1 \<le> quarantineAdmissionLimit s \<and>
     (\<forall>i. mu s = Some i \<longleftrightarrow> spc (proc s i) \<in> {SLocked, SSignalChecked, SAdmitted, SSlotTaken, SRegistering}) \<and>
     int (slots s) = int (number holds_slot s) \<and>
     slots s \<le> capacity s \<and>
     quarantine s = int (number counted s) \<and>
     workers s = {i. spc (proc s i) = SRegistered \<and> release_st (proc s i) \<in> {ReleaseNone, ReleaseBegun}} \<and>
     ((\<exists>i. spc (proc s i) = SAdmitted) \<longrightarrow>
        int (number detached s) < int (quarantineAdmissionLimit s)) \<and>
     int (number (\<lambda>w. holds_slot w \<or> counted w) s) <
       int (capacity s) + int (quarantineAdmissionLimit s)"

lemma card_proc_update:
  assumes "finite {j. P (f j)}"
  shows "int (card {j. P ((f(i := w)) j)}) =
    int (card {j. P (f j)}) + of_bool (P w) - of_bool (P (f i))"
proof -
  let ?R = "{j. j \<noteq> i \<and> P (f j)}"
  have fin: "finite ?R" using assms by (rule rev_finite_subset) auto
  have "{j. P ((f(i := w)) j)} = (if P w then insert i ?R else ?R)" by auto
  then have "int (card {j. P ((f(i := w)) j)}) = int (card ?R) + of_bool (P w)"
    using fin by simp
  moreover have "{j. P (f j)} = (if P (f i) then insert i ?R else ?R)" by auto
  then have "int (card {j. P (f j)}) = int (card ?R) + of_bool (P (f i))"
    using fin by simp
  ultimately show ?thesis by simp
qed

lemma number_update:
  assumes "finite {j. P (proc s j)}" "proc t = (proc s)(i := w)"
  shows "int (number P t) = int (number P s) + of_bool (P w) - of_bool (P (proc s i))"
  using card_proc_update [of P "proc s" i w] assms by (simp add: number_def)

lemma ok_idle_counts:
  "worker_ok w \<Longrightarrow> spc w = SIdle \<Longrightarrow> \<not> holds_slot w \<and> \<not> counted w \<and> \<not> detached w"
  by (simp add: worker_ok_def fresh_def holds_slot_def counted_def detached_def)

lemma finite_counts:
  assumes "pool_inv s"
  shows "finite {j. holds_slot (proc s j)}" "finite {j. counted (proc s j)}"
    "finite {j. detached (proc s j)}" "finite {j. holds_slot (proc s j) \<or> counted (proc s j)}"
proof -
  have "finite (touched s)" and "\<And>j. worker_ok (proc s j)"
    using assms by (auto simp: pool_inv_def)
  then show "finite {j. holds_slot (proc s j)}" "finite {j. counted (proc s j)}"
    "finite {j. detached (proc s j)}" "finite {j. holds_slot (proc s j) \<or> counted (proc s j)}"
    using ok_idle_counts
    by (auto elim!: rev_finite_subset simp: touched_def)
qed

lemma live_accounted: "worker_ok w \<Longrightarrow> unreaped w \<Longrightarrow> holds_slot w \<or> counted w"
  by (cases "spc w"; cases "rpc w"; cases "apc w")
     (auto simp: worker_ok_defs holds_slot_def counted_def)

lemma counted_iff:
  "worker_ok w \<Longrightarrow> counted w \<longleftrightarrow> quarantined w \<and> (unreaped w \<or> rpc w \<in> {RWaited, RMarked})"
  by (cases "spc w"; cases "rpc w") (auto simp: worker_ok_defs counted_def)

text \<open>The counts after a step that replaces the record of worker \<open>i\<close>.\<close>

lemma counts_update:
  assumes "pool_inv s" "proc t = (proc s)(i := w)"
  shows
    "int (number holds_slot t) =
       int (number holds_slot s) + of_bool (holds_slot w) - of_bool (holds_slot (proc s i))"
    "int (number counted t) =
       int (number counted s) + of_bool (counted w) - of_bool (counted (proc s i))"
    "int (number detached t) =
       int (number detached s) + of_bool (detached w) - of_bool (detached (proc s i))"
    "int (number (\<lambda>w. holds_slot w \<or> counted w) t) =
       int (number (\<lambda>w. holds_slot w \<or> counted w) s) + of_bool (holds_slot w \<or> counted w)
       - of_bool (holds_slot (proc s i) \<or> counted (proc s i))"
  using assms finite_counts [OF assms(1)] by (simp_all only: number_update)

lemma touched_update: "proc t = (proc s)(i := w) \<Longrightarrow> touched t \<subseteq> insert i (touched s)"
  by (auto simp: touched_def)

abbreviation in_section :: "starter_pc \<Rightarrow> bool" where
  "in_section p \<equiv> p \<in> {SLocked, SSignalChecked, SAdmitted, SSlotTaken, SRegistering}"

abbreviation listed :: "worker \<Rightarrow> bool" where
  "listed w \<equiv> spc w = SRegistered \<and> release_st w \<in> {ReleaseNone, ReleaseBegun}"

lemma pool_inv_update:
  assumes inv: "pool_inv s" and proc: "proc t = (proc s)(i := w)" and ok: "worker_ok w"
    and const: "capacity t = capacity s" "quarantineAdmissionLimit t = quarantineAdmissionLimit s"
    and mu: "\<forall>j. mu t = Some j \<longleftrightarrow> in_section (spc (proc t j))"
    and slots: "int (slots t) = int (slots s) + of_bool (holds_slot w) - of_bool (holds_slot (proc s i))"
      "slots t \<le> capacity s"
    and quar: "quarantine t = quarantine s + of_bool (counted w) - of_bool (counted (proc s i))"
    and workers: "workers t = (if listed w then insert i (workers s) else workers s - {i})"
    and adm: "\<exists>j. spc (proc t j) = SAdmitted \<Longrightarrow>
      int (number detached t) < int (quarantineAdmissionLimit s)"
    and live: "int (number (\<lambda>w. holds_slot w \<or> counted w) t) <
      int (capacity s) + int (quarantineAdmissionLimit s)"
  shows "pool_inv t"
proof -
  have "finite (touched t)"
    using touched_update [OF proc] inv by (auto simp: pool_inv_def intro: finite_subset)
  moreover have "\<forall>j. worker_ok (proc t j)"
    using inv ok proc by (auto simp: pool_inv_def)
  moreover have "workers t = {j. listed (proc t j)}"
    using inv proc workers by (auto simp: pool_inv_def)
  ultimately show ?thesis
    using inv const mu slots quar adm live counts_update [OF inv proc]
    by (simp add: pool_inv_def)
qed

text \<open>A step of the reaper or of the aborter: the starter's position, the mutex and the slots
  stay as they are.\<close>

lemma pool_inv_local:
  assumes inv: "pool_inv s" and proc: "proc t = (proc s)(i := w)" and ok: "worker_ok w"
    and const: "capacity t = capacity s" "quarantineAdmissionLimit t = quarantineAdmissionLimit s"
      "mu t = mu s" "slots t = slots s" "workers t = workers s"
    and same: "spc w = spc (proc s i)" "holds_slot w = holds_slot (proc s i)"
      "listed w = listed (proc s i)"
    and quar: "quarantine t = quarantine s + of_bool (counted w) - of_bool (counted (proc s i))"
    and mono: "counted w \<Longrightarrow> counted (proc s i) \<or> holds_slot (proc s i)"
      "detached w \<Longrightarrow> detached (proc s i)"
  shows "pool_inv t"
proof (rule pool_inv_update [OF inv proc ok const(1,2)])
  have spc: "spc (proc t j) = spc (proc s j)" for j
    using proc same(1) by simp
  show "\<forall>j. mu t = Some j \<longleftrightarrow> in_section (spc (proc t j))"
    using inv const(3) spc by (simp add: pool_inv_def)
  show "int (slots t) = int (slots s) + of_bool (holds_slot w) - of_bool (holds_slot (proc s i))"
    using const(4) same(2) by simp
  show "slots t \<le> capacity s" using inv const(4) by (simp add: pool_inv_def)
  show "workers t = (if listed w then insert i (workers s) else workers s - {i})"
    using inv const(5) same(3) by (auto simp: pool_inv_def)
  show "int (number detached t) < int (quarantineAdmissionLimit s)"
    if "\<exists>j. spc (proc t j) = SAdmitted"
    using inv that spc mono(2) counts_update(3) [OF inv proc]
    by (auto simp: pool_inv_def)
  show "int (number (\<lambda>w. holds_slot w \<or> counted w) t) <
      int (capacity s) + int (quarantineAdmissionLimit s)"
    using inv same(2) mono(1) counts_update(4) [OF inv proc]
    by (cases "counted w") (auto simp: pool_inv_def)
qed (rule quar)

subsection \<open>Preservation: reaper and aborter\<close>

lemma inv_worker_ok: "pool_inv s \<Longrightarrow> worker_ok (proc s i)"
  by (simp add: pool_inv_def)

lemmas owned_defs = owned_ok_def reaper_ok_def aborter_ok_def release_ok_def unreaped_def

lemma owned_local_steps [worker_steps]:
  assumes "owned_ok w"
  shows "child w = Running \<Longrightarrow> owned_ok (w\<lparr>child := Exited\<rparr>)"
    and "rpc w = RWaiting \<Longrightarrow> child w = Exited \<Longrightarrow> owned_ok (w\<lparr>rpc := RWaited, child := Reaped\<rparr>)"
    and "rpc w = RWaited \<Longrightarrow> apc w \<noteq> AQuarantined \<Longrightarrow>
      owned_ok (w\<lparr>rpc := RMarked, finished := True, was_quarantined := quarantined w,
        pidfd_open := False\<rparr>)"
    and "rpc w = RMarked \<Longrightarrow> owned_ok (w\<lparr>rpc := RUncounted\<rparr>)"
    and "rpc w = RUncounted \<Longrightarrow> owned_ok (begin_release (w\<lparr>rpc := RReleasing\<rparr>))"
    and "rpc w = RReleasing \<Longrightarrow> release_st w = ReleaseDone \<Longrightarrow> owned_ok (w\<lparr>rpc := RDone\<rparr>)"
    and "apc w = ANone \<Longrightarrow> owned_ok (w\<lparr>apc := AEntered\<rparr>)"
    and "apc w = AEntered \<Longrightarrow> finished w \<Longrightarrow> owned_ok (w\<lparr>apc := ASignalled, do_release := True\<rparr>)"
    and "apc w = AEntered \<Longrightarrow> \<not> finished w \<Longrightarrow>
      owned_ok (w\<lparr>apc := AQuarantined, quarantined := True\<rparr>)"
    and "apc w = AQuarantined \<Longrightarrow> owned_ok (w\<lparr>apc := ASignalled, do_release := b\<rparr>)"
    and "apc w = ASignalled \<Longrightarrow> owned_ok (begin_release (w\<lparr>apc := AReleasing\<rparr>))"
    and "apc w = ASignalled \<or> apc w = AReleasing \<Longrightarrow> owned_ok (w\<lparr>apc := ADone\<rparr>)"
  using assms
  by (cases "rpc w"; cases "apc w"; simp add: owned_defs begin_release_def)+

lemma owned_counts [worker_steps]:
  assumes "owned_ok w"
  shows "rpc w = RMarked \<Longrightarrow> was_quarantined w = quarantined w"
    and "apc w = AEntered \<Longrightarrow> \<not> quarantined w"
    and "\<not> finished w \<Longrightarrow> rpc w \<notin> {RMarked, RUncounted, RReleasing, RDone}"
    and "apc w = AEntered \<Longrightarrow> \<not> finished w \<Longrightarrow> release_st w = ReleaseNone"
  using assms by (cases "rpc w"; cases "apc w"; simp add: owned_defs)+

lemma worker_owned:
  assumes "worker_ok w" "rpc w \<noteq> RNone \<or> apc w \<noteq> ANone \<or> release_st w \<noteq> ReleaseNone"
  shows "owned_ok w" "spc w = SRejected \<or> spc w = SRegistered"
  using assms by (cases "spc w"; simp add: worker_ok_def fresh_def)+

lemma owned_worker:
  "owned_ok w \<Longrightarrow> spc w = SRejected \<or> spc w = SRegistered \<Longrightarrow> worker_ok w"
  by (auto simp: worker_ok_def)

text \<open>The worker a reaper or aborter event belongs to.\<close>

fun local_event :: "pool_event \<Rightarrow> nat option" where
  "local_event (ChildExit i) = Some i"
| "local_event (ReapWait i) = Some i"
| "local_event (ReapMark i) = Some i"
| "local_event (ReapUncount i) = Some i"
| "local_event (ReapRelease i) = Some i"
| "local_event (ReapDone i) = Some i"
| "local_event (AbortEnter i) = Some i"
| "local_event (AbortMark i) = Some i"
| "local_event (AbortSignal i r) = Some i"
| "local_event (AbortRelease i) = Some i"
| "local_event (AbortDone i) = Some i"
| "local_event _ = None"

lemma begin_release_fields [simp]:
  "spc (begin_release w) = spc w" "rpc (begin_release w) = rpc w"
  "quarantined (begin_release w) = quarantined w"
  "holds_slot (begin_release w) = holds_slot w"
  "counted (begin_release w) = counted w"
  "detached (begin_release w) = detached w"
  "release_st (begin_release w) \<in> {ReleaseNone, ReleaseBegun} \<longleftrightarrow>
     release_st w \<in> {ReleaseNone, ReleaseBegun}"
  by (simp_all add: begin_release_def holds_slot_def counted_def detached_def)

lemma local_step_frame:
  assumes "exec e s = Some t" "local_event e = Some i"
  shows "proc t = (proc s)(i := proc t i) \<and> capacity t = capacity s \<and>
    quarantineAdmissionLimit t = quarantineAdmissionLimit s \<and> mu t = mu s \<and>
    slots t = slots s \<and> workers t = workers s \<and> spc (proc t i) = spc (proc s i)"
  using assms by (cases e) (auto simp: exec_defs split: if_splits)

lemma local_step_owned:
  assumes "exec e s = Some t" "local_event e = Some i" "e \<noteq> ChildExit i" "worker_ok (proc s i)"
  shows "owned_ok (proc s i) \<and> spc (proc s i) \<in> {SRejected, SRegistered}"
proof -
  have "rpc (proc s i) \<noteq> RNone \<or> apc (proc s i) \<noteq> ANone
      \<or> spc (proc s i) = SRejected \<or> spc (proc s i) = SRegistered"
    using assms(1-3) by (cases e) (auto simp: exec_defs split: if_splits)
  then show ?thesis
    using worker_owned [OF assms(4)] assms(4) by (auto simp: worker_ok_def)
qed

lemma child_exit_ok: "worker_ok w \<Longrightarrow> child w = Running \<Longrightarrow> worker_ok (w\<lparr>child := Exited\<rparr>)"
  using owned_local_steps(1) [of w]
  by (cases "spc w") (simp_all add: worker_ok_def fresh_def unreaped_def)

lemma local_step_ok:
  assumes "exec e s = Some t" "local_event e = Some i" "worker_ok (proc s i)"
  shows "worker_ok (proc t i)"
proof (cases "e = ChildExit i")
  case True
  with assms(1,3) child_exit_ok show ?thesis by (auto simp: exec_defs split: if_splits)
next
  case False
  from local_step_owned [OF assms(1,2) False assms(3)]
  have own: "owned_ok (proc s i)" "spc (proc s i) = SRejected \<or> spc (proc s i) = SRegistered"
    by auto
  have "owned_ok (proc t i)"
    using assms(1,2) False
    by (cases e) (auto simp: exec_defs owned_local_steps [OF own(1)] split: if_splits)
  then show ?thesis
    using own(2) local_step_frame [OF assms(1,2)] by (simp add: owned_worker)
qed

lemma begin_release_done [simp]:
  "release_st (begin_release w) = ReleaseDone \<longleftrightarrow> release_st w = ReleaseDone"
  "release_st (begin_release w) = ReleaseDeleted \<longleftrightarrow> release_st w = ReleaseDeleted"
  by (simp_all add: begin_release_def)

lemma local_step_counts:
  assumes "exec e s = Some t" "local_event e = Some i" "worker_ok (proc s i)"
  shows "holds_slot (proc t i) = holds_slot (proc s i)"
    and "listed (proc t i) = listed (proc s i)"
    and "quarantine t = quarantine s + of_bool (counted (proc t i)) - of_bool (counted (proc s i))"
    and "counted (proc t i) \<Longrightarrow> counted (proc s i) \<or> holds_slot (proc s i)"
    and "detached (proc t i) \<Longrightarrow> detached (proc s i)"
proof -
  have own: "e \<noteq> ChildExit i \<Longrightarrow>
      owned_ok (proc s i) \<and> spc (proc s i) \<in> {SRejected, SRegistered}"
    using local_step_owned [OF assms(1,2) _ assms(3)] by blast
  show "holds_slot (proc t i) = holds_slot (proc s i)"
    using assms(1,2) by (cases e) (auto simp: exec_defs holds_slot_def split: if_splits)
  show "listed (proc t i) = listed (proc s i)"
    using assms(1,2) by (cases e) (auto simp: exec_defs begin_release_def split: if_splits)
  show "quarantine t = quarantine s + of_bool (counted (proc t i)) - of_bool (counted (proc s i))"
    using assms(1,2) own owned_counts [of "proc s i"]
    by (cases e) (auto simp: exec_defs counted_def split: if_splits)
  show "counted (proc s i) \<or> holds_slot (proc s i)" if "counted (proc t i)"
    using that assms(1,2) own owned_counts(4) [of "proc s i"]
    by (cases e) (auto simp: exec_defs counted_def holds_slot_def split: if_splits)
  show "detached (proc s i)" if "detached (proc t i)"
    using that assms(1,2) own owned_counts(4) [of "proc s i"]
    by (cases e) (auto simp: exec_defs detached_def counted_def split: if_splits)
qed

lemma local_step_inv:
  assumes inv: "pool_inv s" and step: "exec e s = Some t" "local_event e = Some i"
  shows "pool_inv t"
proof (rule pool_inv_local [OF inv, of t i "proc t i"])
  show "worker_ok (proc t i)" using step inv_worker_ok [OF inv] by (rule local_step_ok)
qed (use local_step_frame [OF step] local_step_counts [OF step inv_worker_ok [OF inv]] in auto)

subsection \<open>Preservation: starter, release and close\<close>

lemma not_owned:
  assumes "worker_ok w" "spc w \<notin> {SRejected, SRegistered}"
  shows "fresh w" "\<not> counted w" "\<not> detached w" "\<not> listed w" "release_st w = ReleaseNone"
  using assms by (cases "spc w"; simp add: worker_ok_def fresh_def counted_def detached_def)+

lemma section_owner:
  "pool_inv s \<Longrightarrow> in_section (spc (proc s i)) \<Longrightarrow> mu s = Some i"
  by (simp add: pool_inv_def)

lemma section_free:
  "pool_inv s \<Longrightarrow> mu s = None \<Longrightarrow> \<not> in_section (spc (proc s j))"
  by (metis option.distinct(1) pool_inv_def)

text \<open>A step of the starter of request \<open>i\<close> that keeps its quarantine count at zero and does not
  take a slot.\<close>

lemma pool_inv_starter:
  assumes inv: "pool_inv s" and old: "spc (proc s i) \<notin> {SRejected, SRegistered}"
    and proc: "proc t = (proc s)(i := w)" and ok: "worker_ok w" and new: "\<not> counted w" "\<not> detached w"
    and const: "capacity t = capacity s" "quarantineAdmissionLimit t = quarantineAdmissionLimit s"
      "quarantine t = quarantine s"
    and workers: "workers t = (if listed w then insert i (workers s) else workers s)"
    and mu: "\<forall>j. mu t = Some j \<longleftrightarrow> in_section (spc (proc t j))"
    and slots: "int (slots t) = int (slots s) + of_bool (holds_slot w) - of_bool (holds_slot (proc s i))"
    and keep: "holds_slot w \<Longrightarrow> holds_slot (proc s i)"
    and adm: "spc w = SAdmitted \<Longrightarrow> quarantine s < int (quarantineAdmissionLimit s)"
  shows "pool_inv t"
proof (rule pool_inv_update [OF inv proc ok const(1,2) mu slots])
  note no = not_owned [OF inv_worker_ok [OF inv] old]
  show "slots t \<le> capacity s"
    using inv slots keep by (cases "holds_slot w") (auto simp: pool_inv_def of_bool_def split: if_splits)
  show "quarantine t = quarantine s + of_bool (counted w) - of_bool (counted (proc s i))"
    using const(3) no new by simp
  show "workers t = (if listed w then insert i (workers s) else workers s - {i})"
    using workers inv no(4) by (auto simp: pool_inv_def)
  show "int (number (\<lambda>w. holds_slot w \<or> counted w) t) <
      int (capacity s) + int (quarantineAdmissionLimit s)"
    using inv keep no new counts_update(4) [OF inv proc] by (auto simp: pool_inv_def)
  have det: "int (number detached t) = int (number detached s)"
    using no new counts_update(3) [OF inv proc] by simp
  show "int (number detached t) < int (quarantineAdmissionLimit s)"
    if adm': "\<exists>j. spc (proc t j) = SAdmitted"
  proof (cases "spc w = SAdmitted")
    case True
    have "number detached s \<le> number counted s"
      unfolding number_def by (rule card_mono [OF finite_counts(2) [OF inv]]) (auto simp: detached_def)
    with adm [OF True] inv det show ?thesis by (auto simp: pool_inv_def)
  next
    case False
    with adm' proc have "\<exists>j. spc (proc s j) = SAdmitted" by (metis fun_upd_apply)
    with inv det show ?thesis by (simp add: pool_inv_def)
  qed
qed

lemma mutex_update:
  assumes inv: "pool_inv s" and proc: "proc t = (proc s)(i := w)"
    and moves: "mu s = None \<and> mu t = Some i \<and> in_section (spc w)
      \<or> mu t = mu s \<and> in_section (spc w) = in_section (spc (proc s i))
      \<or> in_section (spc (proc s i)) \<and> \<not> in_section (spc w) \<and> mu t = None"
  shows "\<forall>j. mu t = Some j \<longleftrightarrow> in_section (spc (proc t j))"
proof -
  have sec: "mu s = Some j \<longleftrightarrow> in_section (spc (proc s j))" for j
    using inv by (simp add: pool_inv_def)
  from moves show ?thesis
  proof (elim disjE conjE)
    assume "mu s = None" "mu t = Some i" "in_section (spc w)"
    then show ?thesis using sec proc by (metis fun_upd_apply option.distinct(1) option.inject)
  next
    assume "mu t = mu s" "in_section (spc w) = in_section (spc (proc s i))"
    then show ?thesis using sec proc by (metis fun_upd_apply)
  next
    assume "in_section (spc (proc s i))" "\<not> in_section (spc w)" "mu t = None"
    then show ?thesis using sec proc by (metis fun_upd_apply option.distinct(1) option.inject)
  qed
qed

lemma slot_held_positive:
  assumes "pool_inv s" "holds_slot (proc s i)"
  shows "0 < slots s"
proof -
  have "card {j. holds_slot (proc s j)} \<noteq> 0"
    using assms(2) finite_counts(1) [OF assms(1)] by auto
  then show ?thesis using assms(1) by (simp add: pool_inv_def number_def)
qed

definition starter_event :: "pool_event \<Rightarrow> nat option" where
  "starter_event e =
     (case e of StartLock i \<Rightarrow> Some i | StartCheckSignal i \<Rightarrow> Some i
      | StartCheckQuarantine i \<Rightarrow> Some i | StartUnlock i \<Rightarrow> Some i | StartProcess i r \<Rightarrow> Some i
      | StartFailedWait i \<Rightarrow> Some i | StartCheckRegister i \<Rightarrow> Some i | StartRegister i \<Rightarrow> Some i
      | StartTakeSlot i \<Rightarrow> Some i
      | _ \<Rightarrow> None)"

lemma starter_step_frame:
  assumes "exec e s = Some t" "starter_event e = Some i"
  shows "proc t = (proc s)(i := proc t i)" "capacity t = capacity s"
    "quarantineAdmissionLimit t = quarantineAdmissionLimit s" "quarantine t = quarantine s"
    "spc (proc s i) \<notin> {SRejected, SRegistered}"
  using assms
  by (cases e; auto simp: exec_defs starter_event_def split: if_splits start_outcome.splits)+

lemma starter_step_ok:
  assumes "exec e s = Some t" "starter_event e = Some i" "worker_ok (proc s i)"
  shows "worker_ok (proc t i)" "\<not> counted (proc t i)" "\<not> detached (proc t i)"
  using assms
  by (cases e; auto simp: exec_defs starter_event_def worker_ok_defs counted_def detached_def
        split: if_splits start_outcome.splits)+

lemma starter_step_mutex:
  assumes "exec e s = Some t" "starter_event e = Some i" "pool_inv s"
  shows "\<forall>j. mu t = Some j \<longleftrightarrow> in_section (spc (proc t j))"
proof (rule mutex_update [OF assms(3) starter_step_frame(1) [OF assms(1,2)]])
  show "mu s = None \<and> mu t = Some i \<and> in_section (spc (proc t i))
      \<or> mu t = mu s \<and> in_section (spc (proc t i)) = in_section (spc (proc s i))
      \<or> in_section (spc (proc s i)) \<and> \<not> in_section (spc (proc t i)) \<and> mu t = None"
    using assms(1,2)
    by (cases e; auto simp: exec_defs starter_event_def split: if_splits start_outcome.splits)
qed

lemma starter_step_moves:
  assumes "exec e s = Some t" "starter_event e = Some i"
  shows "slots t = slots s \<and> (spc (proc s i), spc (proc t i)) \<in>
        {(SIdle, SLocked), (SLocked, SRefused), (SLocked, SSignalChecked), (SSignalChecked, SRefused),
         (SSignalChecked, SAdmitted), (SAdmitted, SRefused), (SSlotTaken, SStarting),
         (SStarting, SStartFailing), (SStarting, SStarted), (SStarted, SRejected),
         (SStarted, SRegistering), (SRegistering, SRegistered)}
    \<or> slots t = slots s + 1 \<and> spc (proc s i) = SAdmitted \<and> spc (proc t i) = SSlotTaken
    \<or> slots t = slots s - 1 \<and> spc (proc s i) \<in> {SStarting, SStartFailing} \<and>
        spc (proc t i) = SRefused"
    and "release_st (proc t i) = release_st (proc s i)"
  using assms
  by (cases e; auto simp: exec_defs starter_event_def split: if_splits start_outcome.splits)+

lemma starter_step_slots:
  assumes "exec e s = Some t" "starter_event e = Some i" "pool_inv s"
  shows "int (slots t) =
    int (slots s) + of_bool (holds_slot (proc t i)) - of_bool (holds_slot (proc s i))"
proof -
  have "release_st (proc s i) = ReleaseNone"
    using not_owned(5) [OF inv_worker_ok [OF assms(3)] starter_step_frame(5) [OF assms(1,2)]] .
  then have rel: "holds_slot (proc s i) \<longleftrightarrow> spc (proc s i) \<in>
        {SSlotTaken, SStarting, SStartFailing, SStarted, SRegistering, SRejected, SRegistered}"
      "holds_slot (proc t i) \<longleftrightarrow> spc (proc t i) \<in>
        {SSlotTaken, SStarting, SStartFailing, SStarted, SRegistering, SRejected, SRegistered}"
    using starter_step_moves(2) [OF assms(1,2)] by (simp_all add: holds_slot_def)
  have "0 < slots s" if "spc (proc s i) \<in> {SStarting, SStartFailing}"
    by (rule slot_held_positive [OF assms(3)]) (use that rel(1) in auto)
  then have "spc (proc s i) \<in> {SStarting, SStartFailing} \<Longrightarrow> int (slots s - 1) = int (slots s) - 1"
    by simp
  with starter_step_moves(1) [OF assms(1,2)] show ?thesis
    unfolding rel by (elim disjE conjE insertE emptyE; simp only: prod.inject) simp_all
qed


lemma starter_step_workers:
  assumes "exec e s = Some t" "starter_event e = Some i" "pool_inv s"
  shows "workers t = (if listed (proc t i) then insert i (workers s) else workers s)"
proof -
  have "release_st (proc s i) = ReleaseNone"
    using not_owned(5) [OF inv_worker_ok [OF assms(3)] starter_step_frame(5) [OF assms(1,2)]] .
  with assms(1,2) show ?thesis
    by (cases e; auto simp: exec_defs starter_event_def split: if_splits start_outcome.splits)
qed

lemma starter_step_inv:
  assumes inv: "pool_inv s" and step: "exec e s = Some t" "starter_event e = Some i"
    and e: "e \<noteq> StartTakeSlot i"
  shows "pool_inv t"
proof (rule pool_inv_starter [OF inv starter_step_frame(5) [OF step] starter_step_frame(1) [OF step]
      starter_step_ok [OF step inv_worker_ok [OF inv]] starter_step_frame(2-4) [OF step]
      starter_step_workers [OF step inv] starter_step_mutex [OF step inv]
      starter_step_slots [OF step inv]])
  show "holds_slot (proc s i)" if "holds_slot (proc t i)"
    using that step e
    by (cases e; auto simp: exec_defs starter_event_def holds_slot_def
          split: if_splits start_outcome.splits)
  show "quarantine s < int (quarantineAdmissionLimit s)" if "spc (proc t i) = SAdmitted"
    using that step e
    by (cases e; auto simp: exec_defs starter_event_def split: if_splits start_outcome.splits)
qed

text \<open>What counts against the capacity or the quarantine holds a slot or is detached.\<close>

lemma counted_free_detached:
  "worker_ok w \<Longrightarrow> counted w \<Longrightarrow> \<not> holds_slot w \<Longrightarrow> detached w"
  using not_owned(2) [of w] by (auto simp: holds_slot_def detached_def)

lemma live_split:
  assumes "pool_inv s"
  shows "number (\<lambda>w. holds_slot w \<or> counted w) s \<le> number holds_slot s + number detached s"
proof -
  have "{i. holds_slot (proc s i) \<or> counted (proc s i)} \<subseteq>
      {i. holds_slot (proc s i)} \<union> {i. detached (proc s i)}"
    using counted_free_detached [OF inv_worker_ok [OF assms]] by blast
  then have "number (\<lambda>w. holds_slot w \<or> counted w) s \<le>
      card ({i. holds_slot (proc s i)} \<union> {i. detached (proc s i)})"
    unfolding number_def by (rule card_mono [rotated]) (simp add: finite_counts [OF assms])
  also have "\<dots> \<le> number holds_slot s + number detached s"
    unfolding number_def by (rule card_Un_le)
  finally show ?thesis .
qed

lemma take_slot_inv:
  assumes inv: "pool_inv s" and step: "exec (StartTakeSlot i) s = Some t" and room: "slots s < capacity s"
  shows "pool_inv t"
proof (rule pool_inv_update [OF inv])
  have ev: "starter_event (StartTakeSlot i) = Some i" by (simp add: starter_event_def)
  note ok = starter_step_ok [OF step ev inv_worker_ok [OF inv]]
    and no = not_owned [OF inv_worker_ok [OF inv] starter_step_frame(5) [OF step ev]]
  show pt: "proc t = (proc s)(i := proc t i)" and "worker_ok (proc t i)"
    "capacity t = capacity s" "quarantineAdmissionLimit t = quarantineAdmissionLimit s"
    "\<forall>j. mu t = Some j \<longleftrightarrow> in_section (spc (proc t j))"
    "int (slots t) = int (slots s) + of_bool (holds_slot (proc t i)) - of_bool (holds_slot (proc s i))"
    by (fact starter_step_frame [OF step ev] ok starter_step_mutex [OF step ev inv]
      starter_step_slots [OF step ev inv])+
  have adm: "spc (proc s i) = SAdmitted" and t: "slots t = slots s + 1" "spc (proc t i) = SSlotTaken"
    using step room by (auto simp: exec_defs split: if_splits)
  then show "slots t \<le> capacity s" using room by simp
  show "quarantine t = quarantine s + of_bool (counted (proc t i)) - of_bool (counted (proc s i))"
    using starter_step_frame(4) [OF step ev] ok no by simp
  show "workers t = (if listed (proc t i) then insert i (workers s) else workers s - {i})"
    using starter_step_workers [OF step ev inv] inv no(4) by (auto simp: pool_inv_def)
  have det: "number detached s < quarantineAdmissionLimit s"
    using inv adm by (auto simp: pool_inv_def)
  then show "int (number detached t) < int (quarantineAdmissionLimit s)"
    using counts_update(3) [OF inv pt] ok no by simp
  have "int (number (\<lambda>w. holds_slot w \<or> counted w) t) \<le>
      int (number (\<lambda>w. holds_slot w \<or> counted w) s) + 1"
    using counts_update(4) [OF inv pt] by simp
  moreover have "number holds_slot s = slots s" using inv by (simp add: pool_inv_def)
  ultimately show "int (number (\<lambda>w. holds_slot w \<or> counted w) t) <
      int (capacity s) + int (quarantineAdmissionLimit s)"
    using live_split [OF inv] det room by linarith
qed

lemma take_slot_refused_inv:
  assumes inv: "pool_inv s" and step: "exec (StartTakeSlot i) s = Some t" and full: "capacity s \<le> slots s"
  shows "pool_inv t"
proof -
  have ev: "starter_event (StartTakeSlot i) = Some i" by (simp add: starter_event_def)
  show ?thesis
    by (rule pool_inv_starter [OF inv starter_step_frame(5) [OF step ev]
          starter_step_frame(1) [OF step ev] starter_step_ok [OF step ev inv_worker_ok [OF inv]]
          starter_step_frame(2-4) [OF step ev] starter_step_workers [OF step ev inv]
          starter_step_mutex [OF step ev inv] starter_step_slots [OF step ev inv]])
       (use step full in \<open>auto simp: exec_defs holds_slot_def split: if_splits\<close>)
qed

lemma release_owned:
  assumes "worker_ok w" "release_st w \<noteq> ReleaseNone"
  shows "spc w \<in> {SRejected, SRegistered}"
    and "r \<noteq> ReleaseNone \<Longrightarrow> release_st w \<noteq> ReleaseDone \<Longrightarrow> worker_ok (w\<lparr>release_st := r\<rparr>)"
proof -
  show spc: "spc w \<in> {SRejected, SRegistered}" using not_owned(5) [OF assms(1)] assms(2) by auto
  show "worker_ok (w\<lparr>release_st := r\<rparr>)" if "r \<noteq> ReleaseNone" "release_st w \<noteq> ReleaseDone"
    using spc assms that
    by (auto simp: worker_ok_def owned_ok_def reaper_ok_def aborter_ok_def release_ok_def
        unreaped_def split: reaper_pc.splits aborter_pc.splits)
qed

lemma release_delete_inv:
  assumes inv: "pool_inv s" and step: "exec (ReleaseDelete i) s = Some t"
  shows "pool_inv t"
proof -
  let ?w = "proc s i\<lparr>release_st := ReleaseDeleted\<rparr>"
  from step have st: "release_st (proc s i) = ReleaseBegun" "mu s = None"
    "t = (upd_proc s i ?w)\<lparr>workers := workers s - {i}\<rparr>"
    by (auto simp: exec_defs split: if_splits)
  note own = release_owned [OF inv_worker_ok [OF inv, of i]]
  show ?thesis
  proof (rule pool_inv_update [OF inv, of t i ?w])
    show pt: "proc t = (proc s)(i := ?w)" using st(3) by simp
    show "\<forall>j. mu t = Some j \<longleftrightarrow> in_section (spc (proc t j))"
      by (rule mutex_update [OF inv pt]) (use st in simp)
    have "spc (proc t j) = spc (proc s j)" for j using st(3) by simp
    then show "int (number detached t) < int (quarantineAdmissionLimit s)"
      if "\<exists>j. spc (proc t j) = SAdmitted"
      using that section_free [OF inv st(2)] by auto
    have same: "holds_slot ?w = holds_slot (proc s i)" "counted ?w = counted (proc s i)"
      using st(1) by (simp_all add: holds_slot_def counted_def)
    then show "int (slots t) = int (slots s) + of_bool (holds_slot ?w) - of_bool (holds_slot (proc s i))"
      "quarantine t = quarantine s + of_bool (counted ?w) - of_bool (counted (proc s i))"
      "slots t \<le> capacity s"
      using st(3) inv by (simp_all add: pool_inv_def)
    show "int (number (\<lambda>w. holds_slot w \<or> counted w) t) <
        int (capacity s) + int (quarantineAdmissionLimit s)"
      using counts_update(4) [OF inv pt] same inv by (simp add: pool_inv_def)
    show "worker_ok ?w" using own(2) st(1) by simp
  qed (use st(3) in simp_all)
qed

lemma release_slot_inv:
  assumes inv: "pool_inv s" and step: "exec (ReleaseSlot i) s = Some t"
  shows "pool_inv t"
proof -
  let ?w = "proc s i\<lparr>release_st := ReleaseDone\<rparr>"
  from step have st: "release_st (proc s i) = ReleaseDeleted" "0 < slots s"
    "t = (upd_proc s i ?w)\<lparr>slots := slots s - 1\<rparr>"
    by (auto simp: exec_defs split: if_splits)
  note own = release_owned [OF inv_worker_ok [OF inv, of i]]
  have holds: "holds_slot (proc s i)" "\<not> holds_slot ?w"
    using own(1) st(1) by (auto simp: holds_slot_def)
  show ?thesis
  proof (rule pool_inv_update [OF inv, of t i ?w])
    show pt: "proc t = (proc s)(i := ?w)" using st by simp
    show "\<forall>j. mu t = Some j \<longleftrightarrow> in_section (spc (proc t j))"
      by (rule mutex_update [OF inv, of t i ?w]) (use st in auto)
    have "int (number detached t) = int (number detached s)"
      using counts_update(3) [OF inv pt] st by (simp add: detached_def counted_def)
    moreover have "spc (proc t j) = spc (proc s j)" for j using st by simp
    ultimately show "int (number detached t) < int (quarantineAdmissionLimit s)"
      if "\<exists>j. spc (proc t j) = SAdmitted"
      using that inv by (simp add: pool_inv_def)
    have "int (number (\<lambda>w. holds_slot w \<or> counted w) t) \<le>
        int (number (\<lambda>w. holds_slot w \<or> counted w) s)"
      using counts_update(4) [OF inv pt] holds by simp
    then show "int (number (\<lambda>w. holds_slot w \<or> counted w) t) <
        int (capacity s) + int (quarantineAdmissionLimit s)"
      using inv by (simp add: pool_inv_def)
    show "workers t = (if listed ?w then insert i (workers s) else workers s - {i})"
      using st inv by (auto simp: pool_inv_def)
  qed (use inv st own holds in \<open>auto simp: pool_inv_def counted_def of_nat_diff\<close>)
qed

lemma close_manager_inv:
  assumes inv: "pool_inv s" and step: "exec CloseManager s = Some t"
  shows "pool_inv t"
proof -
  have "proc t = proc s" and "\<And>P. number P t = number P s" "touched t = touched s"
    "mu t = mu s" "slots t = slots s" "quarantine t = quarantine s" "workers t = workers s"
    "capacity t = capacity s" "quarantineAdmissionLimit t = quarantineAdmissionLimit s"
    using step by (auto simp: exec_defs number_def touched_def split: if_splits)
  with inv show ?thesis by (simp add: pool_inv_def)
qed

lemma exec_inv:
  assumes inv: "pool_inv s" and step: "exec e s = Some t"
  shows "pool_inv t"
proof -
  consider i where "local_event e = Some i" | i where "starter_event e = Some i" "e \<noteq> StartTakeSlot i"
    | i where "e = StartTakeSlot i" | i where "e = ReleaseDelete i" | i where "e = ReleaseSlot i"
    | "e = CloseManager"
    by (cases e) (auto simp: starter_event_def)
  then show ?thesis
  proof cases
    case 3
    with step take_slot_inv [OF inv] take_slot_refused_inv [OF inv] show ?thesis
      by (cases "slots s < capacity s") auto
  qed (use step local_step_inv [OF inv] starter_step_inv [OF inv] release_delete_inv [OF inv]
      release_slot_inv [OF inv] close_manager_inv [OF inv] in auto)
qed

subsection \<open>The invariant holds in every reachable state\<close>

lemma newIsolatedStorageWith_Inr:
  "newIsolatedStorageWith m l = Inr s \<longleftrightarrow>
     1 \<le> m \<and> m \<le> 8 \<and> 1 \<le> l \<and> l \<le> 4 \<and>
     s = \<lparr> capacity = nat m, quarantineAdmissionLimit = nat l, mu = None, closed = False,
           root_open = True, slots = 0, quarantine = 0, signalFailure = False, workers = {},
           to_abort = {}, proc = (\<lambda>_. idle_worker) \<rparr>"
  by (auto simp: newIsolatedStorageWith_def DefaultMaxActiveStorageWorkers_def
      DefaultQuarantineAdmissionLimit_def)

lemma idle_worker_simps [simp]:
  "worker_ok idle_worker" "\<not> holds_slot idle_worker" "\<not> counted idle_worker"
  "\<not> detached idle_worker" "\<not> unreaped idle_worker" "spc idle_worker = SIdle"
  "release_st idle_worker = ReleaseNone"
  by (simp_all add: idle_worker_def worker_ok_def fresh_def holds_slot_def counted_def
      detached_def unreaped_def)

lemma pool_inv_init: "pool_init s \<Longrightarrow> pool_inv s"
  by (auto simp: pool_init_def newIsolatedStorageWith_Inr pool_inv_def touched_def number_def)

interpretation pool_system: inductive_invariant pool_init pool_step pool_inv
  by unfold_locales (auto intro: pool_inv_init exec_inv elim: pool_step.cases)

lemma run_reaches:
  "run es s = Some t \<Longrightarrow> reaches init pool_step s \<Longrightarrow> reaches init pool_step t"
  by (induction es s rule: run.induct)
     (auto split: option.splits intro: reaches_step pool_stepI)

lemma run_new:
  assumes "newIsolatedStorageWith m l = Inr s" "run es s = Some t"
  shows "reaches pool_init pool_step t"
proof -
  have "reaches pool_init pool_step s"
    using assms(1) by (intro reaches_init) (auto simp: pool_init_def)
  then show ?thesis by (rule run_reaches [OF assms(2)])
qed

lemmas run_inv = pool_system.reaches_inv [OF run_new]

lemma exec_limits:
  "exec e s = Some t \<Longrightarrow>
     capacity t = capacity s \<and> quarantineAdmissionLimit t = quarantineAdmissionLimit s"
  by (cases e) (auto simp: exec_defs split: if_splits start_outcome.splits)

lemma run_limits:
  "run es s = Some t \<Longrightarrow>
     capacity t = capacity s \<and> quarantineAdmissionLimit t = quarantineAdmissionLimit s"
  by (induction es s rule: run.induct) (auto split: option.splits dest!: exec_limits)

lemma number_mono:
  "finite {i. Q (proc s i)} \<Longrightarrow> (\<And>i. P (proc s i) \<Longrightarrow> Q (proc s i)) \<Longrightarrow> number P s \<le> number Q s"
  unfolding number_def by (rule card_mono) auto

lemma number_unreaped:
  assumes "pool_inv s"
  shows "int (number unreaped s) < int (capacity s) + int (quarantineAdmissionLimit s)"
proof -
  have "number unreaped s \<le> number (\<lambda>w. holds_slot w \<or> counted w) s"
    using inv_worker_ok [OF assms] by (intro number_mono finite_counts(4) assms live_accounted)
  then show ?thesis using assms by (simp add: pool_inv_def)
qed

subsection \<open>Draining\<close>

text \<open>A schedule that takes every request that has entered \<open>startRequestWorker\<close> to its end: the
  next event of each unfinished record and a rank that this event decreases.\<close>

definition drained :: "worker \<Rightarrow> bool" where
  "drained w \<longleftrightarrow> spc w \<in> {SIdle, SRefused} \<or> rpc w = RDone"

definition reap_event :: "nat \<Rightarrow> worker \<Rightarrow> pool_event" where
  "reap_event i w =
     (case rpc w of
        RWaiting \<Rightarrow> if child w = Running then ChildExit i else ReapWait i
      | RWaited \<Rightarrow> if apc w = AQuarantined then AbortSignal i SignalOK else ReapMark i
      | RMarked \<Rightarrow> ReapUncount i
      | RUncounted \<Rightarrow> ReapRelease i
      | _ \<Rightarrow> (case release_st w of
               ReleaseBegun \<Rightarrow> ReleaseDelete i
             | ReleaseDeleted \<Rightarrow> ReleaseSlot i
             | _ \<Rightarrow> ReapDone i))"

definition drain_event :: "nat \<Rightarrow> worker \<Rightarrow> pool_event" where
  "drain_event i w =
     (case spc w of
        SLocked \<Rightarrow> StartCheckSignal i
      | SSignalChecked \<Rightarrow> StartCheckQuarantine i
      | SAdmitted \<Rightarrow> StartTakeSlot i
      | SSlotTaken \<Rightarrow> StartUnlock i
      | SStarting \<Rightarrow> StartProcess i StartFails
      | SStartFailing \<Rightarrow> (if child w = Running then ChildExit i else StartFailedWait i)
      | SStarted \<Rightarrow> StartCheckRegister i
      | SRegistering \<Rightarrow> StartRegister i
      | _ \<Rightarrow> reap_event i w)"

definition drain_rank :: "worker \<Rightarrow> nat" where
  "drain_rank w =
     (case spc w of SLocked \<Rightarrow> 140 | SSignalChecked \<Rightarrow> 120 | SAdmitted \<Rightarrow> 100 | SSlotTaken \<Rightarrow> 80
      | SStarting \<Rightarrow> 60 | SStartFailing \<Rightarrow> 40 | SStarted \<Rightarrow> 40
      | SRegistering \<Rightarrow> 20 | _ \<Rightarrow> 0)
     + (if child w = Running then 1 else 0)
     + (case rpc w of RWaiting \<Rightarrow> 6 | RWaited \<Rightarrow> 5 | RMarked \<Rightarrow> 4 | RUncounted \<Rightarrow> 3 | RReleasing \<Rightarrow> 2
        | _ \<Rightarrow> 0)
     + (case release_st w of ReleaseNone \<Rightarrow> 3 | ReleaseBegun \<Rightarrow> 2 | ReleaseDeleted \<Rightarrow> 1
        | ReleaseDone \<Rightarrow> 0)
     + (if apc w = AQuarantined then 1 else 0)"

lemma mu_section: "pool_inv s \<Longrightarrow> mu s = Some i \<longleftrightarrow> in_section (spc (proc s i))"
  unfolding pool_inv_def by blast

lemma reap_event_enabled:
  assumes "owned_ok (proc s i)" "rpc (proc s i) \<noteq> RDone" "mu s = None"
    "0 < slots s \<or> release_st (proc s i) \<noteq> ReleaseDeleted"
    "spc (proc s i) = SRejected \<or> spc (proc s i) = SRegistered"
  shows "\<exists>t. exec (reap_event i (proc s i)) s = Some t \<and>
    proc t = (proc s)(i := proc t i) \<and> drain_rank (proc t i) < drain_rank (proc s i) \<and>
    spc (proc t i) = spc (proc s i)"
  using assms
  by (cases "rpc (proc s i)"; cases "release_st (proc s i)"; cases "child (proc s i)")
     (auto simp: reap_event_def exec_defs owned_ok_def reaper_ok_def unreaped_def drain_rank_def
       begin_release_def)

lemma drain_event_enabled:
  assumes inv: "pool_inv s" and nd: "\<not> drained (proc s i)" and mu: "mu s = None \<or> mu s = Some i"
  shows "\<exists>t. exec (drain_event i (proc s i)) s = Some t \<and>
    proc t = (proc s)(i := proc t i) \<and> drain_rank (proc t i) < drain_rank (proc s i) \<and>
    spc (proc t i) \<noteq> SIdle"
proof -
  note sec = mu_section [OF inv, of i]
  show ?thesis
  proof (cases "spc (proc s i) \<in> {SRejected, SRegistered}")
    case True
    then have own: "owned_ok (proc s i)"
      using inv_worker_ok [OF inv, of i] by (auto simp: worker_ok_def)
    have "0 < slots s" if "release_st (proc s i) = ReleaseDeleted"
      using slot_held_positive [OF inv, of i] that True by (auto simp: holds_slot_def)
    moreover have "mu s = None" using sec mu True by auto
    moreover have "rpc (proc s i) \<noteq> RDone" using nd by (simp add: drained_def)
    ultimately obtain t where "exec (reap_event i (proc s i)) s = Some t"
      "proc t = (proc s)(i := proc t i)" "drain_rank (proc t i) < drain_rank (proc s i)"
      "spc (proc t i) = spc (proc s i)"
      using reap_event_enabled [OF own] True by blast
    moreover have "drain_event i (proc s i) = reap_event i (proc s i)"
      using True by (auto simp: drain_event_def)
    ultimately show ?thesis using True by auto
  next
    case False
    note no = not_owned [OF inv_worker_ok [OF inv] False]
    with False nd mu sec inv_worker_ok [OF inv, of i] show ?thesis
      by (cases "spc (proc s i)")
         (auto simp: drained_def drain_event_def exec_defs drain_rank_def worker_ok_def fresh_def
           unreaped_def)
  qed
qed

lemma drain_step:
  assumes inv: "pool_inv s" and nd: "\<not> (\<forall>i. drained (proc s i))"
  shows "\<exists>i t. exec (drain_event i (proc s i)) s = Some t \<and> touched t = touched s \<and>
    (\<Sum>j\<in>touched t. drain_rank (proc t j)) < (\<Sum>j\<in>touched s. drain_rank (proc s j))"
proof -
  obtain i where i: "\<not> drained (proc s i)" "mu s = None \<or> mu s = Some i"
  proof (cases "mu s")
    case None
    with nd that show thesis by blast
  next
    case (Some j)
    with mu_section [OF inv] have "in_section (spc (proc s j))" by blast
    moreover from this have "rpc (proc s j) = RNone"
      using not_owned(1) [OF inv_worker_ok [OF inv], of j] by (auto simp: fresh_def)
    ultimately show thesis using that [of j] Some by (auto simp: drained_def)
  qed
  obtain t where t: "exec (drain_event i (proc s i)) s = Some t" "proc t = (proc s)(i := proc t i)"
    "drain_rank (proc t i) < drain_rank (proc s i)" "spc (proc t i) \<noteq> SIdle"
    using drain_event_enabled [OF inv i] by blast
  have old: "spc (proc s i) \<noteq> SIdle" using i(1) by (auto simp: drained_def)
  have other: "proc t j = proc s j" if "j \<noteq> i" for j
    by (subst t(2)) (simp add: that)
  have touched: "touched t = touched s"
    using other old t(4) by (auto simp: touched_def) (metis, metis)
  moreover have "(\<Sum>j\<in>touched s. drain_rank (proc t j)) < (\<Sum>j\<in>touched s. drain_rank (proc s j))"
  proof (rule sum_strict_mono_ex1)
    show "finite (touched s)" using inv by (simp add: pool_inv_def)
    show "\<forall>j\<in>touched s. drain_rank (proc t j) \<le> drain_rank (proc s j)"
      using other t(3) by (metis less_imp_le order_refl)
    show "\<exists>j\<in>touched s. drain_rank (proc t j) < drain_rank (proc s j)"
      using t(3) old by (auto simp: touched_def)
  qed
  ultimately show ?thesis using t(1) by (intro exI [of _ i] exI [of _ t]) simp
qed

lemma drain_event_not_start: "StartLock j \<noteq> drain_event i w"
  by (simp add: drain_event_def reap_event_def split: starter_pc.split reaper_pc.split release_state.split)

lemma drain_exists:
  assumes "pool_inv s"
  shows "\<exists>es t. run es s = Some t \<and> (\<forall>i. StartLock i \<notin> set es) \<and> pool_inv t \<and>
    (\<forall>i. drained (proc t i))"
  using assms
proof (induction "\<Sum>j\<in>touched s. drain_rank (proc s j)" arbitrary: s rule: less_induct)
  case less
  show ?case
  proof (cases "\<forall>i. drained (proc s i)")
    case True
    then have "run [] s = Some s \<and> (\<forall>i. StartLock i \<notin> set []) \<and> pool_inv s \<and> (\<forall>i. drained (proc s i))"
      using less.prems by simp
    then show ?thesis by blast
  next
    case False
    then obtain i u where u: "exec (drain_event i (proc s i)) s = Some u"
      "(\<Sum>j\<in>touched u. drain_rank (proc u j)) < (\<Sum>j\<in>touched s. drain_rank (proc s j))"
      using drain_step [OF less.prems] by blast
    obtain es t where "run es u = Some t" "\<forall>i. StartLock i \<notin> set es" "pool_inv t"
      "\<forall>i. drained (proc t i)"
      using less.hyps [OF u(2) exec_inv [OF less.prems u(1)]] by blast
    then have "run (drain_event i (proc s i) # es) s = Some t \<and>
        (\<forall>j. StartLock j \<notin> set (drain_event i (proc s i) # es)) \<and> pool_inv t \<and>
        (\<forall>i. drained (proc t i))"
      using u(1) drain_event_not_start by auto
    then show ?thesis by blast
  qed
qed

lemma drained_worker:
  assumes "worker_ok w" "drained w"
  shows "\<not> holds_slot w" "\<not> counted w" "\<not> unreaped w" "\<not> in_section (spc w)" "\<not> listed w"
  using assms
  by (cases "spc w"; auto simp: drained_def worker_ok_def owned_ok_def reaper_ok_def fresh_def
        holds_slot_def counted_def unreaped_def)+

lemma all_drained:
  assumes "pool_inv s" "\<forall>i. drained (proc s i)"
  shows "slots s = 0 \<and> quarantine s = 0 \<and> workers s = {} \<and> mu s = None \<and> (\<forall>i. \<not> unreaped (proc s i))"
proof -
  note d = drained_worker [OF inv_worker_ok [OF assms(1)]]
  have "number holds_slot s = 0" "number counted s = 0" "workers s = {}"
    using assms d by (auto simp: number_def pool_inv_def)
  moreover have "mu s \<noteq> Some i" for i using assms d(4) by (auto simp: pool_inv_def)
  ultimately show ?thesis using assms d(3) by (auto simp: pool_inv_def)
qed

subsection \<open>Closing and signal failures\<close>

text \<open>The requests in the worker table's history and the one about to enter it.\<close>

definition registered :: "pool \<Rightarrow> nat set" where
  "registered s = {i. spc (proc s i) = SRegistered}"

definition registering :: "pool \<Rightarrow> nat set" where
  "registering s = {i. spc (proc s i) = SRegistering}"

lemma stopped_exec:
  assumes "exec e s = Some t" "closed s \<or> signalFailure s"
  shows "closed s \<Longrightarrow> closed t" "signalFailure s \<Longrightarrow> signalFailure t"
    "registered s \<subseteq> registered t" "registered t \<subseteq> registered s \<union> registering s"
    "registering t \<subseteq> registering s" "workers t \<subseteq> workers s \<union> registering s"
  using assms
  by (cases e; auto simp: exec_defs begin_release_def registered_def registering_def
        split: if_splits start_outcome.splits)+

lemma stopped_run:
  assumes "run es s = Some t" "closed s \<or> signalFailure s"
  shows "(closed s \<longrightarrow> closed t) \<and> (signalFailure s \<longrightarrow> signalFailure t) \<and>
    registered s \<subseteq> registered t \<and> registered t \<subseteq> registered s \<union> registering s \<and>
    workers t \<subseteq> workers s \<union> registering s"
  using assms
proof (induction es arbitrary: s)
  case (Cons e es)
  then obtain u where u: "exec e s = Some u" "run es u = Some t" by (auto split: option.splits)
  note stopped_exec [OF u(1) Cons.prems(2)]
  with Cons.IH [OF u(2)] Cons.prems(2) show ?case by blast
qed simp

lemma registering_owner: "pool_inv s \<Longrightarrow> i \<in> registering s \<Longrightarrow> mu s = Some i"
  by (rule section_owner) (auto simp: registering_def)

definition handed_over :: "pool \<Rightarrow> bool" where
  "handed_over s \<longleftrightarrow> (closed s \<longrightarrow> workers s \<subseteq> to_abort s \<and> \<not> root_open s \<and> registering s = {})"

lemma handed_over_exec:
  assumes "exec e s = Some t" "pool_inv s" "handed_over s"
  shows "handed_over t"
proof (cases "e = CloseManager")
  case True
  with assms(1,3) registering_owner [OF assms(2)] show ?thesis
    by (auto simp: exec_defs handed_over_def registering_def split: if_splits)
next
  case False
  with assms(1,3) show ?thesis
    by (cases e) (auto simp: exec_defs handed_over_def registering_def begin_release_def
        split: if_splits start_outcome.splits)
qed

interpretation close_system:
  inductive_invariant pool_init pool_step "\<lambda>s. pool_inv s \<and> handed_over s"
proof unfold_locales
  show "pool_inv s \<and> handed_over s" if "pool_init s" for s
    using that pool_inv_init [OF that]
    by (auto simp: pool_init_def newIsolatedStorageWith_Inr handed_over_def)
  show "pool_inv t \<and> handed_over t" if "pool_inv s \<and> handed_over s" "pool_step s t" for s t
    using that by (auto elim!: pool_step.cases dest: handed_over_exec exec_inv)
qed

lemmas run_handed_over = close_system.reaches_inv [OF run_new, THEN conjunct2]

section \<open>The pool as a bounded set of slots\<close>

text \<open>The contract of the slot channel: a set of holders that a new holder enters only below the
  capacity and that only a holder leaves, one event at a time.\<close>

type_synonym slot_pool = "nat \<times> nat set"

datatype slot_event = SlotAcquire nat | SlotRelease nat

fun slot_exec :: "slot_event \<Rightarrow> slot_pool \<Rightarrow> slot_pool option" where
  "slot_exec (SlotAcquire i) (cap, H) =
     (if i \<notin> H \<and> card H < cap then Some (cap, insert i H) else None)"
| "slot_exec (SlotRelease i) (cap, H) = (if i \<in> H then Some (cap, H - {i}) else None)"

text \<open>The channel operations of the manager: the send in \<open>startRequestWorker\<close> that does not take
  its default branch, the receive after a failed start and the one in \<open>release\<close>.\<close>

definition slot_label :: "pool_event \<Rightarrow> pool \<Rightarrow> slot_event list" where
  "slot_label e s =
     (case e of
        StartTakeSlot i \<Rightarrow> if slots s < capacity s then [SlotAcquire i] else []
      | StartProcess i outcome \<Rightarrow> if outcome = StartFails then [SlotRelease i] else []
      | StartFailedWait i \<Rightarrow> [SlotRelease i]
      | ReleaseSlot i \<Rightarrow> [SlotRelease i]
      | _ \<Rightarrow> [])"

abbreviation slot_trace :: "pool_event list \<Rightarrow> pool \<Rightarrow> slot_event list" where
  "slot_trace \<equiv> labels exec slot_label"

definition held :: "pool \<Rightarrow> slot_pool" where
  "held s = (capacity s, {i. holds_slot (proc s i)})"

lemma held_update:
  assumes "proc t = (proc s)(i := w)"
  shows "{j. holds_slot (proc t j)} =
    (if holds_slot w then insert i {j. holds_slot (proc s j)} else {j. holds_slot (proc s j)} - {i})"
  using assms by auto

lemma held_same:
  assumes "proc t = (proc s)(i := proc t i)" "holds_slot (proc t i) = holds_slot (proc s i)"
  shows "{j. holds_slot (proc t j)} = {j. holds_slot (proc s j)}"
  using held_update [OF assms(1)] assms(2) by (auto simp: insert_absorb)

lemma held_acquire:
  assumes inv: "pool_inv s" and pt: "proc t = (proc s)(i := proc t i)" and cap: "capacity t = capacity s"
    and hold: "\<not> holds_slot (proc s i)" "holds_slot (proc t i)" and room: "slots s < capacity s"
  shows "slot_exec (SlotAcquire i) (held s) = Some (held t)"
proof -
  have "card {j. holds_slot (proc s j)} < capacity s"
    using inv room by (simp add: pool_inv_def number_def)
  then show ?thesis using held_update [OF pt] cap hold by (simp add: held_def)
qed

lemma held_release:
  assumes pt: "proc t = (proc s)(i := proc t i)" and cap: "capacity t = capacity s"
    and hold: "holds_slot (proc s i)" "\<not> holds_slot (proc t i)"
  shows "slot_exec (SlotRelease i) (held s) = Some (held t)"
  using held_update [OF pt] cap hold by (simp add: held_def)

lemma starter_label:
  assumes "exec e s = Some t" "starter_event e = Some i"
  shows "slot_label e s =
    (if slots t = slots s + 1 \<and> spc (proc t i) = SSlotTaken then [SlotAcquire i]
     else if spc (proc s i) \<in> {SStarting, SStartFailing} \<and> spc (proc t i) = SRefused then [SlotRelease i]
     else [])"
  using assms
  by (cases e)
     (auto simp: exec_defs starter_event_def slot_label_def split: if_splits start_outcome.splits)

lemma release_slot_label:
  assumes inv: "pool_inv s" and step: "exec (ReleaseSlot i) s = Some t"
  shows "slot_exec (SlotRelease i) (held s) = Some (held t)"
proof (rule held_release)
  from step have st: "release_st (proc s i) = ReleaseDeleted"
    "t = (upd_proc s i (proc s i\<lparr>release_st := ReleaseDone\<rparr>))\<lparr>slots := slots s - 1\<rparr>"
    by (auto simp: exec_defs split: if_splits)
  then show "proc t = (proc s)(i := proc t i)" "capacity t = capacity s" "\<not> holds_slot (proc t i)"
    by (simp_all add: holds_slot_def)
  show "holds_slot (proc s i)"
    using release_owned(1) [OF inv_worker_ok [OF inv, of i]] st(1) by (auto simp: holds_slot_def)
qed

lemma starter_slot_label:
  assumes inv: "pool_inv s" and step: "exec e s = Some t" "starter_event e = Some i"
  shows "execute slot_exec (slot_label e s) (held s) = Some (held t)"
proof -
  note pt = starter_step_frame [OF step]
  have rel: "release_st (proc s i) = ReleaseNone" "release_st (proc t i) = ReleaseNone"
    using not_owned(5) [OF inv_worker_ok [OF inv] pt(5)] starter_step_moves(2) [OF step] by simp_all
  consider (acquire) "slots t = slots s + 1" "spc (proc s i) = SAdmitted" "spc (proc t i) = SSlotTaken"
    | (release) "spc (proc s i) \<in> {SStarting, SStartFailing}" "spc (proc t i) = SRefused"
    | (keep) "slots t = slots s" "spc (proc t i) \<noteq> SRefused \<or> spc (proc s i) \<notin> {SStarting, SStartFailing}"
      "holds_slot (proc t i) = holds_slot (proc s i)"
    using starter_step_moves(1) [OF step] rel by (auto simp: holds_slot_def)
  then show ?thesis
  proof cases
    case acquire
    then have "slots s < capacity s"
      using step by (cases e) (auto simp: exec_defs starter_event_def split: if_splits start_outcome.splits)
    from held_acquire [OF inv pt(1,2) _ _ this] acquire rel starter_label [OF step] show ?thesis
      by (simp add: holds_slot_def)
  next
    case release
    with held_release [OF pt(1,2)] rel starter_label [OF step] show ?thesis
      by (auto simp: holds_slot_def)
  next
    case keep
    with held_same [OF pt(1)] pt(2) starter_label [OF step] show ?thesis
      by (auto simp: held_def)
  qed
qed

lemma event_slot_label:
  assumes inv: "pool_inv s" and step: "exec e s = Some t"
  shows "execute slot_exec (slot_label e s) (held s) = Some (held t)"
proof -
  consider (loc) i where "local_event e = Some i" | (starter) i where "starter_event e = Some i"
    | (delete) i where "e = ReleaseDelete i" | (slot) i where "e = ReleaseSlot i"
    | (closing) "e = CloseManager"
    by (cases e) (auto simp: starter_event_def)
  then show ?thesis
  proof cases
    case loc
    note pt = local_step_frame [OF step loc]
    have "slot_label e s = []" using loc by (cases e) (simp_all add: slot_label_def)
    moreover have "held t = held s"
      using held_same [OF conjunct1 [OF pt] local_step_counts(1) [OF step loc inv_worker_ok [OF inv]]] pt
      by (simp add: held_def)
    ultimately show ?thesis by simp
  next
    case delete
    then have pt: "proc t = (proc s)(i := proc t i)" and cap: "capacity t = capacity s"
      and same: "holds_slot (proc t i) = holds_slot (proc s i)"
      using step by (auto simp: exec_defs holds_slot_def split: if_splits)
    with held_same [OF pt same] delete show ?thesis by (simp add: held_def slot_label_def)
  next
    case closing
    with step show ?thesis by (auto simp: exec_defs held_def slot_label_def split: if_splits)
  qed (use step starter_slot_label [OF inv step] release_slot_label [OF inv] in
      \<open>auto simp: slot_label_def\<close>)
qed

interpretation slot_refinement: execution_refinement exec pool_inv held slot_exec slot_label
  by unfold_locales (auto intro: exec_inv event_slot_label)

lemma run_execute: "run es s = execute exec es s"
  by (induction es s rule: run.induct) (auto split: option.splits)

text \<open>A request sends into the slot channel at most once.\<close>

definition before_slot :: "worker \<Rightarrow> bool" where
  "before_slot w \<longleftrightarrow> spc w \<in> {SIdle, SLocked, SSignalChecked, SAdmitted}"

lemma before_slot_step:
  assumes "exec e s = Some t"
  shows "count_list (slot_label e s) (SlotAcquire i) + of_bool (before_slot (proc t i)) \<le>
    (of_bool (before_slot (proc s i)) :: nat)"
  using assms
  by (cases e) (auto simp: exec_defs slot_label_def before_slot_def begin_release_def
      split: if_splits start_outcome.splits)

lemma acquires_once:
  "execute exec es s = Some t \<Longrightarrow>
     count_list (slot_trace es s) (SlotAcquire i) \<le> of_bool (before_slot (proc s i))"
proof (induction es arbitrary: s)
  case (Cons e es)
  then obtain u where u: "exec e s = Some u" "execute exec es u = Some t"
    by (auto split: option.splits)
  with Cons.IH [OF u(2)] before_slot_step [OF u(1), of i] show ?case by simp
qed simp

section \<open>Properties of the pool\<close>

text \<open>C1. However the goroutines interleave, the storage children that are alive or not yet waited
  for never exceed \<open>maxWorkers + quarantineAdmissionLimit - 1\<close> (11 with the defaults): the bound
  the comment on the two constants promises.\<close>

theorem unreaped_children_bounded:
  assumes "newIsolatedStorageWith m l = Inr s" "run es s = Some t"
  shows "finite {i. unreaped (proc t i)} \<and> int (card {i. unreaped (proc t i)}) \<le> m + l - 1"
proof -
  note inv = run_inv [OF assms]
  have "{i. unreaped (proc t i)} \<subseteq> {i. holds_slot (proc t i) \<or> counted (proc t i)}"
    using live_accounted [OF inv_worker_ok [OF inv]] by blast
  then have "finite {i. unreaped (proc t i)}"
    using finite_counts(4) [OF inv] by (rule finite_subset)
  then show ?thesis
    using number_unreaped [OF inv] run_limits [OF assms(2)] assms(1)
    by (auto simp: number_def newIsolatedStorageWith_Inr)
qed

definition start_events :: "nat \<Rightarrow> pool_event list" where
  "start_events i =
     [StartLock i, StartCheckSignal i, StartCheckQuarantine i, StartTakeSlot i, StartUnlock i,
      StartProcess i StartOK, StartCheckRegister i, StartRegister i]"

definition abort_events :: "nat \<Rightarrow> pool_event list" where
  "abort_events i =
     [AbortEnter i, AbortMark i, AbortSignal i SignalOK, AbortRelease i, ReleaseDelete i,
      ReleaseSlot i, AbortDone i]"

lemmas witness_defs =
  newIsolatedStorageWith_Inr start_events_def abort_events_def exec_defs begin_release_def
  idle_worker_def unreaped_def holds_slot_def counted_def

theorem unreaped_children_bounded_witness:
  "\<exists>s t. newIsolatedStorageWith 1 2 = Inr s \<and>
     run (start_events 0 @ abort_events 0 @ start_events 1) s = Some t \<and>
     {i. unreaped (proc t i)} = {0, 1} \<and> int (card {i. unreaped (proc t i)}) \<le> 1 + 2 - 1"
proof -
  obtain s where s: "newIsolatedStorageWith 1 2 = Inr s" by (simp add: newIsolatedStorageWith_Inr)
  obtain t where t: "run (start_events 0 @ abort_events 0 @ start_events 1) s = Some t"
    using s by (simp add: witness_defs)
  have "unreaped (proc t i) \<longleftrightarrow> i = 0 \<or> i = 1" for i
    using s t by (auto simp: witness_defs split: if_split_asm)
  then have "{i. unreaped (proc t i)} = {0, 1}" by auto
  with s t unreaped_children_bounded [OF s t] show ?thesis by blast
qed

text \<open>C3. The slot channel never leaks and never overflows: in every reachable state its length is
  the number of requests that own a slot and stays within the capacity. The atomic \<open>quarantine\<close>
  counter is exactly the number of quarantined workers whose child has not been waited for, plus
  those whose reaper stands between \<open>Wait\<close> and its decrement; so it never falls below the number
  of quarantined children that are still alive or zombies, and stays far below the range of its
  \<open>int32\<close>.\<close>

theorem slot_and_quarantine_exact:
  assumes "newIsolatedStorageWith m l = Inr s" "run es s = Some t"
  shows "slots t = card {i. holds_slot (proc t i)} \<and> int (slots t) \<le> m \<and>
    quarantine t = int (card {i. quarantined (proc t i) \<and>
      (unreaped (proc t i) \<or> rpc (proc t i) \<in> {RWaited, RMarked})}) \<and>
    int (card {i. quarantined (proc t i) \<and> unreaped (proc t i)}) \<le> quarantine t \<and>
    quarantine t < m + l"
proof -
  note inv = run_inv [OF assms]
  note eq = counted_iff [OF inv_worker_ok [OF inv]]
  have "number counted t \<le> number (\<lambda>w. holds_slot w \<or> counted w) t"
    "number (\<lambda>w. quarantined w \<and> unreaped w) t \<le> number counted t"
    using eq by (auto intro!: number_mono finite_counts [OF inv])
  then show ?thesis
    using inv run_limits [OF assms(2)] assms(1)
    by (auto simp: pool_inv_def number_def newIsolatedStorageWith_Inr eq)
qed

theorem slot_and_quarantine_exact_witness:
  "\<exists>s t. newIsolatedStorageWith 2 1 = Inr s \<and>
     run (start_events 0 @ start_events 1 @ abort_events 0 @ [ChildExit 0, ReapWait 0]) s = Some t \<and>
     slots t = card {i. holds_slot (proc t i)} \<and> slots t = 1 \<and> quarantine t = 1 \<and>
     int (card {i. quarantined (proc t i) \<and> unreaped (proc t i)}) \<le> quarantine t"
proof -
  obtain s where s: "newIsolatedStorageWith 2 1 = Inr s" by (simp add: newIsolatedStorageWith_Inr)
  obtain t where t:
    "run (start_events 0 @ start_events 1 @ abort_events 0 @ [ChildExit 0, ReapWait 0]) s = Some t"
    using s by (simp add: witness_defs)
  have "slots t = 1" "quarantine t = 1" using s t by (auto simp: witness_defs)
  with s t slot_and_quarantine_exact [OF s t] show ?thesis by blast
qed

text \<open>C4. The pool implements its slot contract, execution by execution. The channel operations of
  any execution of the manager, read off in order (an acquisition for every send that succeeds, a
  release for every receive, each under the name of its request), form an execution of the bounded
  set that starts empty and ends in the actual set of slot holders: every acquisition happens below
  the capacity and by a request that holds no slot, every release by the request that holds it. No
  request acquires twice.\<close>

theorem pool_refines_slot_contract:
  assumes "newIsolatedStorageWith m l = Inr s" "run es s = Some t"
  shows "execute slot_exec (slot_trace es s) (nat m, {}) = Some (held t) \<and>
    count_list (slot_trace es s) (SlotAcquire i) \<le> 1"
proof
  have "held s = (nat m, {})" using assms(1) by (simp add: held_def newIsolatedStorageWith_Inr)
  moreover have "pool_inv s" using assms(1) by (intro pool_inv_init) (auto simp: pool_init_def)
  ultimately show "execute slot_exec (slot_trace es s) (nat m, {}) = Some (held t)"
    using slot_refinement.refines_execution [of s es t] assms(2) by (simp add: run_execute)
  show "count_list (slot_trace es s) (SlotAcquire i) \<le> 1"
    using acquires_once [of es s t i] assms(2)
    by (cases "before_slot (proc s i)") (simp_all add: run_execute)
qed

theorem pool_refines_slot_contract_witness:
  "\<exists>s t. newIsolatedStorageWith 1 2 = Inr s \<and>
     run (start_events 7 @ abort_events 7 @ start_events 8) s = Some t \<and>
     execute slot_exec [SlotAcquire 7, SlotRelease 7, SlotAcquire 8] (1, {}) = Some (held t)"
proof -
  obtain s where s: "newIsolatedStorageWith 1 2 = Inr s" by (simp add: newIsolatedStorageWith_Inr)
  obtain t where t: "run (start_events 7 @ abort_events 7 @ start_events 8) s = Some t"
    using s by (simp add: witness_defs)
  have "slot_trace (start_events 7 @ abort_events 7 @ start_events 8) s =
      [SlotAcquire 7, SlotRelease 7, SlotAcquire 8]"
    using s by (simp add: witness_defs slot_label_def)
  with s t pool_refines_slot_contract [OF s t] show ?thesis by simp
qed

text \<open>C2. The manager never wedges: from every reachable state the requests already inside can be
  driven to their end, without admitting another request, until no slot, no quarantine count, no
  registered worker, no unreaped child and no lock remain.\<close>

theorem pool_drains:
  assumes "newIsolatedStorageWith m l = Inr s" "run es s = Some t"
  shows "\<exists>es' u. run es' t = Some u \<and> (\<forall>i. StartLock i \<notin> set es') \<and> slots u = 0 \<and>
    quarantine u = 0 \<and> workers u = {} \<and> mu u = None \<and> (\<forall>i. \<not> unreaped (proc u i))"
proof -
  obtain es' u where u: "run es' t = Some u" "\<forall>i. StartLock i \<notin> set es'" "pool_inv u"
    "\<forall>i. drained (proc u i)"
    using drain_exists [OF run_inv [OF assms]] by blast
  then show ?thesis using all_drained [OF u(3,4)] by blast
qed

theorem pool_drains_witness:
  "\<exists>s t. newIsolatedStorageWith 2 1 = Inr s \<and>
     run (start_events 0 @ [AbortEnter 0, AbortMark 0]) s = Some t \<and> slots t = 1 \<and>
     (\<exists>es' u. run es' t = Some u \<and> slots u = 0 \<and> quarantine u = 0)"
proof -
  obtain s where s: "newIsolatedStorageWith 2 1 = Inr s" by (simp add: newIsolatedStorageWith_Inr)
  obtain t where t: "run (start_events 0 @ [AbortEnter 0, AbortMark 0]) s = Some t"
    using s by (simp add: witness_defs)
  have "slots t = 1" using s t by (auto simp: witness_defs)
  with s t pool_drains [OF s t] show ?thesis by blast
qed

text \<open>C37. Once the manager is closed, no request is ever registered again, whatever was in flight.
  Once a kill signal has failed, at most one more is: the request that was already past its check
  and holds \<open>manager.mu\<close> (\<open>signalFailure\<close> is stored without that mutex). Otherwise the worker table
  only shrinks, and both flags stay set.\<close>

theorem no_registration_after_stop:
  assumes "newIsolatedStorageWith m l = Inr s" "run es s = Some t" "run es' t = Some u"
    and "closed t \<or> signalFailure t"
  shows "registered t \<subseteq> registered u \<and>
    registered u - registered t \<subseteq> {i. \<not> closed t \<and> mu t = Some i \<and> spc (proc t i) = SRegistering} \<and>
    workers u - workers t \<subseteq> {i. \<not> closed t \<and> mu t = Some i \<and> spc (proc t i) = SRegistering} \<and>
    (closed t \<longrightarrow> closed u) \<and> (signalFailure t \<longrightarrow> signalFailure u)"
proof -
  have "registering t \<subseteq> {i. \<not> closed t \<and> mu t = Some i \<and> spc (proc t i) = SRegistering}"
    using registering_owner [OF run_inv [OF assms(1,2)]] run_handed_over [OF assms(1,2)]
    by (auto simp: handed_over_def registering_def)
  with stopped_run [OF assms(3,4)] show ?thesis by blast
qed

theorem no_registration_after_stop_witness:
  "\<exists>s t u. newIsolatedStorageWith 2 1 = Inr s \<and>
     run (start_events 0 @ take 7 (start_events 1) @ [AbortEnter 0, AbortMark 0, AbortSignal 0 SignalError])
       s = Some t \<and> signalFailure t \<and>
     run [StartRegister 1, StartLock 2, StartCheckSignal 2] t = Some u \<and>
     registered u = {0, 1} \<and> spc (proc u 2) = SRefused \<and>
     registered u - registered t \<subseteq> {i. \<not> closed t \<and> mu t = Some i \<and> spc (proc t i) = SRegistering}"
proof -
  let ?es = "start_events 0 @ take 7 (start_events 1) @
    [AbortEnter 0, AbortMark 0, AbortSignal 0 SignalError]"
  obtain s where s: "newIsolatedStorageWith 2 1 = Inr s" by (simp add: newIsolatedStorageWith_Inr)
  obtain t where t: "run ?es s = Some t" using s by (simp add: witness_defs)
  have f: "signalFailure t" using s t by (auto simp: witness_defs)
  obtain u where u: "run [StartRegister 1, StartLock 2, StartCheckSignal 2] t = Some u"
    using s t by (auto simp: witness_defs)
  have "spc (proc u i) = SRegistered \<longleftrightarrow> i = 0 \<or> i = 1" for i
    using s t u by (auto simp: witness_defs split: if_split_asm)
  then have "registered u = {0, 1}" by (auto simp: registered_def)
  moreover have "spc (proc u 2) = SRefused" using s t u by (auto simp: witness_defs)
  ultimately show ?thesis using s t f u no_registration_after_stop [OF s t u] by blast
qed

text \<open>C38. Every worker still registered when the manager is closed is in the snapshot \<open>close\<close>
  aborts, and the root directory is closed: no worker escapes the shutdown.\<close>

theorem close_hands_over_all_workers:
  assumes "newIsolatedStorageWith m l = Inr s" "run es s = Some t" "closed t"
  shows "workers t \<subseteq> to_abort t \<and> \<not> root_open t"
  using run_handed_over [OF assms(1,2)] assms(3) by (simp add: handed_over_def)

theorem close_hands_over_all_workers_witness:
  "\<exists>s t. newIsolatedStorageWith 2 1 = Inr s \<and>
     run (start_events 0 @ take 6 (start_events 1) @ [CloseManager, StartCheckRegister 1]) s = Some t \<and>
     closed t \<and> workers t = {0} \<and> workers t \<subseteq> to_abort t"
proof -
  obtain s where s: "newIsolatedStorageWith 2 1 = Inr s" by (simp add: newIsolatedStorageWith_Inr)
  obtain t where t:
    "run (start_events 0 @ take 6 (start_events 1) @ [CloseManager, StartCheckRegister 1]) s = Some t"
    using s by (simp add: witness_defs)
  have "closed t" "workers t = {0}" using s t by (auto simp: witness_defs)
  with s t close_hands_over_all_workers [OF s t] show ?thesis by blast
qed

text \<open>C39. \<open>abort\<close> signals a child only through a pidfd that is still open and before the reaper has
  marked the process finished, so \<open>signalFailure\<close> is raised by nothing but an error of the signal
  call itself.\<close>

theorem signal_targets_open_pidfd:
  assumes "newIsolatedStorageWith m l = Inr s" "run es s = Some t"
    and "exec (AbortSignal i r) t = Some u"
  shows "pidfd_open (proc t i) \<and> \<not> finished (proc t i) \<and>
    (signalFailure u \<longleftrightarrow> signalFailure t \<or> r = SignalError)"
proof -
  have apc: "apc (proc t i) = AQuarantined" using assms(3) by (auto simp: exec_defs split: if_splits)
  then have "owned_ok (proc t i)"
    using worker_owned(1) [OF inv_worker_ok [OF run_inv [OF assms(1,2)]]] by auto
  then have "pidfd_open (proc t i) \<and> \<not> finished (proc t i)"
    using apc by (auto simp: owned_ok_def aborter_ok_def)
  then show ?thesis using assms(3) apc by (auto simp: exec_defs)
qed

theorem signal_targets_open_pidfd_witness:
  "\<exists>s t u. newIsolatedStorageWith 2 1 = Inr s \<and>
     run (start_events 0 @ [ChildExit 0, ReapWait 0, AbortEnter 0, AbortMark 0]) s = Some t \<and>
     exec (AbortSignal 0 SignalESRCH) t = Some u \<and> pidfd_open (proc t 0) \<and> \<not> signalFailure u"
proof -
  obtain s where s: "newIsolatedStorageWith 2 1 = Inr s" by (simp add: newIsolatedStorageWith_Inr)
  obtain t where
    t: "run (start_events 0 @ [ChildExit 0, ReapWait 0, AbortEnter 0, AbortMark 0]) s = Some t"
    using s by (simp add: witness_defs)
  obtain u where u: "exec (AbortSignal 0 SignalESRCH) t = Some u" and n: "\<not> signalFailure t"
    using s t by (auto simp: witness_defs)
  with s t signal_targets_open_pidfd [OF s t u] show ?thesis by auto
qed

end
