(* ===== verification/Go_Strings.thy ===== *)
theory Go_Strings
  imports Go_Json
begin

text \<open>
  The functions of Go's \<open>strings\<close> package and the based integer parsing of \<open>strconv\<close> that the
  configuration and request parsers use: \<open>Fields\<close>, \<open>TrimSpace\<close>, \<open>TrimSuffix\<close>, \<open>Cut\<close>,
  \<open>SplitN\<close> at one space, \<open>EqualFold\<close> against ASCII text and \<open>ParseUint\<close> in bases up to 16.
\<close>

section \<open>White space\<close>

text \<open>The length of the white-space rune (\<open>unicode.IsSpace\<close>) at the front of a string, 0 when there
  is none. Its multi-byte runes start with bytes that never continue another rune, so scanning
  byte by byte finds the same boundaries as scanning rune by rune.\<close>

definition wide_spaces :: "string list" where
  "wide_spaces =
     map (map char_of)
       ([[0xC2, 0x85], [0xC2, 0xA0], [0xE1, 0x9A, 0x80]]
        @ map (\<lambda>b. [0xE2, 0x80, b]) [0x80, 0x81, 0x82, 0x83, 0x84, 0x85, 0x86, 0x87, 0x88, 0x89, 0x8A, 0xA8, 0xA9, 0xAF]
        @ [[0xE2, 0x81, 0x9F], [0xE3, 0x80, 0x80 :: nat]])"

definition ascii_space :: "char \<Rightarrow> bool" where
  "ascii_space c \<longleftrightarrow> c = CHR 0x20 \<or> 9 \<le> (of_char c :: nat) \<and> of_char c \<le> (13 :: nat)"

definition space_len :: "string \<Rightarrow> nat" where
  "space_len s =
     (case s of
        [] \<Rightarrow> 0
      | c # _ \<Rightarrow>
          if ascii_space c then 1
          else case find (\<lambda>w. prefix w s) wide_spaces of None \<Rightarrow> 0 | Some w \<Rightarrow> length w)"

function fields_from :: "string \<Rightarrow> string \<Rightarrow> string list" where
  "fields_from cur s =
     (let flush = (if cur = [] then [] else [cur]) in
      if s = [] then flush
      else if space_len s = 0 then fields_from (cur @ [hd s]) (tl s)
      else flush @ fields_from [] (drop (space_len s) s))"
  by pat_completeness auto
termination
  by (relation "measure (\<lambda>(cur, s). length s)") auto

declare fields_from.simps [simp del]

definition strings_Fields :: "string \<Rightarrow> string list" where
  "strings_Fields s = fields_from [] s"

function trim_left :: "string \<Rightarrow> string" where
  "trim_left s = (if s = [] \<or> space_len s = 0 then s else trim_left (drop (space_len s) s))"
  by pat_completeness auto
termination
  by (relation "measure length") auto

declare trim_left.simps [simp del]

definition space_suffix :: "string \<Rightarrow> nat option" where
  "space_suffix s =
     find (\<lambda>n. n \<le> length s \<and> space_len (drop (length s - n) s) = n) [1, 2, 3]"

lemma space_suffix_pos: "space_suffix s = Some n \<Longrightarrow> 0 < n \<and> n \<le> length s"
  by (auto simp: space_suffix_def split: if_splits)

function trim_right :: "string \<Rightarrow> string" where
  "trim_right s = (case space_suffix s of None \<Rightarrow> s | Some n \<Rightarrow> trim_right (take (length s - n) s))"
  by pat_completeness auto
termination
  by (relation "measure length") (auto dest!: space_suffix_pos)

declare trim_right.simps [simp del]

definition strings_TrimSpace :: "string \<Rightarrow> string" where
  "strings_TrimSpace s = trim_right (trim_left s)"

lemma space_len_ascii:
  assumes "of_char c < (0x80 :: nat)"
  shows "space_len (c # s) = (if ascii_space c then 1 else 0)"
proof -
  have "hd w \<noteq> c \<and> w \<noteq> []" if "w \<in> set wide_spaces" for w
    using that assms by (auto simp: wide_spaces_def)
  then have "find (\<lambda>w. prefix w (c # s)) wide_spaces = None"
    by (force simp: find_None_iff prefix_Cons)
  then show ?thesis by (simp add: space_len_def)
qed

lemma fields_from_ascii:
  "fields_from cur [] = (if cur = [] then [] else [cur])"
  "of_char c < (0x80 :: nat) \<Longrightarrow> fields_from cur (c # s) =
     (if ascii_space c then (if cur = [] then [] else [cur]) @ fields_from [] s else fields_from (cur @ [c]) s)"
  by (subst fields_from.simps, simp add: Let_def space_len_ascii)+

text \<open>ASCII text that neither starts nor ends with white space is its own trimmed form.\<close>

lemma trim_space_ascii:
  assumes "\<forall>c \<in> set s. of_char c < (0x80 :: nat)" "s \<noteq> [] \<longrightarrow> \<not> ascii_space (hd s) \<and> \<not> ascii_space (last s)"
  shows "strings_TrimSpace s = s"
proof (cases "s = []")
  case True
  then show ?thesis
    by (simp add: strings_TrimSpace_def trim_left.simps trim_right.simps space_suffix_def space_len_def)
next
  case False
  have sl: "space_len t \<le> 1" if "set t \<subseteq> set s" for t
    using that assms(1) by (cases t) (auto simp: space_len_ascii space_len_def [of "[]"])
  have "trim_left s = s"
    using assms False by (cases s) (auto simp: trim_left.simps space_len_ascii)
  moreover have "space_len (drop (length s - n) s) \<noteq> n" if "n \<in> {1, 2, 3}" for n
  proof (cases "n = 1")
    case True
    have "drop (length s - 1) s = [last s]" using False by (cases s rule: rev_cases) auto
    then show ?thesis using True assms False by (simp add: space_len_ascii)
  next
    case False
    then show ?thesis using that sl [of "drop (length s - n) s"] set_drop_subset [of "length s - n" s] by auto
  qed
  then have "space_suffix s = None" by (auto simp: space_suffix_def find_None_iff)
  ultimately show ?thesis by (simp add: strings_TrimSpace_def trim_right.simps)
qed

section \<open>Cutting and splitting\<close>

definition strings_TrimSuffix :: "string \<Rightarrow> string \<Rightarrow> string" where
  "strings_TrimSuffix s suf = (if suffix suf s then take (length s - length suf) s else s)"

definition strings_TrimPrefix :: "string \<Rightarrow> string \<Rightarrow> string" where
  "strings_TrimPrefix s pre = (if prefix pre s then drop (length pre) s else s)"

text \<open>\<open>Cut\<close> at one byte: the text before, the text after, or nothing when the byte is absent.\<close>

definition strings_Cut :: "char \<Rightarrow> string \<Rightarrow> (string \<times> string) option" where
  "strings_Cut d s =
     (if d \<in> set s then Some (takeWhile (\<lambda>c. c \<noteq> d) s, tl (dropWhile (\<lambda>c. c \<noteq> d) s)) else None)"

lemma strings_Cut_Some: "strings_Cut d s = Some (a, b) \<longleftrightarrow> s = a @ d # b \<and> d \<notin> set a"
proof
  assume "strings_Cut d s = Some (a, b)"
  then have d: "d \<in> set s" "a = takeWhile (\<lambda>c. c \<noteq> d) s" "b = tl (dropWhile (\<lambda>c. c \<noteq> d) s)"
    by (auto simp: strings_Cut_def split: if_splits)
  have "dropWhile (\<lambda>c. c \<noteq> d) s \<noteq> []" using d(1) by (auto simp: dropWhile_eq_Nil_conv)
  moreover from this have "hd (dropWhile (\<lambda>c. c \<noteq> d) s) = d" using hd_dropWhile by blast
  ultimately have "dropWhile (\<lambda>c. c \<noteq> d) s = d # b" using d(3) by (metis list.collapse)
  then show "s = a @ d # b \<and> d \<notin> set a"
    using d(2) takeWhile_dropWhile_id [of "\<lambda>c. c \<noteq> d" s] by (auto dest: set_takeWhileD)
next
  assume "s = a @ d # b \<and> d \<notin> set a"
  then have "s = a @ d # b" "\<forall>c \<in> set a. c \<noteq> d" by auto
  then show "strings_Cut d s = Some (a, b)"
    by (simp add: strings_Cut_def takeWhile_append2 dropWhile_append2 del: takeWhile_append dropWhile_append)
qed

definition ascii_lower :: "char \<Rightarrow> char" where
  "ascii_lower c = (if 65 \<le> (of_char c :: nat) \<and> of_char c \<le> (90 :: nat) then char_of ((of_char c :: nat) + 32) else c)"

text \<open>\<open>EqualFold\<close> against a text without the letters k and s, whose only simple case variants are the
  two ASCII cases.\<close>

definition EqualFold_ascii :: "string \<Rightarrow> string \<Rightarrow> bool" where
  "EqualFold_ascii s t \<longleftrightarrow> map ascii_lower s = map ascii_lower t"

section \<open>Integers in other bases\<close>

definition base_digit :: "nat \<Rightarrow> char \<Rightarrow> nat option" where
  "base_digit base c =
     (let n = of_char c :: nat;
          d = (if 48 \<le> n \<and> n \<le> 57 then n - 48
               else if 97 \<le> n \<and> n \<le> 122 then n - 87
               else if 65 \<le> n \<and> n \<le> 90 then n - 55
               else base)
      in if d < base then Some d else None)"

definition strconv_ParseUintBase :: "string \<Rightarrow> nat \<Rightarrow> nat \<Rightarrow> nat option" where
  "strconv_ParseUintBase s base bitSize =
     (if s = [] then None
      else case those (map (base_digit base) s) of
        None \<Rightarrow> None
      | Some ds \<Rightarrow>
          let v = foldl (\<lambda>a d. a * base + d) 0 ds in if v < 2 ^ bitSize then Some v else None)"

end
