(* ===== verification/Go_Http.thy ===== *)
theory Go_Http
  imports Go_Json Go_Strings
begin

text \<open>
  The parts of Go's \<open>net/http\<close>, \<open>net/url\<close>, \<open>net/textproto\<close> and \<open>mime\<close> that the public portal uses:
  headers with their canonical keys, the \<open>ResponseWriter\<close> interface and the server's own response,
  query strings, media types, conditional requests and byte ranges.
\<close>

section \<open>Headers\<close>

type_synonym header = "string \<rightharpoonup> string list"

definition token_byte :: "char \<Rightarrow> bool" where
  "token_byte c \<longleftrightarrow>
     (let n = of_char c :: nat in
      48 \<le> n \<and> n \<le> 57 \<or> 65 \<le> n \<and> n \<le> 90 \<or> 97 \<le> n \<and> n \<le> 122 \<or>
      n \<in> set [33, 35, 36, 37, 38, 39, 42, 43, 45, 46, 94, 95, 96, 124, 126])"

definition ascii_upper :: "char \<Rightarrow> char" where
  "ascii_upper c = (if 97 \<le> (of_char c :: nat) \<and> of_char c \<le> (122 :: nat) then char_of ((of_char c :: nat) - 32) else c)"

fun canonical_bytes :: "bool \<Rightarrow> string \<Rightarrow> string" where
  "canonical_bytes upper [] = []"
| "canonical_bytes upper (c # cs) =
     (if upper then ascii_upper c else ascii_lower c) # canonical_bytes (c = CHR ''-'') cs"

definition CanonicalHeaderKey :: "string \<Rightarrow> string" where
  "CanonicalHeaderKey k = (if list_all token_byte k then canonical_bytes True k else k)"

definition header_Values :: "header \<Rightarrow> string \<Rightarrow> string list" where
  "header_Values h k = (case h (CanonicalHeaderKey k) of None \<Rightarrow> [] | Some vs \<Rightarrow> vs)"

definition header_Get :: "header \<Rightarrow> string \<Rightarrow> string" where
  "header_Get h k = (case header_Values h k of [] \<Rightarrow> [] | v # _ \<Rightarrow> v)"

definition header_Set :: "string \<Rightarrow> string \<Rightarrow> header \<Rightarrow> header" where
  "header_Set k v h = h(CanonicalHeaderKey k \<mapsto> [v])"

definition header_Del :: "string \<Rightarrow> header \<Rightarrow> header" where
  "header_Del k h = h(CanonicalHeaderKey k := None)"

lemma header_Get_Set [simp]:
  "header_Get (header_Set k v h) j = (if CanonicalHeaderKey j = CanonicalHeaderKey k then v else header_Get h j)"
  by (simp add: header_Get_def header_Values_def header_Set_def)

lemma header_Get_Del [simp]:
  "header_Get (header_Del k h) j = (if CanonicalHeaderKey j = CanonicalHeaderKey k then [] else header_Get h j)"
  by (simp add: header_Get_def header_Values_def header_Del_def)

section \<open>Requests and response writers\<close>

record request =
  req_Method :: string
  req_Path :: string
  req_RawQuery :: string
  req_Header :: header

datatype http_error =
    ErrBodyNotAllowed
  | ErrContentLength
  | ConnectionFailed
  | errDownloadDeadlineUnavailable
  | errDownloadWriteIdleExceeded

text \<open>\<open>http.ResponseWriter\<close>: \<open>rw_setHeader\<close> stands for mutating the map that \<open>Header()\<close> returns.\<close>

record 'c responseWriter =
  rw_Header :: "'c \<Rightarrow> header"
  rw_setHeader :: "header \<Rightarrow> 'c \<Rightarrow> 'c"
  rw_WriteHeader :: "nat \<Rightarrow> 'c \<Rightarrow> 'c"
  rw_Write :: "bytes \<Rightarrow> 'c \<Rightarrow> (nat \<times> http_error option) \<times> 'c"

definition rw_Set :: "'c responseWriter \<Rightarrow> string \<Rightarrow> string \<Rightarrow> 'c \<Rightarrow> 'c" where
  "rw_Set W k v c = rw_setHeader W (header_Set k v (rw_Header W c)) c"

definition rw_Del :: "'c responseWriter \<Rightarrow> string \<Rightarrow> 'c \<Rightarrow> 'c" where
  "rw_Del W k c = rw_setHeader W (header_Del k (rw_Header W c)) c"

subsection \<open>The server's response\<close>

record 'n response =
  rsp_header :: header
  rsp_committed :: "(nat \<times> header) option"
  rsp_contentLength :: "nat option"
  rsp_written :: nat
  rsp_body :: bytes
  rsp_net :: 'n

definition StatusOK :: nat where "StatusOK = 200"
definition StatusNoContent :: nat where "StatusNoContent = 204"
definition StatusPartialContent :: nat where "StatusPartialContent = 206"
definition StatusNotModified :: nat where "StatusNotModified = 304"
definition StatusPermanentRedirect :: nat where "StatusPermanentRedirect = 308"
definition StatusBadRequest :: nat where "StatusBadRequest = 400"
definition StatusUnauthorized :: nat where "StatusUnauthorized = 401"
definition StatusNotFound :: nat where "StatusNotFound = 404"
definition StatusMethodNotAllowed :: nat where "StatusMethodNotAllowed = 405"
definition StatusPreconditionFailed :: nat where "StatusPreconditionFailed = 412"
definition StatusRequestEntityTooLarge :: nat where "StatusRequestEntityTooLarge = 413"
definition StatusRequestedRangeNotSatisfiable :: nat where "StatusRequestedRangeNotSatisfiable = 416"
definition StatusInternalServerError :: nat where "StatusInternalServerError = 500"
definition StatusServiceUnavailable :: nat where "StatusServiceUnavailable = 503"

lemmas status_codes =
  StatusOK_def StatusNoContent_def StatusPartialContent_def StatusNotModified_def StatusPermanentRedirect_def
  StatusBadRequest_def StatusUnauthorized_def StatusNotFound_def StatusMethodNotAllowed_def
  StatusPreconditionFailed_def StatusRequestEntityTooLarge_def StatusRequestedRangeNotSatisfiable_def
  StatusInternalServerError_def StatusServiceUnavailable_def

definition bodyAllowedForStatus :: "nat \<Rightarrow> bool" where
  "bodyAllowedForStatus s \<longleftrightarrow> \<not> (100 \<le> s \<and> s \<le> 199) \<and> s \<noteq> 204 \<and> s \<noteq> 304"

text \<open>\<open>WriteHeader\<close> takes a snapshot of the header at its first call; later calls only log.\<close>

definition response_WriteHeader :: "nat \<Rightarrow> 'n response \<Rightarrow> 'n response" where
  "response_WriteHeader code w =
     (if rsp_committed w \<noteq> None then w
      else w\<lparr>rsp_committed := Some (code, rsp_header w),
             rsp_contentLength :=
               (case strconv_ParseInt (header_Get (rsp_header w) ''Content-Length'') 64 of
                  Some v \<Rightarrow> if 0 \<le> v then Some (nat v) else None
                | None \<Rightarrow> None)\<rparr>)"

text \<open>The connection is a parameter: how much of a body write it accepts, and whether it fails. A
  response to \<open>HEAD\<close> has no body whatever the handler writes.\<close>

definition response_Write ::
    "bool \<Rightarrow> (bytes \<Rightarrow> 'n \<Rightarrow> (nat \<times> http_error option) \<times> 'n) \<Rightarrow> bytes \<Rightarrow> 'n response \<Rightarrow>
     (nat \<times> http_error option) \<times> 'n response" where
  "response_Write isHead conn data w0 =
     (let w = response_WriteHeader StatusOK w0 in
      if data = [] then ((0, None), w)
      else if \<not> (case rsp_committed w of Some (s, _) \<Rightarrow> bodyAllowedForStatus s | None \<Rightarrow> True)
      then ((0, Some ErrBodyNotAllowed), w)
      else let w1 = w\<lparr>rsp_written := rsp_written w + length data\<rparr> in
        if (case rsp_contentLength w1 of Some n \<Rightarrow> n < rsp_written w1 | None \<Rightarrow> False)
        then ((0, Some ErrContentLength), w1)
        else if isHead then ((length data, None), w1)
        else (case conn data (rsp_net w1) of
                ((n, e), c) \<Rightarrow> ((n, e), w1\<lparr>rsp_body := rsp_body w1 @ take n data, rsp_net := c\<rparr>)))"

definition response_rw ::
    "bool \<Rightarrow> (bytes \<Rightarrow> 'n \<Rightarrow> (nat \<times> http_error option) \<times> 'n) \<Rightarrow> 'n response responseWriter" where
  "response_rw isHead conn =
     \<lparr> rw_Header = rsp_header, rw_setHeader = (\<lambda>h w. w\<lparr>rsp_header := h\<rparr>),
       rw_WriteHeader = response_WriteHeader, rw_Write = response_Write isHead conn \<rparr>"

definition new_response :: "'n \<Rightarrow> 'n response" where
  "new_response c =
     \<lparr> rsp_header = Map.empty, rsp_committed = None, rsp_contentLength = None, rsp_written = 0, rsp_body = [],
       rsp_net = c \<rparr>"

section \<open>Query strings\<close>

text \<open>\<open>unescape\<close> in the mode of a query component.\<close>

fun QueryUnescape :: "string \<Rightarrow> string option" where
  "QueryUnescape [] = Some []"
| "QueryUnescape (c # s) =
     (if c = CHR ''%''
      then (case s of
              a # b # r \<Rightarrow>
                (case (hex_val a, hex_val b) of
                   (Some x, Some y) \<Rightarrow> map_option ((#) (char_of (16 * x + y))) (QueryUnescape r)
                 | _ \<Rightarrow> None)
            | _ \<Rightarrow> None)
      else map_option ((#) (if c = CHR ''+'' then CHR '' '' else c)) (QueryUnescape s))"

definition cut_or_all :: "char \<Rightarrow> string \<Rightarrow> string \<times> string" where
  "cut_or_all d s = (case strings_Cut d s of None \<Rightarrow> (s, []) | Some ab \<Rightarrow> ab)"

text \<open>One \<open>&\<close>-separated piece: an error, or the pair it adds (an empty piece adds none).\<close>

definition query_piece :: "string \<Rightarrow> unit + (string \<times> string) list" where
  "query_piece piece =
     (if CHR '';'' \<in> set piece then Inl ()
      else if piece = [] then Inr []
      else case cut_or_all (CHR ''='') piece of
        (k, v) \<Rightarrow>
          (case (QueryUnescape k, QueryUnescape v) of
             (Some k', Some v') \<Rightarrow> Inr [(k', v')]
           | _ \<Rightarrow> Inl ()))"

text \<open>The pairs of a query in order; an error anywhere, or more than 10,000 pieces, is an error.\<close>

definition url_ParseQuery :: "string \<Rightarrow> unit + (string \<times> string) list" where
  "url_ParseQuery query =
     (let pieces = map query_piece (splitOn (CHR ''&'') query) in
      if 10000 < length pieces \<or> list_ex isl pieces then Inl () else Inr (concat (map projr pieces)))"

section \<open>Media types\<close>

definition tspecial :: "char \<Rightarrow> bool" where
  "tspecial c \<longleftrightarrow> c \<in> set (''()<>@,;:/[]?='' @ [CHR 0x5C, CHR 0x22])"

definition mime_token :: "string \<Rightarrow> bool" where
  "mime_token s \<longleftrightarrow> s \<noteq> [] \<and> list_all (\<lambda>c. 0x20 < (of_char c :: nat) \<and> of_char c < (0x7F :: nat) \<and> \<not> tspecial c) s"

definition needsEncoding :: "string \<Rightarrow> bool" where
  "needsEncoding s \<longleftrightarrow> list_ex (\<lambda>c. ((of_char c :: nat) < 0x20 \<or> 0x7E < (of_char c :: nat)) \<and> c \<noteq> CHR 0x09) s"

definition upperhex :: "nat \<Rightarrow> char" where
  "upperhex n = (if n < 10 then char_of (48 + n) else char_of (55 + n))"

definition percent_byte :: "char \<Rightarrow> string" where
  "percent_byte c =
     (if (of_char c :: nat) \<le> 0x20 \<or> 0x7F \<le> (of_char c :: nat) \<or> c = CHR ''*'' \<or> c = CHR 0x27 \<or> c = CHR ''%'' \<or> tspecial c
      then [CHR ''%'', upperhex (of_char c div 16), upperhex (of_char c mod 16)] else [c])"

definition quote_byte :: "char \<Rightarrow> string" where
  "quote_byte c = (if c = CHR 0x22 \<or> c = CHR 0x5C then [CHR 0x5C, c] else [c])"

text \<open>\<open>FormatMediaType\<close> of a type without a slash and one parameter.\<close>

definition FormatMediaType :: "string \<Rightarrow> string \<Rightarrow> string \<Rightarrow> string" where
  "FormatMediaType t attribute value =
     (if \<not> mime_token t \<or> \<not> mime_token attribute then []
      else map ascii_lower t @ ''; '' @ map ascii_lower attribute @
        (if needsEncoding value then ''*=utf-8'' @ [CHR 0x27, CHR 0x27] @ concat (map percent_byte value)
         else if mime_token value then ''='' @ value
         else ''='' @ [CHR 0x22] @ concat (map quote_byte value) @ [CHR 0x22]))"

end
