(* ===== verification/Secure_Root.thy ===== *)
theory Secure_Root
  imports Worker_Protocol
begin

unbundle bit_operations_syntax

text \<open>
  The descriptor-pinned share root (\<open>pkg/publicfiles/fs_linux.go\<close>): opening beneath the root,
  listing a directory, and the pin-validate-reopen protocol for regular files. The Linux kernel is
  a parameter: a record of system calls that read and change an unknown kernel state, so that
  every answer may differ from call to call and a race with another process is any such change.
  What the code relies on is stated as a contract on descriptors only.
\<close>

section \<open>The kernel interface\<close>

record stat =
  st_mode :: u32
  st_nlink :: u64
  st_dev :: u64
  st_ino :: u64
  st_size :: i64
  st_uid :: u32
  st_gid :: u32
  st_mtim :: "i64 \<times> i64"
  st_ctim :: "i64 \<times> i64"

datatype open_flag = O_PATH | O_RDONLY | O_DIRECTORY | O_CLOEXEC | O_NOFOLLOW | O_NONBLOCK
datatype resolve_flag = RESOLVE_BENEATH | RESOLVE_NO_MAGICLINKS | RESOLVE_NO_SYMLINKS | RESOLVE_NO_XDEV

record 'k kernel =
  sys_openat2 :: "int \<Rightarrow> string \<Rightarrow> open_flag list \<Rightarrow> resolve_flag list \<Rightarrow> 'k \<Rightarrow> (errno + int) \<times> 'k"
  sys_open :: "string \<Rightarrow> open_flag list \<Rightarrow> 'k \<Rightarrow> (errno + int) \<times> 'k"
  sys_fstat :: "int \<Rightarrow> 'k \<Rightarrow> (errno + stat) \<times> 'k"
  sys_fstatfs :: "int \<Rightarrow> 'k \<Rightarrow> (errno + i64) \<times> 'k"
  sys_statx :: "int \<Rightarrow> 'k \<Rightarrow> (errno + u64 option) \<times> 'k"  \<comment> \<open>mount id if the mask reports it\<close>
  sys_readdirnames :: "int \<Rightarrow> nat \<Rightarrow> 'k \<Rightarrow> (string list \<times> errno option) \<times> 'k"
  sys_fgetxattr :: "int \<Rightarrow> string \<Rightarrow> nat \<Rightarrow> 'k \<Rightarrow> (errno + bytes) \<times> 'k"
  sys_read_limited :: "int \<Rightarrow> nat \<Rightarrow> 'k \<Rightarrow> (errno + bytes) \<times> 'k"
  sys_close :: "int \<Rightarrow> 'k \<Rightarrow> 'k"

definition S_IFMT :: u32 where "S_IFMT = 0xF000"
definition S_IFREG :: u32 where "S_IFREG = 0x8000"
definition S_IFDIR :: u32 where "S_IFDIR = 0x4000"

definition resolveUnderRoot :: "resolve_flag list" where
  "resolveUnderRoot =
     [RESOLVE_BENEATH, RESOLVE_NO_MAGICLINKS, RESOLVE_NO_SYMLINKS, RESOLVE_NO_XDEV]"

definition isSingleLinkRegular :: "stat \<Rightarrow> bool" where
  "isSingleLinkRegular st \<longleftrightarrow> st_mode st AND S_IFMT = S_IFREG \<and> st_nlink st = 1"

definition isHiddenFilesystemError :: "storage_error \<Rightarrow> bool" where
  "isHiddenFilesystemError e \<longleftrightarrow>
     e \<in> {Errno ENOENT, Errno ENOTDIR, Errno ELOOP, Errno EXDEV, Errno EACCES, Errno EPERM}"

section \<open>Filesystem identity\<close>

definition EXT4_SUPER_MAGIC :: u32 where "EXT4_SUPER_MAGIC = 0xEF53"
definition XFS_SUPER_MAGIC :: u32 where "XFS_SUPER_MAGIC = 0x58465342"
definition BTRFS_SUPER_MAGIC :: u32 where "BTRFS_SUPER_MAGIC = 0x9123683E"
definition TMPFS_MAGIC :: u32 where "TMPFS_MAGIC = 0x01021994"
definition F2FS_SUPER_MAGIC :: u32 where "F2FS_SUPER_MAGIC = 0xF2F52010"

text \<open>\<open>normalized\<close> keeps the low 32 bits; the two comparisons accept a magic that is the zero or the
  sign extension of them.\<close>

definition publicRootFilesystemName :: "i64 \<Rightarrow> string option" where
  "publicRootFilesystemName magic =
     (let normalized = ucast magic :: u32 in
      if magic \<noteq> ucast normalized \<and> magic \<noteq> scast normalized then None
      else if normalized = EXT4_SUPER_MAGIC then Some ''ext2/3/4''
      else if normalized = XFS_SUPER_MAGIC then Some ''XFS''
      else if normalized = BTRFS_SUPER_MAGIC then Some ''Btrfs''
      else if normalized = TMPFS_MAGIC then Some ''tmpfs''
      else if normalized = F2FS_SUPER_MAGIC then Some ''F2FS''
      else None)"

definition publicRootMountID :: "'k kernel \<Rightarrow> int \<Rightarrow> 'k \<Rightarrow> (storage_error + u64) \<times> 'k" where
  "publicRootMountID K fd s =
     (case sys_statx K fd s of
        (Inl e, s1) \<Rightarrow>
          (Inl (if e = ENOSYS \<or> e = EINVAL then ErrUnsupported else Errno e), s1)
      | (Inr m, s1) \<Rightarrow>
          (case m of
             None \<Rightarrow> (Inl ErrUnsupported, s1)
           | Some i \<Rightarrow> if i = 0 then (Inl ErrUnsupported, s1) else (Inr i, s1)))"

record rootFilesystemIdentity =
  identity_mountID :: u64
  identity_magic :: i64

definition inspectPublicRootFilesystem ::
    "'k kernel \<Rightarrow> int \<Rightarrow> 'k \<Rightarrow> (storage_error + rootFilesystemIdentity) \<times> 'k" where
  "inspectPublicRootFilesystem K fd s =
     (case sys_fstatfs K fd s of
        (Inl e, s1) \<Rightarrow> (Inl (Errno e), s1)
      | (Inr magic, s1) \<Rightarrow>
          (case publicRootMountID K fd s1 of
             (Inl e, s2) \<Rightarrow> (Inl e, s2)
           | (Inr i, s2) \<Rightarrow> (Inr \<lparr> identity_mountID = i, identity_magic = magic \<rparr>, s2)))"

section \<open>The root\<close>

record secureRoot =
  root_file :: "int option"     \<comment> \<open>None once \<open>close\<close> has run\<close>
  root_mountID :: u64
  root_filesystemType :: u32
  root_closed :: bool

definition secureRoot_close :: "'k kernel \<Rightarrow> secureRoot \<Rightarrow> 'k \<Rightarrow> secureRoot \<times> 'k" where
  "secureRoot_close K r s =
     (if root_closed r then (r, s)
      else case root_file r of
        None \<Rightarrow> (r\<lparr>root_closed := True\<rparr>, s)
      | Some fd \<Rightarrow> (r\<lparr>root_closed := True, root_file := None\<rparr>, sys_close K fd s))"

definition secureRoot_open ::
    "'k kernel \<Rightarrow> secureRoot \<Rightarrow> string \<Rightarrow> open_flag list \<Rightarrow> 'k \<Rightarrow> (storage_error + int) \<times> 'k" where
  "secureRoot_open K r relative oflags s =
     (case root_file r of
        None \<Rightarrow> (Inl (Errno EBADF), s)
      | Some root \<Rightarrow>
          if root_closed r then (Inl (Errno EBADF), s)
          else (case sys_openat2 K root relative oflags resolveUnderRoot s of
            (Inl e, s1) \<Rightarrow> (Inl (Errno e), s1)
          | (Inr fd, s1) \<Rightarrow>
              (case publicRootMountID K fd s1 of
                 (Inl e, s2) \<Rightarrow> (Inl e, sys_close K fd s2)
               | (Inr i, s2) \<Rightarrow>
                   if i \<noteq> root_mountID r then (Inl (Errno EXDEV), sys_close K fd s2)
                   else (Inr fd, s2))))"

definition secureRootFromWorkerFD ::
    "'k kernel \<Rightarrow> int \<Rightarrow> u64 \<Rightarrow> u32 \<Rightarrow> 'k \<Rightarrow> (storage_error + secureRoot) \<times> 'k" where
  "secureRootFromWorkerFD K fd expectedMountID expectedFilesystemType s =
     (if fd < 0 \<or> expectedMountID = 0 then (Inl errStorageProtocol, s)
      else case sys_fstat K fd s of
        (Inl e, s1) \<Rightarrow> (Inl errStorageProtocol, s1)
      | (Inr st, s1) \<Rightarrow>
          if st_mode st AND S_IFMT \<noteq> S_IFDIR then (Inl errStorageProtocol, s1)
          else (case inspectPublicRootFilesystem K fd s1 of
            (Inl e, s2) \<Rightarrow> (Inl errStorageProtocol, s2)
          | (Inr ident, s2) \<Rightarrow>
              if identity_mountID ident \<noteq> expectedMountID
                 \<or> ucast (identity_magic ident) \<noteq> expectedFilesystemType
              then (Inl errStorageProtocol, s2)
              else if publicRootFilesystemName (identity_magic ident) = None
              then (Inl errStorageProtocol, s2)
              else (Inr \<lparr> root_file = Some fd, root_mountID = expectedMountID,
                          root_filesystemType = expectedFilesystemType, root_closed = False \<rparr>, s2)))"

section \<open>Opening the configured root\<close>

text \<open>The probe of the \<open>openat2\<close> policy through the pinned root.\<close>

definition probe_root :: "'k kernel \<Rightarrow> secureRoot \<Rightarrow> 'k \<Rightarrow> (storage_error + secureRoot) \<times> 'k" where
  "probe_root K root s =
     (case secureRoot_open K root ''.'' [O_RDONLY, O_DIRECTORY, O_CLOEXEC, O_NOFOLLOW] s of
        (Inl e, s1) \<Rightarrow>
          (Inl (if e = Errno ENOSYS \<or> e = Errno EINVAL then ErrUnsupported
                else if e = Errno EACCES \<or> e = Errno EPERM then e
                else OtherError ''openat2 policy probe failed''),
           snd (secureRoot_close K root s1))
      | (Inr probe, s1) \<Rightarrow> (Inr root, sys_close K probe s1))"

text \<open>The checks on the opened directory.\<close>

definition check_root ::
    "'k kernel \<Rightarrow> (int \<Rightarrow> 'k \<Rightarrow> (storage_error + rootFilesystemIdentity) \<times> 'k) option \<Rightarrow> int \<Rightarrow> 'k \<Rightarrow>
     (storage_error + secureRoot) \<times> 'k" where
  "check_root K inspect fd s =
     (case sys_fstat K fd s of
        (Inl e, s1) \<Rightarrow> (Inl (OtherError ''configured root is not a directory''), sys_close K fd s1)
      | (Inr st, s1) \<Rightarrow>
          if st_mode st AND S_IFMT \<noteq> S_IFDIR
          then (Inl (OtherError ''configured root is not a directory''), sys_close K fd s1)
          else (case inspect of
            None \<Rightarrow> (Inl (OtherError ''configured root filesystem inspector is unavailable''),
                     sys_close K fd s1)
          | Some insp \<Rightarrow>
              (case insp fd s1 of
                 (Inl e, s2) \<Rightarrow> (Inl e, sys_close K fd s2)
               | (Inr ident, s2) \<Rightarrow>
                   if identity_mountID ident = 0 then (Inl ErrUnsupported, sys_close K fd s2)
                   else if publicRootFilesystemName (identity_magic ident) = None
                   then (Inl errPublicRootFilesystemNotAllowed, sys_close K fd s2)
                   else probe_root K
                          \<lparr> root_file = Some fd, root_mountID = identity_mountID ident,
                            root_filesystemType = ucast (identity_magic ident),
                            root_closed = False \<rparr> s2)))"

definition openSecureRootWith ::
    "'k kernel \<Rightarrow> (int \<Rightarrow> 'k \<Rightarrow> (storage_error + rootFilesystemIdentity) \<times> 'k) option \<Rightarrow> string \<Rightarrow> 'k \<Rightarrow>
     (storage_error + secureRoot) \<times> 'k" where
  "openSecureRootWith K inspect absolutePath s =
     (case sys_open K ''/'' [O_PATH, O_DIRECTORY, O_CLOEXEC] s of
        (Inl e, s1) \<Rightarrow> (Inl ErrUnsupported, s1)
      | (Inr rootFD, s1) \<Rightarrow>
          (case sys_openat2 K rootFD (if prefix [slash] absolutePath then tl absolutePath else absolutePath)
                  [O_PATH, O_DIRECTORY, O_CLOEXEC, O_NOFOLLOW]
                  [RESOLVE_BENEATH, RESOLVE_NO_MAGICLINKS, RESOLVE_NO_SYMLINKS] s1 of
             (Inl e, s2) \<Rightarrow>
               (Inl (if e = ENOSYS \<or> e = EINVAL then ErrUnsupported
                     else OtherError ''cannot securely open configured directory''),
                sys_close K rootFD s2)
           | (Inr fd, s2) \<Rightarrow>
               (case check_root K inspect fd s2 of (res, s3) \<Rightarrow> (res, sys_close K rootFD s3))))"

definition openSecureRoot :: "'k kernel \<Rightarrow> string \<Rightarrow> 'k \<Rightarrow> (storage_error + secureRoot) \<times> 'k" where
  "openSecureRoot K absolutePath s =
     openSecureRootWith K (Some (inspectPublicRootFilesystem K)) absolutePath s"

section \<open>Listing a directory\<close>

definition path_Join :: "string \<Rightarrow> string \<Rightarrow> string" where
  "path_Join a b =
     (if a = [] then (if b = [] then [] else path_Clean b)
      else if b = [] then path_Clean a
      else path_Clean (a @ slash # b))"

definition visible_name :: "string \<Rightarrow> bool" where
  "visible_name name \<longleftrightarrow>
     \<not> (\<not> isSafeVisibleName name \<or> prefix ''.'' name \<or> slash \<in> set name \<or> CHR 0x5C \<in> set name)"

definition stat_entry :: "string \<Rightarrow> stat \<Rightarrow> Entry list" where
  "stat_entry name st =
     (if st_mode st AND S_IFMT = S_IFDIR
      then [\<lparr> EntryName = name, EntryType = ''directory'', EntrySize = 0 \<rparr>]
      else if st_mode st AND S_IFMT = S_IFREG
      then (if st_nlink st = 1
            then [\<lparr> EntryName = name, EntryType = ''file'', EntrySize = st_size st \<rparr>] else [])
      else [])"

fun list_entries ::
    "'k kernel \<Rightarrow> secureRoot \<Rightarrow> string \<Rightarrow> string list \<Rightarrow> 'k \<Rightarrow> (storage_error + Entry list) \<times> 'k" where
  "list_entries K r relative [] s = (Inr [], s)"
| "list_entries K r relative (name # names) s =
     (if \<not> visible_name name then list_entries K r relative names s
      else case secureRoot_open K r (if relative = [] then name else path_Join relative name)
                  [O_PATH, O_CLOEXEC, O_NOFOLLOW] s of
        (Inl e, s1) \<Rightarrow>
          if isHiddenFilesystemError e then list_entries K r relative names s1 else (Inl e, s1)
      | (Inr fd, s1) \<Rightarrow>
          (case sys_fstat K fd s1 of
             (Inl e, s2) \<Rightarrow> list_entries K r relative names (sys_close K fd s2)
           | (Inr st, s2) \<Rightarrow>
               (case list_entries K r relative names (sys_close K fd s2) of
                  (Inl e, s3) \<Rightarrow> (Inl e, s3)
                | (Inr es, s3) \<Rightarrow> (Inr (stat_entry name st @ es), s3))))"

definition secureRoot_list ::
    "'k kernel \<Rightarrow> secureRoot \<Rightarrow> string \<Rightarrow> nat \<Rightarrow> 'k \<Rightarrow> (storage_error + Entry list) \<times> 'k" where
  "secureRoot_list K r relative maxEntries s =
     (case secureRoot_open K r (if relative = [] then ''.'' else relative)
             [O_RDONLY, O_DIRECTORY, O_CLOEXEC, O_NOFOLLOW] s of
        (Inl e, s1) \<Rightarrow> (Inl e, s1)
      | (Inr fd, s1) \<Rightarrow>
          (case sys_readdirnames K fd (maxEntries + 1) s1 of
             ((names, Some e), s2) \<Rightarrow> (Inl (Errno e), sys_close K fd s2)
           | ((names, None), s2) \<Rightarrow>
               if maxEntries < length names then (Inl errEntryLimit, sys_close K fd s2)
               else (case list_entries K r relative names s2 of
                       (res, s3) \<Rightarrow> (res, sys_close K fd s3))))"

section \<open>Pin, validate, reopen\<close>

datatype 'e pin_error =
    PinFailed storage_error
  | InspectPinnedFailed errno
  | errPinnedObjectNotRegular
  | pinnedRegularValidationError 'e
  | ReopenerUnavailable
  | ReopenFailed errno
  | ReopenInvalidDescriptor
  | InspectReopenedFailed errno
  | errPinnedIdentityChanged

definition sameVerifierFileMetadata :: "stat \<Rightarrow> stat \<Rightarrow> bool" where
  "sameVerifierFileMetadata first second \<longleftrightarrow>
     st_dev first = st_dev second \<and> st_ino first = st_ino second \<and> st_mode first = st_mode second \<and>
     st_nlink first = st_nlink second \<and> st_uid first = st_uid second \<and>
     st_gid first = st_gid second \<and> st_size first = st_size second \<and>
     st_mtim first = st_mtim second \<and> st_ctim first = st_ctim second"

text \<open>The checks after the reopen, on the data descriptor.\<close>

definition check_reopened ::
    "'k kernel \<Rightarrow> (stat \<Rightarrow> 'e option) option \<Rightarrow> (int \<Rightarrow> stat \<Rightarrow> 'k \<Rightarrow> 'e option \<times> 'k) option \<Rightarrow>
     stat \<Rightarrow> int \<Rightarrow> 'k \<Rightarrow> ('e pin_error + int \<times> stat) \<times> 'k" where
  "check_reopened K validatePinned validateOpened before dataFD s =
     (case sys_fstat K dataFD s of
        (Inl e, s1) \<Rightarrow> (Inl (InspectReopenedFailed e), sys_close K dataFD s1)
      | (Inr after, s1) \<Rightarrow>
          if \<not> isSingleLinkRegular after
          then (Inl errPinnedObjectNotRegular, sys_close K dataFD s1)
          else if st_dev before \<noteq> st_dev after \<or> st_ino before \<noteq> st_ino after
          then (Inl errPinnedIdentityChanged, sys_close K dataFD s1)
          else if validatePinned \<noteq> None \<and> \<not> sameVerifierFileMetadata before after
          then (Inl errPinnedIdentityChanged, sys_close K dataFD s1)
          else (case Option.bind validatePinned (\<lambda>f. f after) of
            Some e \<Rightarrow> (Inl (pinnedRegularValidationError e), sys_close K dataFD s1)
          | None \<Rightarrow>
              (case validateOpened of
                 None \<Rightarrow> (Inr (dataFD, after), s1)
               | Some g \<Rightarrow>
                   (case g dataFD after s1 of
                      (Some e, s2) \<Rightarrow> (Inl (pinnedRegularValidationError e), sys_close K dataFD s2)
                    | (None, s2) \<Rightarrow> (Inr (dataFD, after), s2)))))"

text \<open>What runs between the pin and its deferred close.\<close>

definition pinned_body ::
    "'k kernel \<Rightarrow> (stat \<Rightarrow> 'e option) option \<Rightarrow> (int \<Rightarrow> stat \<Rightarrow> 'k \<Rightarrow> 'e option \<times> 'k) option \<Rightarrow>
     (int \<Rightarrow> 'k \<Rightarrow> (int \<times> errno option) \<times> 'k) option \<Rightarrow> int \<Rightarrow> 'k \<Rightarrow> ('e pin_error + int \<times> stat) \<times> 'k" where
  "pinned_body K validatePinned validateOpened reopen pinnedFD s =
     (case sys_fstat K pinnedFD s of
        (Inl e, s1) \<Rightarrow> (Inl (InspectPinnedFailed e), s1)
      | (Inr before, s1) \<Rightarrow>
          if \<not> isSingleLinkRegular before then (Inl errPinnedObjectNotRegular, s1)
          else (case Option.bind validatePinned (\<lambda>f. f before) of
            Some e \<Rightarrow> (Inl (pinnedRegularValidationError e), s1)
          | None \<Rightarrow>
              (case reopen of
                 None \<Rightarrow> (Inl ReopenerUnavailable, s1)
               | Some ro \<Rightarrow>
                   (case ro pinnedFD s1 of
                      ((dataFD, Some e), s2) \<Rightarrow>
                        (Inl (ReopenFailed e),
                         if 0 \<le> dataFD \<and> dataFD \<noteq> pinnedFD then sys_close K dataFD s2 else s2)
                    | ((dataFD, None), s2) \<Rightarrow>
                        if dataFD < 0 \<or> dataFD = pinnedFD then (Inl ReopenInvalidDescriptor, s2)
                        else check_reopened K validatePinned validateOpened before dataFD s2))))"

definition openPinnedRegularValidated ::
    "'k kernel \<Rightarrow> ('k \<Rightarrow> (storage_error + int) \<times> 'k) \<Rightarrow> (stat \<Rightarrow> 'e option) option \<Rightarrow>
     (int \<Rightarrow> stat \<Rightarrow> 'k \<Rightarrow> 'e option \<times> 'k) option \<Rightarrow>
     (int \<Rightarrow> 'k \<Rightarrow> (int \<times> errno option) \<times> 'k) option \<Rightarrow> 'k \<Rightarrow> ('e pin_error + int \<times> stat) \<times> 'k" where
  "openPinnedRegularValidated K pin validatePinned validateOpened reopen s =
     (case pin s of
        (Inl e, s1) \<Rightarrow> (Inl (PinFailed e), s1)
      | (Inr pinnedFD, s1) \<Rightarrow>
          (case pinned_body K validatePinned validateOpened reopen pinnedFD s1 of
             (res, s2) \<Rightarrow> (res, sys_close K pinnedFD s2)))"

definition reopenPinnedRegular :: "'k kernel \<Rightarrow> int \<Rightarrow> 'k \<Rightarrow> (int \<times> errno option) \<times> 'k" where
  "reopenPinnedRegular K pinnedFD s =
     (case sys_open K (''/proc/self/fd/'' @ strconv_FormatInt pinnedFD)
             [O_RDONLY, O_CLOEXEC, O_NONBLOCK] s of
        (Inl e, s1) \<Rightarrow> ((-1, Some e), s1)
      | (Inr fd, s1) \<Rightarrow> ((fd, None), s1))"

text \<open>\<open>errors.Is\<close> on the error of \<open>openPinnedRegular\<close>: the wrapped errno or storage error.\<close>

definition pin_cause :: "'e pin_error \<Rightarrow> storage_error" where
  "pin_cause e =
     (case e of
        PinFailed x \<Rightarrow> x
      | InspectPinnedFailed n \<Rightarrow> Errno n
      | ReopenFailed n \<Rightarrow> Errno n
      | InspectReopenedFailed n \<Rightarrow> Errno n
      | errPinnedObjectNotRegular \<Rightarrow> Errno EPERM
      | errPinnedIdentityChanged \<Rightarrow> Errno EPERM
      | ReopenerUnavailable \<Rightarrow> OtherError ''pinned regular file reopener is unavailable''
      | ReopenInvalidDescriptor \<Rightarrow>
          OtherError ''pinned regular file reopener returned an invalid descriptor''
      | pinnedRegularValidationError _ \<Rightarrow> OtherError ''validation'')"

definition secureRoot_openRegularWith ::
    "'k kernel \<Rightarrow> secureRoot \<Rightarrow> string \<Rightarrow> (int \<Rightarrow> 'k \<Rightarrow> (int \<times> errno option) \<times> 'k) option \<Rightarrow> 'k \<Rightarrow>
     (storage_error + int \<times> stat) \<times> 'k" where
  "secureRoot_openRegularWith K r relative reopen s =
     (case openPinnedRegularValidated K
             (secureRoot_open K r relative [O_PATH, O_CLOEXEC, O_NOFOLLOW])
             (None :: (stat \<Rightarrow> unit option) option) None reopen s of
        (Inl e, s1) \<Rightarrow> (Inl (pin_cause e), s1)
      | (Inr (fd, _), s1) \<Rightarrow>
          (case sys_fstat K fd s1 of
             (Inl e, s2) \<Rightarrow> (Inl (Errno e), sys_close K fd s2)
           | (Inr info, s2) \<Rightarrow>
               if st_mode info AND S_IFMT \<noteq> S_IFREG then (Inl (Errno EPERM), sys_close K fd s2)
               else (Inr (fd, info), s2)))"

definition secureRoot_openRegular ::
    "'k kernel \<Rightarrow> secureRoot \<Rightarrow> string \<Rightarrow> 'k \<Rightarrow> (storage_error + int \<times> stat) \<times> 'k" where
  "secureRoot_openRegular K r relative =
     secureRoot_openRegularWith K r relative (Some (reopenPinnedRegular K))"

section \<open>Descriptor accounting\<close>

text \<open>What the code relies on: a successful open returns a non-negative descriptor that was not open
  before, a close removes one, and the other calls open and close nothing. \<open>fds\<close> reads the open
  descriptors of the process off the kernel state.\<close>

definition fd_contract :: "'k kernel \<Rightarrow> ('k \<Rightarrow> int set) \<Rightarrow> bool" where
  "fd_contract K fds \<longleftrightarrow>
     (\<forall>d p f r s e s'. sys_openat2 K d p f r s = (Inl e, s') \<longrightarrow> fds s' = fds s) \<and>
     (\<forall>d p f r s fd s'. sys_openat2 K d p f r s = (Inr fd, s') \<longrightarrow>
        0 \<le> fd \<and> fd \<notin> fds s \<and> fds s' = insert fd (fds s)) \<and>
     (\<forall>p f s e s'. sys_open K p f s = (Inl e, s') \<longrightarrow> fds s' = fds s) \<and>
     (\<forall>p f s fd s'. sys_open K p f s = (Inr fd, s') \<longrightarrow>
        0 \<le> fd \<and> fd \<notin> fds s \<and> fds s' = insert fd (fds s)) \<and>
     (\<forall>fd s x s'. sys_fstat K fd s = (x, s') \<longrightarrow> fds s' = fds s) \<and>
     (\<forall>fd s x s'. sys_fstatfs K fd s = (x, s') \<longrightarrow> fds s' = fds s) \<and>
     (\<forall>fd s x s'. sys_statx K fd s = (x, s') \<longrightarrow> fds s' = fds s) \<and>
     (\<forall>fd n s x s'. sys_readdirnames K fd n s = (x, s') \<longrightarrow> fds s' = fds s) \<and>
     (\<forall>fd a n s x s'. sys_fgetxattr K fd a n s = (x, s') \<longrightarrow> fds s' = fds s) \<and>
     (\<forall>fd n s x s'. sys_read_limited K fd n s = (x, s') \<longrightarrow> fds s' = fds s) \<and>
     (\<forall>fd s. fds (sys_close K fd s) = fds s - {fd})"

definition opens :: "('k \<Rightarrow> int set) \<Rightarrow> 'k \<Rightarrow> ('e + int) \<Rightarrow> 'k \<Rightarrow> bool" where
  "opens fds s res s' \<longleftrightarrow>
     (case res of
        Inl _ \<Rightarrow> fds s' = fds s
      | Inr fd \<Rightarrow> 0 \<le> fd \<and> fd \<notin> fds s \<and> fds s' = insert fd (fds s))"

definition reopen_contract ::
    "('k \<Rightarrow> int set) \<Rightarrow> (int \<Rightarrow> 'k \<Rightarrow> (int \<times> errno option) \<times> 'k) \<Rightarrow> bool" where
  "reopen_contract fds ro \<longleftrightarrow>
     (\<forall>p s. case ro p s of
        ((d, None), s') \<Rightarrow> 0 \<le> d \<and> d \<notin> fds s \<and> fds s' = insert d (fds s)
      | ((d, Some e), s') \<Rightarrow>
          (d < 0 \<or> d = p) \<and> fds s' = fds s \<or> 0 \<le> d \<and> d \<notin> fds s \<and> fds s' = insert d (fds s))"

lemma contract_rules:
  assumes "fd_contract K fds"
  shows "sys_openat2 K d p f r s = (Inl e, s') \<Longrightarrow> fds s' = fds s"
    and "sys_openat2 K d p f r s = (Inr fd, s') \<Longrightarrow> 0 \<le> fd \<and> fd \<notin> fds s \<and> fds s' = insert fd (fds s)"
    and "sys_open K p f s = (Inl e, s') \<Longrightarrow> fds s' = fds s"
    and "sys_open K p f s = (Inr fd, s') \<Longrightarrow> 0 \<le> fd \<and> fd \<notin> fds s \<and> fds s' = insert fd (fds s)"
    and "sys_fstat K fd s = (x, s') \<Longrightarrow> fds s' = fds s"
    and "sys_fstatfs K fd s = (y, s') \<Longrightarrow> fds s' = fds s"
    and "sys_statx K fd s = (z, s') \<Longrightarrow> fds s' = fds s"
    and "sys_readdirnames K fd n s = (u, s') \<Longrightarrow> fds s' = fds s"
    and "sys_fgetxattr K fd a n s = (v, s') \<Longrightarrow> fds s' = fds s"
    and "sys_read_limited K fd n s = (w, s') \<Longrightarrow> fds s' = fds s"
    and "fds (sys_close K fd s) = fds s - {fd}"
proof -
  note c1 = assms [unfolded fd_contract_def]
  note c2 = c1 [THEN conjunct2]
  note c3 = c2 [THEN conjunct2]
  note c4 = c3 [THEN conjunct2]
  note c5 = c4 [THEN conjunct2]
  note c6 = c5 [THEN conjunct2]
  note c7 = c6 [THEN conjunct2]
  note c8 = c7 [THEN conjunct2]
  note c9 = c8 [THEN conjunct2]
  note c10 = c9 [THEN conjunct2]
  note c11 = c10 [THEN conjunct2]
  show "fds s' = fds s" if "sys_openat2 K d p f r s = (Inl e, s')" using that by (rule c1 [THEN conjunct1, rule_format])
  show "0 \<le> fd \<and> fd \<notin> fds s \<and> fds s' = insert fd (fds s)" if "sys_openat2 K d p f r s = (Inr fd, s')" using that by (rule c2 [THEN conjunct1, rule_format])
  show "fds s' = fds s" if "sys_open K p f s = (Inl e, s')" using that by (rule c3 [THEN conjunct1, rule_format])
  show "0 \<le> fd \<and> fd \<notin> fds s \<and> fds s' = insert fd (fds s)" if "sys_open K p f s = (Inr fd, s')" using that by (rule c4 [THEN conjunct1, rule_format])
  show "fds s' = fds s" if "sys_fstat K fd s = (x, s')" using that by (rule c5 [THEN conjunct1, rule_format])
  show "fds s' = fds s" if "sys_fstatfs K fd s = (y, s')" using that by (rule c6 [THEN conjunct1, rule_format])
  show "fds s' = fds s" if "sys_statx K fd s = (z, s')" using that by (rule c7 [THEN conjunct1, rule_format])
  show "fds s' = fds s" if "sys_readdirnames K fd n s = (u, s')" using that by (rule c8 [THEN conjunct1, rule_format])
  show "fds s' = fds s" if "sys_fgetxattr K fd a n s = (v, s')" using that by (rule c9 [THEN conjunct1, rule_format])
  show "fds s' = fds s" if "sys_read_limited K fd n s = (w, s')" using that by (rule c10 [THEN conjunct1, rule_format])
  show "fds (sys_close K fd s) = fds s - {fd}" by (rule c11 [rule_format])
qed

lemma mount_id_fds:
  assumes "fd_contract K fds" "publicRootMountID K fd s = (x, s')"
  shows "fds s' = fds s"
  using assms(2)
  by (auto simp: publicRootMountID_def dest!: contract_rules(7) [OF assms(1)]
      split: prod.splits sum.splits option.splits if_splits)

lemma inspect_fds:
  assumes "fd_contract K fds" "inspectPublicRootFilesystem K fd s = (x, s')"
  shows "fds s' = fds s"
  using assms(2)
  by (auto simp: inspectPublicRootFilesystem_def
      dest!: contract_rules(6) [OF assms(1)] mount_id_fds [OF assms(1)] split: prod.splits sum.splits)

lemma secureRoot_open_fds:
  assumes "fd_contract K fds" "secureRoot_open K r p f s = (res, s')"
  shows "opens fds s res s'"
  using assms(2)
  by (auto simp: secureRoot_open_def opens_def contract_rules(11) [OF assms(1)]
      dest!: contract_rules(1,2) [OF assms(1)] mount_id_fds [OF assms(1)]
      split: prod.splits sum.splits option.splits if_splits)

lemma list_entries_fds:
  assumes C: "fd_contract K fds"
  shows "list_entries K r relative names s = (res, s') \<Longrightarrow> fds s' = fds s"
proof (induction names arbitrary: s res s')
  case (Cons name names)
  show ?case
  proof (cases "visible_name name")
    case False
    with Cons show ?thesis by simp
  next
    case True
    let ?p = "if relative = [] then name else path_Join relative name"
    obtain res1 s1 where o: "secureRoot_open K r ?p [O_PATH, O_CLOEXEC, O_NOFOLLOW] s = (res1, s1)"
      by (cases "secureRoot_open K r ?p [O_PATH, O_CLOEXEC, O_NOFOLLOW] s") auto
    note op = secureRoot_open_fds [OF C o, unfolded opens_def]
    show ?thesis
    proof (cases res1)
      case (Inl e)
      with op o True Cons show ?thesis by (auto split: if_splits)
    next
      case (Inr fd)
      obtain res2 s2 where st: "sys_fstat K fd s1 = (res2, s2)" by (cases "sys_fstat K fd s1") auto
      have back_fds: "fds (sys_close K fd s2) = fds s"
        using op Inr contract_rules(5) [OF C st] contract_rules(11) [OF C] by auto
      with Inr o st True Cons.prems Cons.IH [of "sys_close K fd s2"] show ?thesis
        by (auto split: sum.splits prod.splits)
    qed
  qed
qed simp

lemma secureRoot_list_fds:
  assumes C: "fd_contract K fds" and L: "secureRoot_list K r relative n s = (res, s')"
  shows "fds s' = fds s"
proof -
  let ?p = "if relative = [] then ''.'' else relative"
  let ?f = "[O_RDONLY, O_DIRECTORY, O_CLOEXEC, O_NOFOLLOW]"
  obtain res1 s1 where o: "secureRoot_open K r ?p ?f s = (res1, s1)"
    by (cases "secureRoot_open K r ?p ?f s") auto
  note op = secureRoot_open_fds [OF C o, unfolded opens_def]
  show ?thesis
  proof (cases res1)
    case (Inl e)
    with op o L show ?thesis by (simp add: secureRoot_list_def)
  next
    case (Inr fd)
    obtain names err s2 where rd: "sys_readdirnames K fd (n + 1) s1 = ((names, err), s2)"
      by (cases "sys_readdirnames K fd (n + 1) s1") auto
    obtain res3 s3 where le: "list_entries K r relative names s2 = (res3, s3)"
      by (cases "list_entries K r relative names s2") auto
    show ?thesis
      using op Inr o rd le L contract_rules(8) [OF C rd] list_entries_fds [OF C le]
        contract_rules(11) [OF C]
      by (auto simp: secureRoot_list_def split: option.splits if_splits)
  qed
qed

definition keeps_fds :: "('k \<Rightarrow> int set) \<Rightarrow> (int \<Rightarrow> stat \<Rightarrow> 'k \<Rightarrow> 'e option \<times> 'k) option \<Rightarrow> bool" where
  "keeps_fds fds v \<longleftrightarrow> (\<forall>g fd st s x s'. v = Some g \<longrightarrow> g fd st s = (x, s') \<longrightarrow> fds s' = fds s)"

lemma keeps_fdsD: "keeps_fds fds (Some g) \<Longrightarrow> g fd st s = (x, s') \<Longrightarrow> fds s' = fds s"
  by (auto simp: keeps_fds_def)

lemma check_reopened_fds:
  assumes C: "fd_contract K fds" and V: "keeps_fds fds vo" and D: "d \<in> fds s"
    and R: "check_reopened K vp vo before d s = (res, s')"
  shows "case res of Inl _ \<Rightarrow> fds s' = fds s - {d} | Inr p \<Rightarrow> fst p = d \<and> fds s' = fds s"
proof -
  obtain x s1 where st: "sys_fstat K d s = (x, s1)" by (cases "sys_fstat K d s") auto
  note s1 = contract_rules(5) [OF C st] and cl = contract_rules(11) [OF C]
  show ?thesis
  proof (cases x)
    case (Inl e)
    with R st s1 cl show ?thesis by (auto simp: check_reopened_def)
  next
    case (Inr after)
    show ?thesis
    proof (cases vo)
      case None
      with R st s1 cl Inr show ?thesis
        by (auto simp: check_reopened_def split: if_splits option.splits)
    next
      case (Some g)
      obtain y s2 where g: "g d after s1 = (y, s2)" by (cases "g d after s1") auto
      have "fds s2 = fds s" using keeps_fdsD [of fds g] V Some g s1 by metis
      with R st s1 cl Inr Some g show ?thesis
        by (auto simp: check_reopened_def split: if_splits option.splits)
    qed
  qed
qed

text \<open>The part of the protocol between the pin and its deferred close.\<close>

lemma reopen_part_fds:
  assumes C: "fd_contract K fds" and V: "keeps_fds fds vo" and O: "reopen_contract fds ro"
    and p: "p \<in> fds s"
    and R: "(case ro p s of
        ((d, Some e), s3) \<Rightarrow>
          (Inl (ReopenFailed e), if 0 \<le> d \<and> d \<noteq> p then sys_close K d s3 else s3)
      | ((d, None), s3) \<Rightarrow>
          if d < 0 \<or> d = p then (Inl ReopenInvalidDescriptor, s3)
          else check_reopened K vp vo before d s3) = (res, s')"
  shows "opens fds s (map_sum id fst res) s'"
proof -
  obtain d x s3 where ro: "ro p s = ((d, x), s3)" by (cases "ro p s") auto
  have o: "case x of None \<Rightarrow> 0 \<le> d \<and> d \<notin> fds s \<and> fds s3 = insert d (fds s)
      | Some e \<Rightarrow> (d < 0 \<or> d = p) \<and> fds s3 = fds s \<or> 0 \<le> d \<and> d \<notin> fds s \<and> fds s3 = insert d (fds s)"
    using O [unfolded reopen_contract_def, rule_format, where p = p and s = s] ro by (cases x) simp_all
  show ?thesis
  proof (cases x)
    case None
    then have d: "0 \<le> d" "d \<notin> fds s" "fds s3 = insert d (fds s)" "d \<noteq> p" using o p by auto
    then have "check_reopened K vp vo before d s3 = (res, s')" using R ro None by simp
    from check_reopened_fds [OF C V _ this] d show ?thesis by (auto simp: opens_def split: sum.splits)
  next
    case (Some e)
    with o p R ro contract_rules(11) [OF C] show ?thesis
      by (auto simp: opens_def split: if_splits)
  qed
qed

lemma pinned_body_fds:
  assumes C: "fd_contract K fds" and V: "keeps_fds fds vo" and p: "p \<in> fds s"
    and O: "\<And>ro. reopen = Some ro \<Longrightarrow> reopen_contract fds ro"
    and R: "pinned_body K vp vo reopen p s = (res, s')"
  shows "opens fds s (map_sum id fst res) s'"
proof -
  obtain x s1 where st: "sys_fstat K p s = (x, s1)" by (cases "sys_fstat K p s") auto
  note s1 = contract_rules(5) [OF C st]
  show ?thesis
  proof (cases x)
    case (Inl e)
    with R st s1 show ?thesis by (auto simp: pinned_body_def opens_def)
  next
    case (Inr b)
    note x = this
    consider "\<not> isSingleLinkRegular b \<or> Option.bind vp (\<lambda>f. f b) \<noteq> None \<or> reopen = None"
      | ro where "isSingleLinkRegular b" "Option.bind vp (\<lambda>f. f b) = None" "reopen = Some ro"
      by (cases reopen) blast+
    then show ?thesis
    proof cases
      case 1
      with R st x have "s' = s1 \<and> isl res"
        by (auto simp: pinned_body_def split: if_splits option.splits)
      then show ?thesis using s1 by (cases res) (simp_all add: opens_def)
    next
      case 2
      have "opens fds s1 (map_sum id fst res) s'"
        by (rule reopen_part_fds [OF C V O [OF 2(3)], where p = p and vp = vp and before = b])
           (use 2 p s1 R st x in \<open>simp_all add: pinned_body_def\<close>)
      then show ?thesis using s1 by (cases res) (simp_all add: opens_def)
    qed
  qed
qed

lemma openPinned_fds:
  assumes C: "fd_contract K fds" and P: "\<And>s x s'. pin s = (x, s') \<Longrightarrow> opens fds s x s'"
    and V: "keeps_fds fds vo" and O: "\<And>ro. reopen = Some ro \<Longrightarrow> reopen_contract fds ro"
    and R: "openPinnedRegularValidated K pin vp vo reopen s = (res, s')"
  shows "opens fds s (map_sum id fst res) s'"
proof -
  obtain x1 s1 where pin: "pin s = (x1, s1)" by (cases "pin s") auto
  note op = P [OF pin, unfolded opens_def]
  show ?thesis
  proof (cases x1)
    case (Inl e)
    with op pin R show ?thesis by (auto simp: openPinnedRegularValidated_def opens_def)
  next
    case (Inr p)
    then have p: "0 \<le> p" "p \<notin> fds s" "fds s1 = insert p (fds s)" using op by auto
    obtain res2 s2 where body: "pinned_body K vp vo reopen p s1 = (res2, s2)"
      by (cases "pinned_body K vp vo reopen p s1") auto
    have "opens fds s1 (map_sum id fst res2) s2"
      by (rule pinned_body_fds [OF C V _ O body]) (use p in simp_all)
    moreover have "res = res2" "s' = sys_close K p s2"
      using R pin Inr body by (simp_all add: openPinnedRegularValidated_def)
    ultimately show ?thesis
      using p contract_rules(11) [OF C] by (auto simp: opens_def split: sum.splits)
  qed
qed

lemma reopenPinnedRegular_contract:
  assumes "fd_contract K fds"
  shows "reopen_contract fds (reopenPinnedRegular K)"
  unfolding reopen_contract_def reopenPinnedRegular_def
  using contract_rules(3,4) [OF assms] by (auto split: prod.splits sum.splits)

lemma openRegular_fds:
  assumes C: "fd_contract K fds" and R: "secureRoot_openRegular K r p s = (res, s')"
  shows "opens fds s (map_sum id fst res) s'"
proof -
  let ?pin = "secureRoot_open K r p [O_PATH, O_CLOEXEC, O_NOFOLLOW]"
  let ?o = "openPinnedRegularValidated K ?pin (None :: (stat \<Rightarrow> unit option) option) None
      (Some (reopenPinnedRegular K)) s"
  obtain x s1 where o: "?o = (x, s1)" by (cases ?o) auto
  have op: "opens fds s (map_sum id fst x) s1"
    by (rule openPinned_fds [OF C _ _ _ o])
       (use C in \<open>auto simp: keeps_fds_def reopenPinnedRegular_contract secureRoot_open_fds\<close>)
  show ?thesis
  proof (cases x)
    case (Inl e)
    with op o R show ?thesis
      by (auto simp: secureRoot_openRegular_def secureRoot_openRegularWith_def opens_def)
  next
    case (Inr q)
    obtain fd st0 where q: "q = (fd, st0)" by (cases q)
    obtain y s2 where st: "sys_fstat K fd s1 = (y, s2)" by (cases "sys_fstat K fd s1") auto
    show ?thesis
      using op o R Inr q st contract_rules(5) [OF C st] contract_rules(11) [OF C]
      by (auto simp: secureRoot_openRegular_def secureRoot_openRegularWith_def opens_def
          split: sum.splits if_splits)
  qed
qed

section \<open>What an opened or listed object is\<close>

lemma check_reopened_Inr:
  assumes "check_reopened K vp vo before d s = (Inr (fd, st), s')"
  shows "fd = d" "isSingleLinkRegular st" "st_dev st = st_dev before" "st_ino st = st_ino before"
    "vp \<noteq> None \<Longrightarrow> sameVerifierFileMetadata before st" "Option.bind vp (\<lambda>f. f st) = None"
    "\<exists>s1. sys_fstat K d s = (Inr st, s1) \<and> (\<forall>g. vo = Some g \<longrightarrow> fst (g d st s1) = None)"
  using assms
  by (auto simp: check_reopened_def split: prod.splits sum.splits if_splits option.splits)

lemma pinned_body_Inr:
  assumes "pinned_body K vp vo reopen p s = (Inr (fd, st), s')"
  shows "\<exists>before s1 ro s2. sys_fstat K p s = (Inr before, s1) \<and> isSingleLinkRegular before \<and>
    reopen = Some ro \<and> ro p s1 = ((fd, None), s2) \<and> 0 \<le> fd \<and> fd \<noteq> p \<and>
    check_reopened K vp vo before fd s2 = (Inr (fd, st), s')"
  using assms
  by (auto simp: pinned_body_def split: prod.splits sum.splits if_splits option.splits
      dest: check_reopened_Inr(1))

lemma stat_entry_acceptable:
  assumes "visible_name name" "0 \<le> sint (st_size st)" "e \<in> set (stat_entry name st)"
  shows "acceptable_entry e \<and> EntryName e = name"
proof -
  have n: "isSafeVisibleName name" "\<not> prefix ''.'' name" "slash \<notin> set name" "CHR 0x5C \<notin> set name"
    using assms(1) by (auto simp: visible_name_def)
  then have "path_Base name = name" "name \<noteq> ''.''" "name \<noteq> ''..''"
    by (auto intro!: path_Base_plain simp: isSafeVisibleName_def)
  with n assms(2,3) show ?thesis
    by (auto simp: stat_entry_def acceptable_entry_def split: if_splits)
qed

lemma list_entries_Inr:
  assumes size: "\<And>fd s st s'. sys_fstat K fd s = (Inr st, s') \<Longrightarrow> 0 \<le> sint (st_size st)"
  shows "list_entries K r relative names s = (Inr es, s') \<Longrightarrow>
    length es \<le> length names \<and> (\<forall>e \<in> set es. acceptable_entry e \<and> EntryName e \<in> set names)"
proof (induction names arbitrary: s es s')
  case (Cons name names)
  have len: "length (stat_entry name st) \<le> 1" for st by (simp add: stat_entry_def)
  consider t where "list_entries K r relative names t = (Inr es, s')"
    | fd s1 st s2 es' where "visible_name name" "sys_fstat K fd s1 = (Inr st, s2)"
        "list_entries K r relative names (sys_close K fd s2) = (Inr es', s')"
        "es = stat_entry name st @ es'"
    using Cons.prems by (auto split: if_splits prod.splits sum.splits)
  then show ?case
  proof cases
    case 1
    with Cons.IH show ?thesis by fastforce
  next
    case 2
    then show ?thesis
      using Cons.IH [OF 2(3)] len [of st] stat_entry_acceptable [OF 2(1) size [OF 2(2)]] by auto
  qed
qed simp

lemma secureRoot_close_fds:
  assumes "fd_contract K fds"
  shows "fds (snd (secureRoot_close K r s)) =
    (if root_closed r then fds s else case root_file r of None \<Rightarrow> fds s | Some fd \<Rightarrow> fds s - {fd})"
  using contract_rules(11) [OF assms] by (auto simp: secureRoot_close_def split: option.splits)

text \<open>The descriptor an opened root keeps.\<close>

definition keeps_root :: "('k \<Rightarrow> int set) \<Rightarrow> int \<Rightarrow> 'k \<Rightarrow> (storage_error + secureRoot) \<Rightarrow> 'k \<Rightarrow> bool" where
  "keeps_root fds fd s res s' \<longleftrightarrow>
     (case res of
        Inl _ \<Rightarrow> fds s' = fds s - {fd}
      | Inr r \<Rightarrow> root_file r = Some fd \<and> \<not> root_closed r \<and> fds s' = fds s)"

lemma probe_root_fds:
  assumes C: "fd_contract K fds" and fd: "fd \<in> fds s" and root: "root_file r = Some fd" "\<not> root_closed r"
    and R: "probe_root K r s = (res, s')"
  shows "keeps_root fds fd s res s'"
proof -
  let ?o = "secureRoot_open K r ''.'' [O_RDONLY, O_DIRECTORY, O_CLOEXEC, O_NOFOLLOW] s"
  obtain x s1 where o: "?o = (x, s1)" by (cases ?o) auto
  show ?thesis
    using R o secureRoot_open_fds [OF C o] secureRoot_close_fds [OF C, of r s1] root
      contract_rules(11) [OF C]
    by (auto simp: probe_root_def opens_def keeps_root_def split: sum.splits)
qed

lemma check_root_fds:
  assumes C: "fd_contract K fds" and fd: "fd \<in> fds s"
    and R: "check_root K (Some (inspectPublicRootFilesystem K)) fd s = (res, s')"
  shows "keeps_root fds fd s res s'"
proof -
  obtain x1 s1 where o1: "sys_fstat K fd s = (x1, s1)" by (cases "sys_fstat K fd s") auto
  obtain x2 s2 where o2: "inspectPublicRootFilesystem K fd s1 = (x2, s2)"
    by (cases "inspectPublicRootFilesystem K fd s1") auto
  have s2: "fds s1 = fds s" "fds s2 = fds s"
    using contract_rules(5) [OF C o1] inspect_fds [OF C o2] by simp_all
  have pr: "keeps_root fds fd s res s'"
    if "probe_root K \<lparr> root_file = Some fd, root_mountID = a, root_filesystemType = b, root_closed = False \<rparr> s2
      = (res, s')" for a b
    using probe_root_fds [OF C, of fd, OF _ _ _ that] s2 fd
    by (auto simp: keeps_root_def split: sum.splits)
  have "keeps_root fds fd s (Inl e) (sys_close K fd s1)" "keeps_root fds fd s (Inl e) (sys_close K fd s2)" for e
    using s2 contract_rules(11) [OF C] by (simp_all add: keeps_root_def)
  with R o1 o2 show ?thesis
    by (auto simp: check_root_def dest!: pr split: sum.splits if_splits)
qed

lemma openSecureRoot_fds:
  assumes C: "fd_contract K fds" and R: "openSecureRoot K p s = (res, s')"
  shows "case res of Inl _ \<Rightarrow> fds s' = fds s
    | Inr r \<Rightarrow> \<exists>fd. root_file r = Some fd \<and> \<not> root_closed r \<and> fd \<notin> fds s \<and> fds s' = insert fd (fds s)"
proof -
  let ?rel = "if prefix [slash] p then tl p else p"
  let ?f = "[O_PATH, O_DIRECTORY, O_CLOEXEC, O_NOFOLLOW]"
  let ?rs = "[RESOLVE_BENEATH, RESOLVE_NO_MAGICLINKS, RESOLVE_NO_SYMLINKS]"
  obtain x1 s1 where o1: "sys_open K ''/'' [O_PATH, O_DIRECTORY, O_CLOEXEC] s = (x1, s1)"
    by (cases "sys_open K ''/'' [O_PATH, O_DIRECTORY, O_CLOEXEC] s") auto
  note cl = contract_rules(11) [OF C]
  show ?thesis
  proof (cases x1)
    case (Inl e)
    with R o1 contract_rules(3) [OF C] show ?thesis
      by (auto simp: openSecureRoot_def openSecureRootWith_def)
  next
    case r: (Inr rootFD)
    note r1 = contract_rules(4) [OF C o1 [unfolded r]]
    obtain x2 s2 where o2: "sys_openat2 K rootFD ?rel ?f ?rs s1 = (x2, s2)"
      by (cases "sys_openat2 K rootFD ?rel ?f ?rs s1") auto
    show ?thesis
    proof (cases x2)
      case (Inl e)
      then have "fds s2 = fds s1" using contract_rules(1) [OF C] o2 by blast
      with R o1 o2 r1 r Inl cl show ?thesis
        by (auto simp: openSecureRoot_def openSecureRootWith_def)
    next
      case fd: (Inr fd)
      note r2 = contract_rules(2) [OF C o2 [unfolded fd]]
      obtain x3 s3 where o3: "check_root K (Some (inspectPublicRootFilesystem K)) fd s2 = (x3, s3)"
        by (cases "check_root K (Some (inspectPublicRootFilesystem K)) fd s2") auto
      have "keeps_root fds fd s2 x3 s3" by (rule check_root_fds [OF C _ o3]) (use r2 in simp)
      moreover have "res = x3" "s' = sys_close K rootFD s3"
        using R o1 o2 o3 r fd by (simp_all add: openSecureRoot_def openSecureRootWith_def)
      ultimately show ?thesis
        using r1 r2 cl by (auto simp: keeps_root_def split: sum.splits)
    qed
  qed
qed

section \<open>A concrete kernel\<close>

text \<open>A kernel that satisfies the contract, for the evaluations below: every path opens a fresh
  descriptor of the same regular file or directory.\<close>

type_synonym demo_state = "nat \<times> int set"

definition demo_fds :: "demo_state \<Rightarrow> int set" where
  "demo_fds s = {fd \<in> snd s. 0 \<le> fd \<and> fd < int (fst s)}"

definition demo_kernel :: "u32 \<Rightarrow> string list \<Rightarrow> demo_state kernel" where
  "demo_kernel mode names =
     (let open_fd = (\<lambda>(n, S). (Inr (int n), (n + 1, insert (int n) S))) in
      \<lparr> sys_openat2 = (\<lambda>d p f r. open_fd), sys_open = (\<lambda>p f. open_fd),
        sys_fstat = (\<lambda>fd s. (Inr \<lparr> st_mode = mode, st_nlink = 1, st_dev = 1, st_ino = 2, st_size = 5,
          st_uid = 0, st_gid = 0, st_mtim = (0, 0), st_ctim = (0, 0) \<rparr>, s)),
        sys_fstatfs = (\<lambda>fd s. (Inr 0xEF53, s)), sys_statx = (\<lambda>fd s. (Inr (Some 7), s)),
        sys_readdirnames = (\<lambda>fd n s. ((names, None), s)),
        sys_fgetxattr = (\<lambda>fd a n s. (Inl ENODATA, s)),
        sys_read_limited = (\<lambda>fd n s. (Inr [], s)),
        sys_close = (\<lambda>fd (n, S). (n, S - {fd})) \<rparr>)"

lemma demo_contract: "fd_contract (demo_kernel mode names) demo_fds"
  by (auto simp: fd_contract_def demo_kernel_def demo_fds_def Let_def)

lemma list_entries_subseq:
  "list_entries K r relative names s = (Inr es, s') \<Longrightarrow> subseq (map EntryName es) names"
proof (induction K r relative names s arbitrary: es s' rule: list_entries.induct)
  case (2 K r relative name names s)
  have st: "subseq (map EntryName (stat_entry name st @ es)) (name # names)"
    if "subseq (map EntryName es) names" for st es
    using that by (auto simp: stat_entry_def)
  show ?case
    using "2.prems" "2.IH" by (auto split: if_splits prod.splits sum.splits intro: st)
qed simp

lemma list_entries_visible:
  "list_entries K r relative names s = (Inr es, s') \<Longrightarrow> e \<in> set es \<Longrightarrow>
   visible_name (EntryName e) \<and>
   (EntryType e = ''directory'' \<and> EntrySize e = 0 \<or> EntryType e = ''file'')"
proof (induction K r relative names s arbitrary: es s' rule: list_entries.induct)
  case (2 K r relative name names s)
  have st: "visible_name (EntryName e) \<and>
     (EntryType e = ''directory'' \<and> EntrySize e = 0 \<or> EntryType e = ''file'')"
    if "e \<in> set (stat_entry name st)" "visible_name name" for st
    using that by (auto simp: stat_entry_def split: if_splits)
  show ?case
    using "2.prems" "2.IH" by (auto split: if_splits prod.splits sum.splits dest: st)
qed simp

lemma openRegular_Inr:
  assumes "secureRoot_openRegular K root rel s = (Inr (fd, info), s')"
  shows "\<exists>p s1 before s2 after s3 s4.
    secureRoot_open K root rel [O_PATH, O_CLOEXEC, O_NOFOLLOW] s = (Inr p, s1) \<and>
    sys_fstat K p s1 = (Inr before, s2) \<and> isSingleLinkRegular before \<and>
    reopenPinnedRegular K p s2 = ((fd, None), s3) \<and> fd \<noteq> p \<and>
    fst (sys_fstat K fd s3) = Inr after \<and> isSingleLinkRegular after \<and>
    st_dev after = st_dev before \<and> st_ino after = st_ino before \<and>
    sys_fstat K fd s4 = (Inr info, s') \<and> st_mode info AND S_IFMT = S_IFREG"
proof -
  let ?pin = "secureRoot_open K root rel [O_PATH, O_CLOEXEC, O_NOFOLLOW]"
  obtain p s1 after s4 where p: "?pin s = (Inr p, s1)"
    "pinned_body K (None :: (stat \<Rightarrow> unit option) option) None (Some (reopenPinnedRegular K)) p s1
       = (Inr (fd, after), s4)" "sys_fstat K fd (sys_close K p s4) = (Inr info, s')" "st_mode info AND S_IFMT = S_IFREG"
    using assms
    by (auto simp: secureRoot_openRegular_def secureRoot_openRegularWith_def
        openPinnedRegularValidated_def split: prod.splits sum.splits if_splits)
  obtain before s2 s3 where b: "sys_fstat K p s1 = (Inr before, s2)" "isSingleLinkRegular before"
    "reopenPinnedRegular K p s2 = ((fd, None), s3)" "fd \<noteq> p"
    "check_reopened K (None :: (stat \<Rightarrow> unit option) option) None before fd s3 = (Inr (fd, after), s4)"
    using pinned_body_Inr [OF p(2)] by auto
  show ?thesis
    using p(1, 3, 4) b(1-4) check_reopened_Inr [OF b(5)]
    by (metis fst_conv)
qed

section \<open>Properties of the secure root\<close>

text \<open>C8. Opening the share root, opening a file beneath it and listing a directory never leak a
  descriptor: on every error path everything opened on the way is closed again, and on success
  exactly the returned descriptor stays open, whatever the kernel answers along the way.\<close>

theorem secure_root_leaks_no_descriptor:
  assumes "fd_contract K fds"
  shows "(case openSecureRoot K path s of
      (Inl e, s') \<Rightarrow> fds s' = fds s
    | (Inr r, s') \<Rightarrow> \<exists>fd. root_file r = Some fd \<and> fd \<notin> fds s \<and> fds s' = insert fd (fds s)) \<and>
    (case secureRoot_openRegular K root rel s of
      (Inl e, s') \<Rightarrow> fds s' = fds s
    | (Inr (fd, info), s') \<Rightarrow> fd \<notin> fds s \<and> fds s' = insert fd (fds s)) \<and>
    fds (snd (secureRoot_list K root rel n s)) = fds s"
proof -
  obtain a s1 where a: "openSecureRoot K path s = (a, s1)" by (cases "openSecureRoot K path s") auto
  obtain b s2 where b: "secureRoot_openRegular K root rel s = (b, s2)"
    by (cases "secureRoot_openRegular K root rel s") auto
  obtain c s3 where c: "secureRoot_list K root rel n s = (c, s3)"
    by (cases "secureRoot_list K root rel n s") auto
  show ?thesis
    using a b c openSecureRoot_fds [OF assms a] openRegular_fds [OF assms b]
      secureRoot_list_fds [OF assms c]
    by (auto simp: opens_def split: sum.splits)
qed

theorem secure_root_leaks_no_descriptor_witness:
  "fd_contract (demo_kernel S_IFREG [''a'']) demo_fds \<and>
   demo_fds (snd (secureRoot_list (demo_kernel S_IFREG [''a''])
     \<lparr> root_file = Some 1, root_mountID = 7, root_filesystemType = 0xEF53, root_closed = False \<rparr> [] 5 (3, {1})))
     = demo_fds (3, {1})"
  using demo_contract [of S_IFREG "[''a'']"]
    secure_root_leaks_no_descriptor [OF demo_contract [of S_IFREG "[''a'']"], where s = "(3, {1})"]
  by blast

text \<open>C9. A file the worker opens for a download is the object that was pinned: its data descriptor is
  a different descriptor of a single-link regular file with the device and inode of the pinned
  one, so a name swapped between the check and the reopen is never served, and the size and time it
  reports are those of a last look at that descriptor.\<close>

theorem opened_file_is_the_pinned_one:
  assumes "secureRoot_openRegular K root rel s = (Inr (fd, info), s')"
  shows "\<exists>p s1 before s2 after s3 s4.
    secureRoot_open K root rel [O_PATH, O_CLOEXEC, O_NOFOLLOW] s = (Inr p, s1) \<and>
    sys_fstat K p s1 = (Inr before, s2) \<and> isSingleLinkRegular before \<and>
    reopenPinnedRegular K p s2 = ((fd, None), s3) \<and> fd \<noteq> p \<and>
    fst (sys_fstat K fd s3) = Inr after \<and> isSingleLinkRegular after \<and>
    st_dev after = st_dev before \<and> st_ino after = st_ino before \<and>
    sys_fstat K fd s4 = (Inr info, s') \<and> st_mode info AND S_IFMT = S_IFREG"
  using assms by (rule openRegular_Inr)

theorem opened_file_is_the_pinned_one_witness:
  "\<exists>fd info s'. secureRoot_openRegular (demo_kernel S_IFREG [])
     \<lparr> root_file = Some 1, root_mountID = 7, root_filesystemType = 0xEF53, root_closed = False \<rparr> ''a'' (3, {1})
     = (Inr (fd, info), s') \<and> fd = 4 \<and>
   (\<exists>p s1. secureRoot_open (demo_kernel S_IFREG [])
     \<lparr> root_file = Some 1, root_mountID = 7, root_filesystemType = 0xEF53, root_closed = False \<rparr> ''a''
       [O_PATH, O_CLOEXEC, O_NOFOLLOW] (3, {1}) = (Inr p, s1) \<and> fd \<noteq> p)"
proof -
  let ?r = "\<lparr> root_file = Some 1, root_mountID = 7, root_filesystemType = 0xEF53, root_closed = False \<rparr>"
  obtain info s' where o: "secureRoot_openRegular (demo_kernel S_IFREG []) ?r ''a'' (3, {1})
      = (Inr (4, info), s')"
    by (simp add: secureRoot_openRegular_def secureRoot_openRegularWith_def secureRoot_open_def
        openPinnedRegularValidated_def pinned_body_def check_reopened_def reopenPinnedRegular_def
        publicRootMountID_def demo_kernel_def isSingleLinkRegular_def S_IFREG_def S_IFMT_def Let_def)
  show ?thesis using o opened_file_is_the_pinned_one [OF o] by blast
qed

text \<open>C10. A directory listing carries only names that may be shown: every entry has a safe visible
  name without a leading dot or a separator, is a directory of size 0 or a file, and there are at
  most as many entries as the caller allows, never a silently cut listing.\<close>

theorem listing_is_bounded_and_visible:
  assumes "secureRoot_list K r relative maxEntries s = (Inr es, s')"
  shows "length es \<le> maxEntries \<and>
    (\<forall>e\<in>set es. visible_name (EntryName e) \<and>
       (EntryType e = ''directory'' \<and> EntrySize e = 0 \<or> EntryType e = ''file'')) \<and>
    (\<exists>fd s1 names s2. sys_readdirnames K fd (maxEntries + 1) s1 = ((names, None), s2) \<and>
       length names \<le> maxEntries \<and> subseq (map EntryName es) names)"
proof -
  obtain fd s1 names s2 s3 where l: "sys_readdirnames K fd (maxEntries + 1) s1 = ((names, None), s2)"
      "length names \<le> maxEntries" "list_entries K r relative names s2 = (Inr es, s3)"
    using assms
    by (auto simp: secureRoot_list_def not_less split: prod.splits sum.splits option.splits if_splits)
  have sub: "subseq (map EntryName es) names"
    using l(3) by (rule list_entries_subseq)
  show ?thesis
    using l sub list_entries_visible [OF l(3)] list_emb_length [OF sub] by fastforce
qed

theorem listing_is_bounded_and_visible_witness:
  "secureRoot_list (demo_kernel S_IFREG [''a'', ''.b'', ''c''])
     \<lparr> root_file = Some 1, root_mountID = 7, root_filesystemType = 0xEF53, root_closed = False \<rparr> [] 5 (3, {1})
     = (Inr [\<lparr> EntryName = ''a'', EntryType = ''file'', EntrySize = 5 \<rparr>,
             \<lparr> EntryName = ''c'', EntryType = ''file'', EntrySize = 5 \<rparr>], (6, {1})) \<and>
   visible_name ''c''"
proof -
  let ?r = "\<lparr> root_file = Some 1, root_mountID = 7, root_filesystemType = 0xEF53, root_closed = False \<rparr>"
  let ?K = "demo_kernel S_IFREG [''a'', ''.b'', ''c'']"
  let ?es = "[\<lparr> EntryName = ''a'', EntryType = ''file'', EntrySize = 5 \<rparr>,
             \<lparr> EntryName = ''c'', EntryType = ''file'', EntrySize = 5 \<rparr>]"
  have l: "secureRoot_list ?K ?r [] 5 (3, {1}) = (Inr ?es, (6, {1}))"
    by (simp add: secureRoot_list_def secureRoot_open_def publicRootMountID_def demo_kernel_def
        visible_name_def stat_entry_def S_IFREG_def S_IFDIR_def S_IFMT_def isSafeVisibleName_def text_eval)
  show ?thesis using l listing_is_bounded_and_visible [OF l] by simp
qed

text \<open>C26. The filesystem allowlist is exact on the 64-bit value \<open>statfs\<close> reports: a root is accepted
  exactly when the value is one of the five magics, zero-extended, or one of the two magics with
  the top bit set, sign-extended the way a 32-bit kernel field reports it; no other value with
  the same low word gets in.\<close>

theorem filesystem_allowlist_exact:
  "publicRootFilesystemName magic \<noteq> None \<longleftrightarrow>
   magic \<in> {0xEF53, 0x58465342, 0x9123683E, 0x01021994, 0xF2F52010,
             0xFFFFFFFF9123683E, 0xFFFFFFFFF2F52010}"
proof -
  have low: "magic = ucast (ucast magic :: u32) \<Longrightarrow> (ucast magic :: u32) = w \<Longrightarrow> magic = ucast w"
    and sgn: "magic = scast (ucast magic :: u32) \<Longrightarrow> (ucast magic :: u32) = w \<Longrightarrow> magic = scast w" for w
    by simp_all
  show ?thesis
    unfolding publicRootFilesystemName_def Let_def EXT4_SUPER_MAGIC_def XFS_SUPER_MAGIC_def
      BTRFS_SUPER_MAGIC_def TMPFS_MAGIC_def F2FS_SUPER_MAGIC_def
    by (auto dest: low sgn)
qed

end
