(* ===== verification/Worker_Ipc.thy ===== *)
theory Worker_Ipc
  imports Secure_Root
begin

text \<open>
  Frames over the worker socket (\<open>pkg/publicfiles/worker_ipc_linux.go\<close>): sending, receiving and the
  descriptors that travel with a frame. The socket, the kernel and the control-message functions of
  \<open>golang.org/x/sys/unix\<close> are parameters. Receiving is shown to close every descriptor it does not
  hand to its caller, and a pair of FIFO packet queues is given as the socket the components are
  composed over.
\<close>

section \<open>The socket interface\<close>

record recv_result =
  rr_packet :: bytes                  \<comment> \<open>\<open>packet[:packetBytes]\<close>\<close>
  rr_oob :: bytes                     \<comment> \<open>\<open>outOfBand[:outOfBandBytes]\<close>\<close>
  rr_truncated :: bool                \<comment> \<open>\<open>MSG_TRUNC\<close> or \<open>MSG_CTRUNC\<close> is set\<close>
  rr_err :: "storage_error option"    \<comment> \<open>the error of \<open>Recvmsg\<close> itself\<close>

record 'w ipc =
  ipc_kernel :: "'w kernel"
  ipc_pread :: "int \<Rightarrow> nat \<Rightarrow> i64 \<Rightarrow> 'w \<Rightarrow> (errno + bytes) \<times> 'w"
  ipc_setWriteDeadline :: "int \<Rightarrow> 'w \<Rightarrow> bool \<times> 'w"
  ipc_setReadDeadline :: "int \<Rightarrow> 'w \<Rightarrow> bool \<times> 'w"
  ipc_writeMsg :: "bytes \<Rightarrow> bytes \<Rightarrow> 'w \<Rightarrow> (storage_error + nat \<times> nat) \<times> 'w"
  ipc_recvMsg :: "'w \<Rightarrow> (storage_error + recv_result) \<times> 'w"
  ipc_UnixRights :: "int list \<Rightarrow> bytes"
  ipc_parseControl :: "bytes \<Rightarrow> bytes list \<times> bool"   \<comment> \<open>messages, and whether parsing failed\<close>
  ipc_parseRights :: "bytes \<Rightarrow> int list option"
  ipc_after :: "int \<Rightarrow> 'w \<Rightarrow> int"                      \<comment> \<open>\<open>time.Now().Add(d)\<close>\<close>

definition storageWorkerMaxRights :: nat where "storageWorkerMaxRights = 2"

section \<open>Descriptors in control messages\<close>

fun closeStorageWorkerRights :: "'w kernel \<Rightarrow> int list \<Rightarrow> 'w \<Rightarrow> 'w" where
  "closeStorageWorkerRights K [] w = w"
| "closeStorageWorkerRights K (fd # rights) w = closeStorageWorkerRights K rights (sys_close K fd w)"

fun collect_rights ::
    "'w ipc \<Rightarrow> bytes list \<Rightarrow> int list \<Rightarrow> 'w \<Rightarrow> (storage_error + int list) \<times> 'w" where
  "collect_rights I [] rights w = (Inr rights, w)"
| "collect_rights I (message # messages) rights w =
     (case ipc_parseRights I message of
        None \<Rightarrow> (Inl errStorageProtocol, closeStorageWorkerRights (ipc_kernel I) rights w)
      | Some parsed \<Rightarrow>
          if parsed = []
          then (Inl errStorageProtocol, closeStorageWorkerRights (ipc_kernel I) rights w)
          else if storageWorkerMaxRights < length (rights @ parsed)
          then (Inl errStorageProtocol, closeStorageWorkerRights (ipc_kernel I) (rights @ parsed) w)
          else collect_rights I messages (rights @ parsed) w)"

definition parseStorageWorkerRights :: "'w ipc \<Rightarrow> bytes \<Rightarrow> 'w \<Rightarrow> (storage_error + int list) \<times> 'w" where
  "parseStorageWorkerRights I outOfBand w =
     (if outOfBand = [] then (Inr [], w)
      else case ipc_parseControl I outOfBand of
        (messages, parseErr) \<Rightarrow>
          if messages = [] then (Inl errStorageProtocol, w)
          else case collect_rights I messages [] w of
            (Inl e, w1) \<Rightarrow> (Inl e, w1)
          | (Inr rights, w1) \<Rightarrow>
              if parseErr
              then (Inl errStorageProtocol, closeStorageWorkerRights (ipc_kernel I) rights w1)
              else (Inr rights, w1))"

section \<open>Sending and receiving\<close>

definition sendStorageWorkerFrame ::
    "'w ipc \<Rightarrow> storageWorkerFrame \<Rightarrow> int list \<Rightarrow> int \<Rightarrow> 'w \<Rightarrow> storage_error option \<times> 'w" where
  "sendStorageWorkerFrame I frame rights deadline w =
     (if storageWorkerMaxRights < length rights then (Some errStorageProtocol, w)
      else case marshalStorageWorkerFrame frame of
        Inl e \<Rightarrow> (Some e, w)
      | Inr packet \<Rightarrow>
          (case ipc_setWriteDeadline I deadline w of
             (ok, w1) \<Rightarrow>
               if \<not> ok then (Some errStorageProtocol, w1)
               else let outOfBand = (if rights = [] then [] else ipc_UnixRights I rights) in
                 (case ipc_writeMsg I packet outOfBand w1 of
                    (Inl e, w2) \<Rightarrow> (Some e, w2)
                  | (Inr (written, outOfBandWritten), w2) \<Rightarrow>
                      if written \<noteq> length packet \<or> outOfBandWritten \<noteq> length outOfBand
                      then (Some errStorageProtocol, w2) else (None, w2))))"

text \<open>What is done with a received packet once its rights are parsed.\<close>

definition accept_packet ::
    "'w ipc \<Rightarrow> recv_result \<Rightarrow> (storage_error + int list) \<Rightarrow> 'w \<Rightarrow>
     (storage_error + storageWorkerFrame \<times> int list) \<times> 'w" where
  "accept_packet I rr parsed w =
     (let rights = (case parsed of Inl _ \<Rightarrow> [] | Inr fds \<Rightarrow> fds);
          close = closeStorageWorkerRights (ipc_kernel I) rights in
      case rr_err rr of
        Some e \<Rightarrow> (Inl e, close w)
      | None \<Rightarrow>
          if rr_truncated rr \<or> rr_packet rr = []
             \<or> storageWorkerHeaderBytes + storageWorkerMaxFramePayload < length (rr_packet rr)
          then (Inl errStorageProtocol, close w)
          else (case parsed of
            Inl e \<Rightarrow> (Inl e, w)
          | Inr _ \<Rightarrow>
              (case parseStorageWorkerFrame (rr_packet rr) of
                 Inl e \<Rightarrow> (Inl e, close w)
               | Inr frame \<Rightarrow> (Inr (frame, rights), w))))"

definition receiveStorageWorkerFrame ::
    "'w ipc \<Rightarrow> int \<Rightarrow> 'w \<Rightarrow> (storage_error + storageWorkerFrame \<times> int list) \<times> 'w" where
  "receiveStorageWorkerFrame I deadline w =
     (case ipc_setReadDeadline I deadline w of
        (ok, w1) \<Rightarrow>
          if \<not> ok then (Inl errStorageProtocol, w1)
          else (case ipc_recvMsg I w1 of
            (Inl e, w2) \<Rightarrow> (Inl e, w2)
          | (Inr rr, w2) \<Rightarrow>
              (case parseStorageWorkerRights I (rr_oob rr) w2 of
                 (parsed, w3) \<Rightarrow> accept_packet I rr parsed w3)))"

text \<open>\<open>errors.Is(err, os.ErrDeadlineExceeded)\<close> or a \<open>net.Error\<close> whose \<open>Timeout\<close> is true; an errno is such
  an error for the two that mean a timeout.\<close>

definition is_timeout :: "storage_error \<Rightarrow> bool" where
  "is_timeout e \<longleftrightarrow> e \<in> {ErrDeadlineExceeded, Errno EAGAIN, Errno ETIMEDOUT}"

definition classifyStorageWorkerIPCError :: "bool \<Rightarrow> storage_error \<Rightarrow> storage_error" where
  "classifyStorageWorkerIPCError ctxDone e =
     (if ctxDone then errStorageTimeout else if is_timeout e then errStorageTimeout else errStorageProtocol)"

section \<open>A socket of two packet queues\<close>

text \<open>The documented behaviour of a connected \<open>SOCK_SEQPACKET\<close> pair as one end sees it: packets arrive
  whole and in order, each with its descriptors; a read at the end of the queue sees the closed
  peer as an empty packet.\<close>

record 'k queue_world =
  qw_kernel :: 'k
  inbox :: "(bytes \<times> int list) list"
  outbox :: "(bytes \<times> int list) list"

definition lift_sys :: "('k \<Rightarrow> 'a \<times> 'k) \<Rightarrow> 'k queue_world \<Rightarrow> 'a \<times> 'k queue_world" where
  "lift_sys f w = (case f (qw_kernel w) of (a, k) \<Rightarrow> (a, w\<lparr>qw_kernel := k\<rparr>))"

definition queue_kernel :: "'k kernel \<Rightarrow> 'k queue_world kernel" where
  "queue_kernel K =
     \<lparr> sys_openat2 = (\<lambda>d p f r. lift_sys (sys_openat2 K d p f r)), sys_open = (\<lambda>p f. lift_sys (sys_open K p f)),
       sys_fstat = (\<lambda>fd. lift_sys (sys_fstat K fd)), sys_fstatfs = (\<lambda>fd. lift_sys (sys_fstatfs K fd)),
       sys_statx = (\<lambda>fd. lift_sys (sys_statx K fd)),
       sys_readdirnames = (\<lambda>fd n. lift_sys (sys_readdirnames K fd n)),
       sys_fgetxattr = (\<lambda>fd a n. lift_sys (sys_fgetxattr K fd a n)),
       sys_read_limited = (\<lambda>fd n. lift_sys (sys_read_limited K fd n)),
       sys_close = (\<lambda>fd w. w\<lparr>qw_kernel := sys_close K fd (qw_kernel w)\<rparr>) \<rparr>"

text \<open>Rights travel as one control message that holds the descriptors, four bytes each. Linux gives the
  receiver a new descriptor for the same open file; here both ends share one kernel state, and the
  descriptor keeps its number. A descriptor that the portal keeps open and passes along (the root)
  is then also the one the worker closes, so results over this socket speak of one request at a
  time and of what the two ends compute, not of which numbers stay open in the portal.\<close>

definition put_rights :: "int list \<Rightarrow> bytes" where
  "put_rights fds = concat (map (\<lambda>fd. PutUint32 (of_int fd)) fds)"

fun get_rights :: "bytes \<Rightarrow> int list" where
  "get_rights (a # b # c # d # r) = sint (Uint32 [a, b, c, d]) # get_rights r"
| "get_rights _ = []"

definition queue_ipc ::
    "'k kernel \<Rightarrow> (int \<Rightarrow> nat \<Rightarrow> i64 \<Rightarrow> 'k \<Rightarrow> (errno + bytes) \<times> 'k) \<Rightarrow> 'k queue_world ipc" where
  "queue_ipc K pread =
     \<lparr> ipc_kernel = queue_kernel K, ipc_pread = (\<lambda>fd n off. lift_sys (pread fd n off)),
       ipc_setWriteDeadline = (\<lambda>t w. (True, w)), ipc_setReadDeadline = (\<lambda>t w. (True, w)),
       ipc_writeMsg = (\<lambda>packet oob w.
         (Inr (length packet, length oob), w\<lparr>outbox := outbox w @ [(packet, get_rights oob)]\<rparr>)),
       ipc_recvMsg = (\<lambda>w.
         case inbox w of
           [] \<Rightarrow> (Inr \<lparr> rr_packet = [], rr_oob = [], rr_truncated = False, rr_err = None \<rparr>, w)
         | (packet, fds) # rest \<Rightarrow>
             (Inr \<lparr> rr_packet = packet, rr_oob = put_rights fds, rr_truncated = False, rr_err = None \<rparr>,
              w\<lparr>inbox := rest\<rparr>)),
       ipc_UnixRights = put_rights, ipc_parseControl = (\<lambda>oob. ([oob], False)),
       ipc_parseRights = (\<lambda>m. Some (get_rights m)), ipc_after = (\<lambda>d w. d) \<rparr>"

section \<open>One frame over a working socket\<close>

lemma sent_frame:
  assumes "marshalStorageWorkerFrame fr = Inr pk" "ipc_setWriteDeadline I t w = (True, w1)"
    and "ipc_writeMsg I pk [] w1 = (Inr (length pk, 0), w2)"
  shows "sendStorageWorkerFrame I fr [] t w = (None, w2)"
  using assms by (simp add: sendStorageWorkerFrame_def)

lemma parsed_packet_bounds:
  assumes "parseStorageWorkerFrame pk = Inr fr"
  shows "pk \<noteq> [] \<and> length pk \<le> storageWorkerHeaderBytes + storageWorkerMaxFramePayload"
  using assms
  by (auto simp: parseStorageWorkerFrame_def Let_def storageWorkerHeaderBytes_def split: if_splits)

lemma received_frame:
  assumes "parseStorageWorkerFrame pk = Inr fr" "ipc_setReadDeadline I t w = (True, w1)"
    and "ipc_recvMsg I w1 = (Inr \<lparr> rr_packet = pk, rr_oob = [], rr_truncated = False, rr_err = None \<rparr>, w2)"
  shows "receiveStorageWorkerFrame I t w = (Inr (fr, []), w2)"
  using assms parsed_packet_bounds [OF assms(1)]
  by (simp add: receiveStorageWorkerFrame_def parseStorageWorkerRights_def accept_packet_def Let_def)

lemma queue_send:
  assumes "marshalStorageWorkerFrame fr = Inr pk"
  shows "sendStorageWorkerFrame (queue_ipc K pread) fr [] t w = (None, w\<lparr>outbox := outbox w @ [(pk, [])]\<rparr>)"
  by (rule sent_frame [OF assms]) (simp_all add: queue_ipc_def)

lemma queue_receive:
  assumes "marshalStorageWorkerFrame fr = Inr pk" "inbox w = (pk, []) # rest"
  shows "receiveStorageWorkerFrame (queue_ipc K pread) t w = (Inr (fr, []), w\<lparr>inbox := rest\<rparr>)"
proof (rule received_frame [OF frame_codec.dec_enc [OF assms(1)]])
  show "ipc_setReadDeadline (queue_ipc K pread) t w = (True, w)" by (simp add: queue_ipc_def)
  show "ipc_recvMsg (queue_ipc K pread) w =
      (Inr \<lparr> rr_packet = pk, rr_oob = [], rr_truncated = False, rr_err = None \<rparr>, w\<lparr>inbox := rest\<rparr>)"
    using assms(2) by (simp add: queue_ipc_def put_rights_def)
qed

section \<open>Descriptors that arrive\<close>

text \<open>What the socket promises about descriptors: \<open>fds w\<close> is the set of open descriptors, only
  \<open>Recvmsg\<close> adds to it, and what it adds is what the control message it returns parses to.\<close>

definition rights_contract :: "'w ipc \<Rightarrow> ('w \<Rightarrow> int set) \<Rightarrow> bool" where
  "rights_contract I fds \<longleftrightarrow>
     (\<forall>fd w. fds (sys_close (ipc_kernel I) fd w) = fds w - {fd}) \<and>
     (\<forall>t w. fds (snd (ipc_setReadDeadline I t w)) = fds w) \<and>
     (\<forall>w. case ipc_recvMsg I w of
        (Inl e, w1) \<Rightarrow> fds w1 = fds w
      | (Inr rr, w1) \<Rightarrow>
          \<exists>new. fds w1 = fds w \<union> set new \<and> set new \<inter> fds w = {} \<and>
            (if rr_oob rr = [] then new = []
             else \<exists>msg bad. ipc_parseControl I (rr_oob rr) = ([msg], bad) \<and>
               (case ipc_parseRights I msg of None \<Rightarrow> new = [] | Some l \<Rightarrow> new = l)))"

lemma close_rights_fds:
  assumes "\<forall>fd w. fds (sys_close K fd w) = fds w - {fd}"
  shows "fds (closeStorageWorkerRights K rights w) = fds w - set rights"
  using assms by (induction K rights w rule: closeStorageWorkerRights.induct) auto

lemma parse_rights_fds:
  assumes c: "\<forall>fd w. fds (sys_close (ipc_kernel I) fd w) = fds w - {fd}"
    and r: "fds w = base \<union> set new" "set new \<inter> base = {}"
      "if oob = [] then new = [] else \<exists>msg bad. ipc_parseControl I oob = ([msg], bad) \<and>
         (case ipc_parseRights I msg of None \<Rightarrow> new = [] | Some l \<Rightarrow> new = l)"
    and p: "parseStorageWorkerRights I oob w = (parsed, w1)"
  shows "case parsed of Inl e \<Rightarrow> fds w1 = base
         | Inr rights \<Rightarrow> rights = new \<and> length new \<le> 2 \<and> fds w1 = base \<union> set new"
proof (cases "oob = []")
  case True
  then show ?thesis using r p by (auto simp: parseStorageWorkerRights_def)
next
  case False
  then obtain msg bad where m: "ipc_parseControl I oob = ([msg], bad)"
    "case ipc_parseRights I msg of None \<Rightarrow> new = [] | Some l \<Rightarrow> new = l" using r(3) by auto
  have d: "fds w - set new = base" using r(1, 2) by auto
  show ?thesis using False m p r(1) d
    by (auto simp: parseStorageWorkerRights_def close_rights_fds [OF c] storageWorkerMaxRights_def
        split: option.splits if_splits)
qed

lemma accept_packet_cases:
  assumes "accept_packet I rr parsed w = (res, w')"
  shows "(\<exists>e. res = Inl e \<and> w' = closeStorageWorkerRights (ipc_kernel I) (case parsed of Inl _ \<Rightarrow> [] | Inr fds \<Rightarrow> fds) w) \<or>
    (\<exists>frame rights. parsed = Inr rights \<and> res = Inr (frame, rights) \<and> w' = w)"
  using assms by (cases parsed) (auto simp: accept_packet_def Let_def split: option.splits if_splits sum.splits)

text \<open>C24. Receiving a frame never leaks or loses a descriptor: when it fails, for whatever reason, every
  descriptor that came with the packet is closed again and the others are untouched; when it succeeds
  the caller gets exactly the new descriptors, at most two.\<close>

theorem received_rights_accounted:
  assumes "rights_contract I fds" "receiveStorageWorkerFrame I t w = (res, w')"
  shows "case res of Inl e \<Rightarrow> fds w' = fds w
         | Inr (frame, rights) \<Rightarrow> length rights \<le> 2 \<and> fds w' = fds w \<union> set rights \<and> set rights \<inter> fds w = {}"
proof -
  note c = assms(1) [unfolded rights_contract_def, THEN conjunct1]
  note s = assms(1) [unfolded rights_contract_def, THEN conjunct2, THEN conjunct1, rule_format]
  note r = assms(1) [unfolded rights_contract_def, THEN conjunct2, THEN conjunct2, rule_format]
  obtain ok w1 where d: "ipc_setReadDeadline I t w = (ok, w1)" by (rule prod.exhaust)
  have w1: "fds w1 = fds w" using s [of t w] d by simp
  obtain rx w2 where m: "ipc_recvMsg I w1 = (rx, w2)" by (rule prod.exhaust)
  show ?thesis
  proof (cases "ok \<and> \<not> isl rx")
    case False
    then show ?thesis using assms(2) w1 d m r [of w1]
      by (cases rx) (auto simp: receiveStorageWorkerFrame_def split: if_splits)
  next
    case True
    then obtain rr where rr: "rx = Inr rr" by (cases rx) auto
    obtain parsed w3 where p: "parseStorageWorkerRights I (rr_oob rr) w2 = (parsed, w3)" by (rule prod.exhaust)
    obtain new where new: "fds w2 = fds w \<union> set new" "set new \<inter> fds w = {}"
      "if rr_oob rr = [] then new = [] else \<exists>msg bad. ipc_parseControl I (rr_oob rr) = ([msg], bad) \<and>
         (case ipc_parseRights I msg of None \<Rightarrow> new = [] | Some l \<Rightarrow> new = l)"
      using r [of w1] w1 by (auto simp: m rr)
    have q: "case parsed of Inl e \<Rightarrow> fds w3 = fds w
        | Inr rights \<Rightarrow> rights = new \<and> length new \<le> 2 \<and> fds w3 = fds w \<union> set new"
      by (rule parse_rights_fds [OF c new p])
    have x: "fds w \<union> set new - set new = fds w" using new(2) by auto
    have "accept_packet I rr parsed w3 = (res, w')"
      using assms(2) True by (simp add: receiveStorageWorkerFrame_def d m rr p)
    from accept_packet_cases [OF this] show ?thesis using q x new(2)
      by (cases parsed) (auto simp: close_rights_fds [OF c])
  qed
qed

text \<open>A socket that delivers descriptor 5 with a packet that is no frame.\<close>

definition closing_kernel :: "int set kernel" where
  "closing_kernel =
     \<lparr> sys_openat2 = (\<lambda>d p f r w. (Inl ENOENT, w)), sys_open = (\<lambda>p f w. (Inl ENOENT, w)),
       sys_fstat = (\<lambda>fd w. (Inl ENOENT, w)), sys_fstatfs = (\<lambda>fd w. (Inl ENOENT, w)),
       sys_statx = (\<lambda>fd w. (Inl ENOENT, w)), sys_readdirnames = (\<lambda>fd n w. (([], None), w)),
       sys_fgetxattr = (\<lambda>fd a n w. (Inl ENOENT, w)), sys_read_limited = (\<lambda>fd n w. (Inl ENOENT, w)),
       sys_close = (\<lambda>fd w. w - {fd}) \<rparr>"

definition demo_socket :: "int set ipc" where
  "demo_socket =
     \<lparr> ipc_kernel = closing_kernel, ipc_pread = (\<lambda>fd n off w. (Inr [], w)),
       ipc_setWriteDeadline = (\<lambda>t w. (True, w)), ipc_setReadDeadline = (\<lambda>t w. (True, w)),
       ipc_writeMsg = (\<lambda>packet oob w. (Inr (length packet, length oob), w)),
       ipc_recvMsg = (\<lambda>w. (Inr \<lparr> rr_packet = [1], rr_oob = (if 5 \<in> w then [] else [7]), rr_truncated = False,
                                rr_err = None \<rparr>, w \<union> {5})),
       ipc_UnixRights = (\<lambda>fds. []), ipc_parseControl = (\<lambda>oob. ([oob], False)),
       ipc_parseRights = (\<lambda>m. Some [5]), ipc_after = (\<lambda>d w. d) \<rparr>"

theorem received_rights_accounted_witness:
  "rights_contract demo_socket id \<and> snd (receiveStorageWorkerFrame demo_socket 0 {3}) = {3}"
proof -
  have c: "rights_contract demo_socket id" by (auto simp: rights_contract_def demo_socket_def closing_kernel_def)
  moreover obtain res w where r: "receiveStorageWorkerFrame demo_socket 0 {3} = (res, w)" by (rule prod.exhaust)
  moreover have "isl res" using r
    by (auto simp: receiveStorageWorkerFrame_def demo_socket_def closing_kernel_def parseStorageWorkerRights_def accept_packet_def
        storageWorkerMaxRights_def parseStorageWorkerFrame_def storageWorkerHeaderBytes_def Let_def)
  ultimately show ?thesis using received_rights_accounted [OF c r] by (cases res) auto
qed

section \<open>The kernel under the queues\<close>

text \<open>Code that only calls the kernel runs over the queues as it runs over the kernel alone.\<close>

definition on_kernel :: "'a \<times> 'k \<Rightarrow> 'k queue_world \<Rightarrow> 'a \<times> 'k queue_world" where
  "on_kernel rk w = (fst rk, w\<lparr>qw_kernel := snd rk\<rparr>)"

lemma on_kernel_pair [simp]: "on_kernel (r, k) w = (r, w\<lparr>qw_kernel := k\<rparr>)"
  by (simp add: on_kernel_def)

lemma queue_kernel_ops [simp]:
  "sys_openat2 (queue_kernel K) d p f r w = on_kernel (sys_openat2 K d p f r (qw_kernel w)) w"
  "sys_open (queue_kernel K) p f w = on_kernel (sys_open K p f (qw_kernel w)) w"
  "sys_fstat (queue_kernel K) fd w = on_kernel (sys_fstat K fd (qw_kernel w)) w"
  "sys_fstatfs (queue_kernel K) fd w = on_kernel (sys_fstatfs K fd (qw_kernel w)) w"
  "sys_statx (queue_kernel K) fd w = on_kernel (sys_statx K fd (qw_kernel w)) w"
  "sys_readdirnames (queue_kernel K) fd n w = on_kernel (sys_readdirnames K fd n (qw_kernel w)) w"
  "sys_close (queue_kernel K) fd w = w\<lparr>qw_kernel := sys_close K fd (qw_kernel w)\<rparr>"
  by (simp_all add: queue_kernel_def lift_sys_def on_kernel_def split: prod.split)

lemma queue_publicRootMountID [simp]:
  "publicRootMountID (queue_kernel K) fd w = on_kernel (publicRootMountID K fd (qw_kernel w)) w"
  by (simp add: publicRootMountID_def split: prod.split sum.split option.split)

lemma queue_inspect [simp]:
  "inspectPublicRootFilesystem (queue_kernel K) fd w = on_kernel (inspectPublicRootFilesystem K fd (qw_kernel w)) w"
  by (simp add: inspectPublicRootFilesystem_def split: prod.split sum.split)

lemma queue_secureRoot_open [simp]:
  "secureRoot_open (queue_kernel K) r p f w = on_kernel (secureRoot_open K r p f (qw_kernel w)) w"
  by (simp add: secureRoot_open_def split: prod.split sum.split option.split)

lemma queue_secureRoot_close [simp]:
  "secureRoot_close (queue_kernel K) r w = on_kernel (secureRoot_close K r (qw_kernel w)) w"
  by (simp add: secureRoot_close_def split: option.split)

lemma queue_secureRootFromWorkerFD [simp]:
  "secureRootFromWorkerFD (queue_kernel K) fd m t w = on_kernel (secureRootFromWorkerFD K fd m t (qw_kernel w)) w"
  by (simp add: secureRootFromWorkerFD_def split: prod.split sum.split)

lemma queue_list_entries [simp]:
  "list_entries (queue_kernel K) r p names w = on_kernel (list_entries K r p names (qw_kernel w)) w"
  by (cases "p = []"; induction names arbitrary: w) (simp_all add: on_kernel_def case_prod_beta split: sum.split)

lemma queue_secureRoot_list [simp]:
  "secureRoot_list (queue_kernel K) r p n w = on_kernel (secureRoot_list K r p n (qw_kernel w)) w"
  by (simp add: secureRoot_list_def on_kernel_def case_prod_beta split: sum.split option.split)

lemma queue_reopen [simp]:
  "reopenPinnedRegular (queue_kernel K) fd w = on_kernel (reopenPinnedRegular K fd (qw_kernel w)) w"
  by (simp add: reopenPinnedRegular_def split: prod.split sum.split)

lemma queue_pinned_body [simp]:
  "pinned_body (queue_kernel K) None None (Some (reopenPinnedRegular (queue_kernel K))) fd w =
   on_kernel (pinned_body K None None (Some (reopenPinnedRegular K)) fd (qw_kernel w)) w"
  by (auto simp: pinned_body_def check_reopened_def on_kernel_def case_prod_beta split: sum.split option.split)

lemma queue_openRegular [simp]:
  "secureRoot_openRegular (queue_kernel K) r p w = on_kernel (secureRoot_openRegular K r p (qw_kernel w)) w"
  by (simp add: secureRoot_openRegular_def secureRoot_openRegularWith_def openPinnedRegularValidated_def
      split: prod.split sum.split)

section \<open>Descriptors over the queues\<close>

lemma get_put_rights:
  assumes "0 \<le> fd" "fd < 2 ^ 31"
  shows "get_rights (put_rights [fd]) = [fd]" "put_rights [fd] \<noteq> []"
proof -
  have "\<exists>a b c d. xs = [a, b, c, d]" if "length xs = 4" for xs :: bytes
    using that by (auto simp: length_Suc_conv numeral_eq_Suc)
  then obtain a b c d where p: "PutUint32 (of_int fd) = [a, b, c, d]" using length_PutUint(2) by blast
  have "Uint32 [a, b, c, d] = of_int fd" using Uint_PutUint(2) [of "of_int fd"] by (simp add: p)
  moreover have "sint (of_int fd :: u32) = fd" using assms by (simp add: int_word_sint)
  ultimately show "get_rights (put_rights [fd]) = [fd]" "put_rights [fd] \<noteq> []" by (simp_all add: put_rights_def p)
qed

lemma received_frame_with_right:
  assumes "parseStorageWorkerFrame pk = Inr fr" "ipc_setReadDeadline I t w = (True, w1)"
    and "ipc_recvMsg I w1 = (Inr \<lparr> rr_packet = pk, rr_oob = oob, rr_truncated = False, rr_err = None \<rparr>, w2)"
    and "oob \<noteq> []" "ipc_parseControl I oob = ([oob], False)" "ipc_parseRights I oob = Some [fd]"
  shows "receiveStorageWorkerFrame I t w = (Inr (fr, [fd]), w2)"
  using assms parsed_packet_bounds [OF assms(1)]
  by (simp add: receiveStorageWorkerFrame_def parseStorageWorkerRights_def accept_packet_def storageWorkerMaxRights_def Let_def)

lemma queue_receive_with_right:
  assumes "marshalStorageWorkerFrame fr = Inr pk" "inbox w = (pk, [fd]) # rest" "0 \<le> fd" "fd < 2 ^ 31"
  shows "receiveStorageWorkerFrame (queue_ipc K pread) t w = (Inr (fr, [fd]), w\<lparr>inbox := rest\<rparr>)"
  by (rule received_frame_with_right [OF frame_codec.dec_enc [OF assms(1)], where oob = "put_rights [fd]" and ?w1.0 = w])
     (use assms(2) get_put_rights [OF assms(3, 4)] in \<open>simp_all add: queue_ipc_def\<close>)

lemma queue_ipc_kernel [simp]: "ipc_kernel (queue_ipc K pread) = queue_kernel K"
  by (simp add: queue_ipc_def)

end
