(* ===== verification/Go_Encoding.thy ===== *)
theory Go_Encoding
  imports Go_Bytes Go_Text
begin

unbundle bit_operations_syntax

text \<open>
  Text encodings and digests of the Go standard library: \<open>encoding/hex\<close>, the unpadded URL alphabet of
  \<open>encoding/base64\<close> (lenient and strict), little-endian integers and \<open>crypto/sha256\<close>. The lemmas
  are the round trips, and that strict base64 and lowercase hexadecimal decoding accept one text
  per value only.
\<close>

section \<open>Hexadecimal\<close>

definition hex_digit :: "nat \<Rightarrow> char" where
  "hex_digit n = char_of (if n < 10 then 48 + n else 87 + n)"

definition is_lower_hex :: "char \<Rightarrow> bool" where
  "is_lower_hex c \<longleftrightarrow>
     48 \<le> (of_char c :: nat) \<and> of_char c \<le> (57 :: nat) \<or> 97 \<le> (of_char c :: nat) \<and> of_char c \<le> (102 :: nat)"

definition hex_val :: "char \<Rightarrow> nat option" where
  "hex_val c =
     (let n = of_char c :: nat in
      if 48 \<le> n \<and> n \<le> 57 then Some (n - 48)
      else if 97 \<le> n \<and> n \<le> 102 then Some (n - 87)
      else if 65 \<le> n \<and> n \<le> 70 then Some (n - 55)
      else None)"

definition hex_byte :: "byte \<Rightarrow> string" where
  "hex_byte b = [hex_digit (unat b div 16), hex_digit (unat b mod 16)]"

definition hex_EncodeToString :: "bytes \<Rightarrow> string" where
  "hex_EncodeToString bs = concat (map hex_byte bs)"

fun hex_Decode :: "string \<Rightarrow> bytes option" where
  "hex_Decode [] = Some []"
| "hex_Decode [c] = None"
| "hex_Decode (c # d # cs) =
     (case (hex_val c, hex_val d, hex_Decode cs) of
        (Some h, Some l, Some bs) \<Rightarrow> Some (of_nat (16 * h + l) # bs)
      | _ \<Rightarrow> None)"

lemma hex_val_digit [simp]: "n < 16 \<Longrightarrow> hex_val (hex_digit n) = Some n"
  by (auto simp: hex_val_def hex_digit_def Let_def)

lemma hex_digit_lower [simp]: "n < 16 \<Longrightarrow> is_lower_hex (hex_digit n)"
  by (auto simp: is_lower_hex_def hex_digit_def)

lemma hex_digit_val: "is_lower_hex c \<Longrightarrow> \<exists>n < 16. hex_val c = Some n \<and> hex_digit n = c"
proof -
  assume c: "is_lower_hex c"
  let ?n = "if (of_char c :: nat) \<le> 57 then of_char c - 48 else (of_char c :: nat) - 87"
  have "hex_val c = Some ?n" "?n < 16"
    using c by (auto simp: is_lower_hex_def hex_val_def Let_def)
  moreover have "hex_digit ?n = char_of (of_char c :: nat)"
    using c by (auto simp: hex_digit_def is_lower_hex_def)
  ultimately show ?thesis by auto
qed

lemma nibbles [simp]: "unat (b :: byte) div 16 < 16"
  using unat_byte_lt [of b] by (simp add: less_mult_imp_div_less)

lemma hex_Decode_Encode [simp]: "hex_Decode (hex_EncodeToString bs) = Some bs"
  by (induction bs) (simp_all add: hex_EncodeToString_def hex_byte_def)

lemma length_hex_EncodeToString [simp]: "length (hex_EncodeToString bs) = 2 * length bs"
  by (induction bs) (simp_all add: hex_EncodeToString_def hex_byte_def)

lemma hex_EncodeToString_lower [simp]: "list_all is_lower_hex (hex_EncodeToString bs)"
  by (induction bs) (simp_all add: hex_EncodeToString_def hex_byte_def)

lemma hex_byte_of_nat: "h < 16 \<Longrightarrow> l < 16 \<Longrightarrow> hex_byte (of_nat (16 * h + l)) = [hex_digit h, hex_digit l]"
  by (simp add: hex_byte_def unat_of_nat_byte del: of_nat_add of_nat_mult)

lemma hex_Decode_lower:
  "hex_Decode s = Some bs \<Longrightarrow> list_all is_lower_hex s \<Longrightarrow> s = hex_EncodeToString bs"
proof (induction s arbitrary: bs rule: hex_Decode.induct)
  case (3 c d cs)
  from 3(3) obtain h l where hl: "h < 16" "hex_val c = Some h" "hex_digit h = c"
      "l < 16" "hex_val d = Some l" "hex_digit l = d"
    using hex_digit_val by (metis list.pred_inject(2))
  with 3 show ?case
    by (auto simp: hex_EncodeToString_def hex_byte_of_nat simp del: of_nat_add of_nat_mult
        split: option.splits)
qed (simp_all add: hex_EncodeToString_def)

lemma hex_Decode_lower_total:
  "list_all is_lower_hex s \<Longrightarrow> even (length s) \<Longrightarrow> \<exists>bs. hex_Decode s = Some bs \<and> 2 * length bs = length s"
proof (induction s rule: hex_Decode.induct)
  case (3 c d cs)
  from 3(2) obtain h l where "hex_val c = Some h" "hex_val d = Some l"
    using hex_digit_val by (metis list.pred_inject(2))
  with 3 show ?case by auto
qed simp_all

section \<open>Base64, URL alphabet, unpadded\<close>

definition b64_char :: "nat \<Rightarrow> char" where
  "b64_char n =
     char_of (if n < 26 then 65 + n else if n < 52 then 71 + n else if n < 62 then n - 4
              else if n = 62 then 45 else 95)"

definition b64_val :: "char \<Rightarrow> nat option" where
  "b64_val c =
     (let n = of_char c :: nat in
      if 65 \<le> n \<and> n \<le> 90 then Some (n - 65)
      else if 97 \<le> n \<and> n \<le> 122 then Some (n - 71)
      else if 48 \<le> n \<and> n \<le> 57 then Some (n + 4)
      else if n = 45 then Some 62
      else if n = 95 then Some 63
      else None)"

fun b64_digits :: "nat list \<Rightarrow> nat list" where
  "b64_digits [] = []"
| "b64_digits [a] = [a div 4, (a mod 4) * 16]"
| "b64_digits [a, b] = [a div 4, (a mod 4) * 16 + b div 16, (b mod 16) * 4]"
| "b64_digits (a # b # c # r) =
     [a div 4, (a mod 4) * 16 + b div 16, (b mod 16) * 4 + c div 64, c mod 64] @ b64_digits r"

definition RawURLEncoding_EncodeToString :: "bytes \<Rightarrow> string" where
  "RawURLEncoding_EncodeToString bs = map b64_char (b64_digits (map unat bs))"

text \<open>One quantum of four digits gives three bytes; \<open>strict\<close> refuses stray bits in the last one.\<close>

fun b64_quanta :: "bool \<Rightarrow> nat list \<Rightarrow> nat list option" where
  "b64_quanta strict [] = Some []"
| "b64_quanta strict [x] = None"
| "b64_quanta strict [x, y] = (if strict \<and> y mod 16 \<noteq> 0 then None else Some [x * 4 + y div 16])"
| "b64_quanta strict [x, y, z] =
     (if strict \<and> z mod 4 \<noteq> 0 then None else Some [x * 4 + y div 16, (y mod 16) * 16 + z div 4])"
| "b64_quanta strict (x # y # z # w # r) =
     map_option ((@) [x * 4 + y div 16, (y mod 16) * 16 + z div 4, (z mod 4) * 64 + w])
       (b64_quanta strict r)"

text \<open>The decoder skips carriage returns and line feeds anywhere in its input.\<close>

definition RawURLEncoding_Decode :: "bool \<Rightarrow> string \<Rightarrow> bytes option" where
  "RawURLEncoding_Decode strict s =
     map_option (map of_nat)
       (Option.bind (those (map b64_val (filter (\<lambda>c. c \<noteq> CHR 0x0D \<and> c \<noteq> CHR 0x0A) s)))
         (b64_quanta strict))"

lemma b64_val_char [simp]: "n < 64 \<Longrightarrow> b64_val (b64_char n) = Some n"
  by (auto simp: b64_val_def b64_char_def Let_def)

lemma b64_char_val: "b64_val c = Some n \<Longrightarrow> n < 64 \<and> b64_char n = c"
proof -
  assume c: "b64_val c = Some n"
  then have "n < 64" and "b64_char n = char_of (of_char c :: nat)"
    by (auto simp: b64_val_def b64_char_def Let_def simp del: char_of_char split: if_splits)
  then show ?thesis by simp
qed

lemma quotients [simp]:
  "(a :: nat) < 256 \<Longrightarrow> a div 4 < 64" "(a :: nat) < 256 \<Longrightarrow> a div 16 < 16" "(a :: nat) < 256 \<Longrightarrow> a div 64 < 4"
  "(a :: nat) < 64 \<Longrightarrow> a div 16 < 4" "(a :: nat) < 64 \<Longrightarrow> a div 4 < 16"
  by (simp_all add: less_mult_imp_div_less)

lemma b64_pack:
  "b < 256 \<Longrightarrow> (a mod 4 :: nat) * 16 + b div 16 < 64" "c < 256 \<Longrightarrow> (b mod 16 :: nat) * 4 + c div 64 < 64"
  using quotients(2) [of b] quotients(3) [of c] mod_less_divisor [of 4 a] mod_less_divisor [of 16 b]
  by linarith+

lemma b64_unpack:
  "x < 64 \<Longrightarrow> y < 64 \<Longrightarrow> (x :: nat) * 4 + y div 16 < 256" "z < 64 \<Longrightarrow> (y mod 16 :: nat) * 16 + z div 4 < 256"
  "w < 64 \<Longrightarrow> (z mod 4 :: nat) * 64 + w < 256"
  using quotients(4) [of y] quotients(5) [of z] mod_less_divisor [of 16 y] mod_less_divisor [of 4 z]
  by linarith+

lemma b64_digits_lt: "list_all (\<lambda>b. b < 256) bs \<Longrightarrow> list_all (\<lambda>n. n < 64) (b64_digits bs)"
proof (induction bs rule: b64_digits.induct)
  case (2 a)
  then show ?case using mod_less_divisor [of 4 a] by simp
next
  case (3 a b)
  then show ?case using b64_pack(1) [of b a] mod_less_divisor [of 16 b] by simp
next
  case (4 a b c r)
  then show ?case using b64_pack(1) [of b a] b64_pack(2) [of c b] by simp
qed simp

lemma b64_quanta_digits: "list_all (\<lambda>b. b < 256) bs \<Longrightarrow> b64_quanta strict (b64_digits bs) = Some bs"
  by (induction bs rule: b64_digits.induct) (simp_all add: div_mult_mod_eq)

text \<open>Strict decoding is the exact inverse: the digits of a decoded value are its encoding.\<close>

lemma b64_digits_quanta:
  "b64_quanta True ds = Some bs \<Longrightarrow> list_all (\<lambda>n. n < 64) ds \<Longrightarrow>
   b64_digits bs = ds \<and> list_all (\<lambda>b. b < 256) bs"
proof (induction True ds arbitrary: bs rule: b64_quanta.induct)
  case (3 x y)
  then show ?case by (auto split: if_splits)
next
  case (4 x y z)
  then show ?case by (auto split: if_splits)
next
  case (5 x y z w r)
  then obtain t where t: "b64_quanta True r = Some t" "bs = [x * 4 + y div 16, (y mod 16) * 16 + z div 4, (z mod 4) * 64 + w] @ t"
    by auto
  moreover have "(x * 4 + y div 16) div 4 = x" "(x * 4 + y div 16) mod 4 * 16 + ((y mod 16) * 16 + z div 4) div 16 = y"
    "((y mod 16) * 16 + z div 4) mod 16 * 4 + ((z mod 4) * 64 + w) div 64 = z" "((z mod 4) * 64 + w) mod 64 = w"
    using 5(3) by (simp_all add: div_mult_mod_eq)
  ultimately show ?case using 5 b64_unpack(1) [of x y] b64_unpack(2) [of z y] b64_unpack(3) [of w z] by simp
qed simp_all

lemma those_map_Some: "(\<And>x. x \<in> set xs \<Longrightarrow> f x = Some (g x)) \<Longrightarrow> those (map f xs) = Some (map g xs)"
  by (induction xs) auto

lemma those_Some_iff: "those xs = Some ys \<longleftrightarrow> xs = map Some ys"
  by (induction xs arbitrary: ys) (auto split: option.splits)

lemma b64_char_no_newline: "n < 64 \<Longrightarrow> b64_char n \<noteq> CHR 0x0D \<and> b64_char n \<noteq> CHR 0x0A"
proof -
  assume "n < 64"
  then have "b64_val (b64_char n) \<noteq> None" by simp
  moreover have "b64_val (CHR 0x0D) = None" "b64_val (CHR 0x0A) = None"
    by (simp_all add: b64_val_def)
  ultimately show ?thesis by metis
qed

lemma unat_bytes_lt: "list_all (\<lambda>b. b < 256) (map unat (bs :: bytes))"
  by (induction bs) simp_all

lemma RawURLEncoding_roundtrip [simp]:
  "RawURLEncoding_Decode strict (RawURLEncoding_EncodeToString bs) = Some bs"
proof -
  let ?ds = "b64_digits (map unat bs)"
  have lt: "list_all (\<lambda>n. n < 64) ?ds" by (rule b64_digits_lt [OF unat_bytes_lt])
  then have "filter (\<lambda>c. c \<noteq> CHR 0x0D \<and> c \<noteq> CHR 0x0A) (map b64_char ?ds) = map b64_char ?ds"
    using b64_char_no_newline by (auto simp: list_all_iff filter_id_conv)
  moreover have "those (map b64_val (map b64_char ?ds)) = Some ?ds"
    using lt by (simp add: those_Some_iff list_all_iff)
  ultimately show ?thesis
    by (simp add: RawURLEncoding_Decode_def RawURLEncoding_EncodeToString_def
        b64_quanta_digits [OF unat_bytes_lt] map_idI)
qed

lemma length_b64_digits: "length (b64_digits bs) = (length bs * 8 + 5) div 6"
  by (induction bs rule: b64_digits.induct) simp_all

lemma length_RawURLEncoding: "length (RawURLEncoding_EncodeToString bs) = (length bs * 8 + 5) div 6"
  by (simp add: RawURLEncoding_EncodeToString_def length_b64_digits)

lemma RawURLEncoding_strict:
  assumes "RawURLEncoding_Decode True s = Some bs"
  shows "filter (\<lambda>c. c \<noteq> CHR 0x0D \<and> c \<noteq> CHR 0x0A) s = RawURLEncoding_EncodeToString bs"
proof -
  define f where "f = filter (\<lambda>c. c \<noteq> CHR 0x0D \<and> c \<noteq> CHR 0x0A) s"
  obtain ds ns where ds: "map b64_val f = map Some ds" "b64_quanta True ds = Some ns" "bs = map of_nat ns"
    using assms by (auto simp: RawURLEncoding_Decode_def those_Some_iff bind_eq_Some_conv f_def)
  have len: "length f = length ds" using arg_cong [OF ds(1), of length] by simp
  have each: "b64_val (f ! i) = Some (ds ! i)" if "i < length ds" for i
    using arg_cong [OF ds(1), of "\<lambda>l. l ! i"] that len by simp
  have "map b64_char ds = f"
    by (rule nth_equalityI) (use len each b64_char_val in auto)
  moreover have "list_all (\<lambda>n. n < 64) ds"
    using each b64_char_val by (auto simp: list_all_length)
  then have n: "b64_digits ns = ds" "list_all (\<lambda>b. b < 256) ns"
    using b64_digits_quanta [OF ds(2)] by simp_all
  moreover have "map (\<lambda>n. unat (of_nat n :: byte)) ns = ns"
    using n(2) by (intro map_idI) (simp add: list_all_iff unat_of_nat_byte)
  ultimately show ?thesis
    unfolding f_def [symmetric] by (simp add: RawURLEncoding_EncodeToString_def ds(3) comp_def)
qed

section \<open>Little-endian integers\<close>

definition LE_Uint16 :: "bytes \<Rightarrow> u16" where "LE_Uint16 bs = Uint16 (rev bs)"
definition LE_Uint32 :: "bytes \<Rightarrow> u32" where "LE_Uint32 bs = Uint32 (rev bs)"
definition LE_PutUint16 :: "u16 \<Rightarrow> bytes" where "LE_PutUint16 w = rev (PutUint16 w)"
definition LE_PutUint32 :: "u32 \<Rightarrow> bytes" where "LE_PutUint32 w = rev (PutUint32 w)"

lemma length_LE_PutUint [simp]: "length (LE_PutUint16 w) = 2" "length (LE_PutUint32 d) = 4"
  by (simp_all add: LE_PutUint16_def LE_PutUint32_def)

lemma LE_Uint16_eq: "length bs = 2 \<Longrightarrow> LE_Uint16 bs = w \<longleftrightarrow> bs = LE_PutUint16 w"
  unfolding LE_Uint16_def LE_PutUint16_def
  by (metis PutUint_Uint(1) Uint_PutUint(1) length_rev rev_rev_ident)

lemma LE_Uint32_eq: "length bs = 4 \<Longrightarrow> LE_Uint32 bs = w \<longleftrightarrow> bs = LE_PutUint32 w"
  unfolding LE_Uint32_def LE_PutUint32_def
  by (metis PutUint_Uint(2) Uint_PutUint(2) length_rev rev_rev_ident)

section \<open>SHA-256\<close>

text \<open>
  The tables of \<^verbatim>\<open>crypto/sha256\<close> are the first 32 bits of the fractional parts of the cube roots (round constants)
  and square roots (initial state) of the first primes; they are computed here with an exact integer root.
\<close>

primrec int_root :: "nat \<Rightarrow> nat \<Rightarrow> nat \<Rightarrow> nat \<Rightarrow> nat" where
  "int_root e n 0 r = r"
| "int_root e n (Suc i) r = int_root e n i (if (r + 2 ^ i) ^ e \<le> n then r + 2 ^ i else r)"

lemma int_root_bounds:
  "r ^ e \<le> n \<Longrightarrow> n < (r + 2 ^ k) ^ e \<Longrightarrow> int_root e n k r ^ e \<le> n \<and> n < (int_root e n k r + 1) ^ e"
proof (induction k arbitrary: r)
  case (Suc k)
  then show ?case
    using Suc.IH [of r] Suc.IH [of "r + 2 ^ k"] by (simp add: not_le mult_2 add.assoc)
qed simp

definition small_primes :: "nat list" where
  "small_primes = filter (\<lambda>p. list_all (\<lambda>d. p mod d \<noteq> 0) [2..<p]) [2..<312]"

definition root_fraction :: "nat \<Rightarrow> nat \<Rightarrow> u32" where
  "root_fraction e p = of_nat (int_root e (p * 2 ^ (32 * e)) 40 0)"

definition sha256_K :: "u32 list" where
  "sha256_K = map (root_fraction 3) small_primes"

definition sha256_H :: "u32 list" where
  "sha256_H = map (root_fraction 2) [2, 3, 5, 7, 11, 13, 17, 19]"

definition sha256_pad :: "bytes \<Rightarrow> bytes" where
  "sha256_pad m =
     m @ [0x80] @ replicate ((119 - length m mod 64) mod 64) 0 @ PutUint64 (of_nat (8 * length m))"

primrec sha256_extend :: "nat \<Rightarrow> u32 list \<Rightarrow> u32 list" where
  "sha256_extend 0 w = w"
| "sha256_extend (Suc n) w =
     (let i = length w; x = w ! (i - 15); y = w ! (i - 2);
          s0 = word_rotr 7 x XOR word_rotr 18 x XOR drop_bit 3 x;
          s1 = word_rotr 17 y XOR word_rotr 19 y XOR drop_bit 10 y
      in sha256_extend n (w @ [w ! (i - 16) + s0 + w ! (i - 7) + s1]))"

fun sha256_round :: "u32 \<times> u32 \<Rightarrow> u32 list \<Rightarrow> u32 list" where
  "sha256_round (k, w) [a, b, c, d, e, f, g, h] =
     (let s1 = word_rotr 6 e XOR word_rotr 11 e XOR word_rotr 25 e;
          ch = (e AND f) XOR (NOT e AND g);
          t1 = h + s1 + ch + k + w;
          s0 = word_rotr 2 a XOR word_rotr 13 a XOR word_rotr 22 a;
          maj = (a AND b) XOR (a AND c) XOR (b AND c)
      in [t1 + s0 + maj, a, b, c, d + t1, e, f, g])"
| "sha256_round _ st = st"

definition sha256_block :: "u32 list \<Rightarrow> bytes \<Rightarrow> u32 list" where
  "sha256_block st block =
     (let w = sha256_extend 48 (map (\<lambda>i. Uint32 (slice (4 * i) (4 * i + 4) block)) [0..<16])
      in map2 (+) st (fold sha256_round (zip sha256_K w) st))"

fun sha256_blocks :: "u32 list \<Rightarrow> bytes \<Rightarrow> u32 list" where
  "sha256_blocks st m =
     (if length m < 64 then st else sha256_blocks (sha256_block st (take 64 m)) (drop 64 m))"

declare sha256_blocks.simps [simp del]

definition Sum256 :: "bytes \<Rightarrow> bytes" where
  "Sum256 m = concat (map PutUint32 (sha256_blocks sha256_H (sha256_pad m)))"

lemma length_sha256_round [simp]: "length (sha256_round kw st) = length st"
  by (cases "(kw, st)" rule: sha256_round.cases) (simp_all add: Let_def)

lemma length_fold_round: "length (fold sha256_round ks st) = length st"
  by (induction ks arbitrary: st) simp_all

lemma length_sha256_blocks: "length (sha256_blocks st m) = length st"
proof (induction st m rule: sha256_blocks.induct)
  case (1 st m)
  then show ?case
    by (subst sha256_blocks.simps) (simp add: sha256_block_def length_fold_round Let_def)
qed

lemma length_Sum256 [simp]: "length (Sum256 m) = 32"
proof -
  have "length (concat (map PutUint32 ws)) = 4 * length ws" for ws by (induction ws) simp_all
  then show ?thesis by (simp add: Sum256_def length_sha256_blocks sha256_H_def)
qed

end
