(* ===== verification/Verifier.thy ===== *)
theory Verifier
  imports Secure_Root Go_Encoding
begin

unbundle bit_operations_syntax

text \<open>
  The bearer secret and its verifier file (\<open>pkg/publicfiles/verifier.go\<close>,
  \<open>verifier_acl_linux.go\<close> and the verifier half of \<open>fs_linux.go\<close>): the serialized verifier and
  the bearer format are shown to be exact encodings, the access rule on the file is
  characterised, and reading the file is shown to leak no descriptor and to return only what one
  unchanged, private file holds.
\<close>

section \<open>The verifier file and the bearer\<close>

definition publicVerifierPrefix :: string where
  "publicVerifierPrefix = ''recasaos-public-verifier-v1:sha256:''"

definition publicBearerPrefix :: string where "publicBearerPrefix = ''rc1_''"
definition publicBearerRandomBytes :: nat where "publicBearerRandomBytes = 32"
definition publicBearerEncodedLen :: nat where
  "publicBearerEncodedLen = (publicBearerRandomBytes * 8 + 5) div 6"
definition publicBearerLen :: nat where
  "publicBearerLen = length publicBearerPrefix + publicBearerEncodedLen"
definition publicBearerMinDistinct :: nat where "publicBearerMinDistinct = 16"
definition publicVerifierFileMaxBytes :: nat where
  "publicVerifierFileMaxBytes = length publicVerifierPrefix + 32 * 2 + 1"

definition errInvalidPublicVerifier :: storage_error where
  "errInvalidPublicVerifier =
     OtherError ''public verifier must use the exact recasaos-public-verifier-v1 SHA-256 format''"

definition parsePublicVerifier :: "bytes \<Rightarrow> storage_error + bytes" where
  "parsePublicVerifier serialized =
     (if length serialized \<noteq> publicVerifierFileMaxBytes
         \<or> string_of_bytes (take (length publicVerifierPrefix) serialized) \<noteq> publicVerifierPrefix
         \<or> last serialized \<noteq> 10
      then Inl errInvalidPublicVerifier
      else let encoded = slice (length publicVerifierPrefix) (length serialized - 1) serialized in
        if \<not> list_all is_lower_hex (string_of_bytes encoded) then Inl errInvalidPublicVerifier
        else case hex_Decode (string_of_bytes encoded) of
          None \<Rightarrow> Inl errInvalidPublicVerifier
        | Some verifier \<Rightarrow> Inr verifier)"

text \<open>The loop over the \<open>distinct\<close> table: \<open>seen\<close> holds the values whose slot is set.\<close>

fun count_distinct :: "byte list \<Rightarrow> bytes \<Rightarrow> nat \<Rightarrow> nat" where
  "count_distinct seen [] distinctCount = distinctCount"
| "count_distinct seen (v # vs) distinctCount =
     (if v \<in> set seen then count_distinct seen vs distinctCount
      else count_distinct (v # seen) vs (distinctCount + 1))"

definition validPublicBearer :: "string \<Rightarrow> bool" where
  "validPublicBearer candidate =
     (if length candidate \<noteq> publicBearerLen
         \<or> take (length publicBearerPrefix) candidate \<noteq> publicBearerPrefix then False
      else case RawURLEncoding_Decode True (drop (length publicBearerPrefix) candidate) of
        None \<Rightarrow> False
      | Some decoded \<Rightarrow>
          if length decoded \<noteq> publicBearerRandomBytes then False
          else publicBearerMinDistinct \<le> count_distinct [] decoded 0)"

definition digestPublicBearer :: "string \<Rightarrow> bytes" where
  "digestPublicBearer candidate = Sum256 (bytes_of_string candidate)"

section \<open>The access rule\<close>

definition posixACLXattrVersion :: u32 where "posixACLXattrVersion = 0x0002"
definition posixACLUndefinedID :: u32 where "posixACLUndefinedID = NOT 0"
definition posixACLUserObject :: u16 where "posixACLUserObject = 0x01"
definition posixACLUser :: u16 where "posixACLUser = 0x02"
definition posixACLGroupObject :: u16 where "posixACLGroupObject = 0x04"
definition posixACLMask :: u16 where "posixACLMask = 0x10"
definition posixACLOther :: u16 where "posixACLOther = 0x20"
definition posixACLRead :: u16 where "posixACLRead = 0x04"
definition posixACLXattrHeaderSize :: nat where "posixACLXattrHeaderSize = 4"
definition posixACLXattrEntrySize :: nat where "posixACLXattrEntrySize = 8"
definition systemdCredentialACLEntries :: nat where "systemdCredentialACLEntries = 5"
definition systemdCredentialACLSize :: nat where
  "systemdCredentialACLSize =
     posixACLXattrHeaderSize + systemdCredentialACLEntries * posixACLXattrEntrySize"

record verifierACLEntry =
  acl_tag :: u16
  acl_perm :: u16
  acl_id :: u32

definition expected_acl :: "u32 \<Rightarrow> verifierACLEntry list" where
  "expected_acl effectiveUID =
     [\<lparr> acl_tag = posixACLUserObject, acl_perm = posixACLRead, acl_id = posixACLUndefinedID \<rparr>,
      \<lparr> acl_tag = posixACLUser, acl_perm = posixACLRead, acl_id = effectiveUID \<rparr>,
      \<lparr> acl_tag = posixACLGroupObject, acl_perm = 0, acl_id = posixACLUndefinedID \<rparr>,
      \<lparr> acl_tag = posixACLMask, acl_perm = posixACLRead, acl_id = posixACLUndefinedID \<rparr>,
      \<lparr> acl_tag = posixACLOther, acl_perm = 0, acl_id = posixACLUndefinedID \<rparr>]"

fun match_acl :: "bytes \<Rightarrow> nat \<Rightarrow> verifierACLEntry list \<Rightarrow> bool" where
  "match_acl accessACL index [] = True"
| "match_acl accessACL index (want # rest) =
     (let offset = posixACLXattrHeaderSize + index * posixACLXattrEntrySize;
          got = \<lparr> acl_tag = LE_Uint16 (slice offset (offset + 2) accessACL),
                  acl_perm = LE_Uint16 (slice (offset + 2) (offset + 4) accessACL),
                  acl_id = LE_Uint32 (slice (offset + 4) (offset + 8) accessACL) \<rparr>
      in if got \<noteq> want then False else match_acl accessACL (index + 1) rest)"

definition isExactSystemdCredentialACL :: "bytes \<Rightarrow> u32 \<Rightarrow> bool" where
  "isExactSystemdCredentialACL accessACL effectiveUID =
     (if length accessACL \<noteq> systemdCredentialACLSize
         \<or> LE_Uint32 (take posixACLXattrHeaderSize accessACL) \<noteq> posixACLXattrVersion then False
      else match_acl accessACL 0 (expected_acl effectiveUID))"

definition errVerifierPermissions :: storage_error where
  "errVerifierPermissions =
     OtherError ''verifier file permissions must be exactly 0400 or 0600, or use the exact root-owned systemd credential access ACL''"

definition validateVerifierFileCandidateForUID :: "u32 \<Rightarrow> stat \<Rightarrow> storage_error option" where
  "validateVerifierFileCandidateForUID effectiveUID st =
     (if \<not> isSingleLinkRegular st
      then Some (OtherError ''verifier file must be a stable single-link regular file'')
      else if st_uid st \<noteq> 0 \<and> st_uid st \<noteq> effectiveUID
      then Some (OtherError ''verifier file must be owned by root or the service user'')
      else let permissions = st_mode st AND 0xFFF in
        if permissions = 0x100 \<or> permissions = 0x180 then None
        else if effectiveUID \<noteq> 0 \<and> st_uid st = 0 \<and> st_gid st = 0 \<and> permissions = 0x120 then None
        else Some errVerifierPermissions)"

text \<open>A nil slice, no extended ACL, is \<open>None\<close>.\<close>

definition validateVerifierFileMetadata :: "stat \<Rightarrow> bytes option \<Rightarrow> u32 \<Rightarrow> storage_error option" where
  "validateVerifierFileMetadata st accessACL effectiveUID =
     (case validateVerifierFileCandidateForUID effectiveUID st of
        Some e \<Rightarrow> Some e
      | None \<Rightarrow>
          let permissions = st_mode st AND 0xFFF in
          if permissions = 0x100 \<or> permissions = 0x180
          then (if accessACL \<noteq> None
                then Some (OtherError ''private verifier file must not have an extended access ACL'')
                else None)
          else if isExactSystemdCredentialACL (case accessACL of None \<Rightarrow> [] | Some a \<Rightarrow> a) effectiveUID
          then None
          else Some errVerifierPermissions)"

definition readVerifierAccessACL :: "'k kernel \<Rightarrow> int \<Rightarrow> 'k \<Rightarrow> (storage_error + bytes option) \<times> 'k" where
  "readVerifierAccessACL K fd s =
     (if fd < 0 then (Inl (OtherError ''cannot inspect verifier file access ACL''), s)
      else case sys_fgetxattr K fd ''system.posix_acl_access'' systemdCredentialACLSize s of
        (Inr accessACL, s1) \<Rightarrow> (Inr (Some accessACL), s1)
      | (Inl e, s1) \<Rightarrow>
          (if e = ENODATA \<or> e = EOPNOTSUPP then Inr None
           else if e = ERANGE
           then Inl (OtherError ''verifier file access ACL contains unexpected entries'')
           else Inl (OtherError ''cannot inspect verifier file access ACL''), s1))"

definition validateVerifierFileDescriptor ::
    "'k kernel \<Rightarrow> u32 \<Rightarrow> int \<Rightarrow> stat \<Rightarrow> 'k \<Rightarrow> storage_error option \<times> 'k" where
  "validateVerifierFileDescriptor K euid fd st s =
     (case readVerifierAccessACL K fd s of
        (Inl e, s1) \<Rightarrow> (Some e, s1)
      | (Inr accessACL, s1) \<Rightarrow>
          (case sys_fstat K fd s1 of
             (Inl e, s2) \<Rightarrow>
               (Some (OtherError ''cannot revalidate verifier file after inspecting its access ACL''), s2)
           | (Inr afterACL, s2) \<Rightarrow>
               if \<not> sameVerifierFileMetadata st afterACL
               then (Some (OtherError ''verifier file changed while its access ACL was inspected''), s2)
               else (validateVerifierFileMetadata afterACL accessACL euid, s2)))"

section \<open>Reading the verifier file\<close>

definition path_Dir :: "string \<Rightarrow> string" where
  "path_Dir p = path_Clean (rev (dropWhile (\<lambda>c. c \<noteq> slash) (rev p)))"

definition validateVerifierParentDirectory ::
    "'k kernel \<Rightarrow> u32 \<Rightarrow> int \<Rightarrow> string \<Rightarrow> 'k \<Rightarrow> storage_error option \<times> 'k" where
  "validateVerifierParentDirectory K effectiveUID rootFD relativeParent s =
     (case sys_openat2 K rootFD relativeParent [O_PATH, O_DIRECTORY, O_CLOEXEC, O_NOFOLLOW]
             [RESOLVE_BENEATH, RESOLVE_NO_MAGICLINKS, RESOLVE_NO_SYMLINKS] s of
        (Inl e, s1) \<Rightarrow>
          (Some (if e = ENOSYS \<or> e = EINVAL then ErrUnsupported
                 else OtherError ''cannot securely open verifier parent directory''), s1)
      | (Inr fd, s1) \<Rightarrow>
          (case sys_fstat K fd s1 of
             (Inl e, s2) \<Rightarrow> (Some (OtherError ''verifier parent must be a directory''), sys_close K fd s2)
           | (Inr st, s2) \<Rightarrow>
               (if st_mode st AND S_IFMT \<noteq> S_IFDIR
                then Some (OtherError ''verifier parent must be a directory'')
                else if st_uid st \<noteq> 0 \<and> st_uid st \<noteq> effectiveUID
                then Some (OtherError ''verifier parent directory must be owned by root or the service user'')
                else if st_mode st AND 0x12 \<noteq> 0
                then Some (OtherError ''verifier parent directory must not be writable by group or other users'')
                else None, sys_close K fd s2)))"

text \<open>The last checks of \<open>revalidateVerifierPath\<close>, on the reopened descriptor.\<close>

definition revalidate_reopened ::
    "'k kernel \<Rightarrow> u32 \<Rightarrow> stat \<Rightarrow> int \<Rightarrow> 'k \<Rightarrow> storage_error option \<times> 'k" where
  "revalidate_reopened K euid current dataFD s =
     (case sys_fstat K dataFD s of
        (Inl e, s1) \<Rightarrow>
          (Some (OtherError ''cannot inspect verifier file during final path validation''),
           sys_close K dataFD s1)
      | (Inr reopened, s1) \<Rightarrow>
          if \<not> sameVerifierFileMetadata current reopened
          then (Some (OtherError ''verifier path changed while it was being read''), sys_close K dataFD s1)
          else (case validateVerifierFileDescriptor K euid dataFD reopened s1 of
                  (r, s2) \<Rightarrow> (r, sys_close K dataFD s2)))"

text \<open>What runs between its open and the deferred close.\<close>

definition revalidate_body ::
    "'k kernel \<Rightarrow> u32 \<Rightarrow> stat \<Rightarrow> (int \<Rightarrow> 'k \<Rightarrow> (int \<times> errno option) \<times> 'k) option \<Rightarrow> int \<Rightarrow> 'k \<Rightarrow>
     storage_error option \<times> 'k" where
  "revalidate_body K euid expected reopen fd s =
     (case sys_fstat K fd s of
        (Inl e, s1) \<Rightarrow> (Some (OtherError ''verifier path changed while it was being read''), s1)
      | (Inr current, s1) \<Rightarrow>
          if \<not> sameVerifierFileMetadata expected current
             \<or> validateVerifierFileCandidateForUID euid current \<noteq> None
          then (Some (OtherError ''verifier path changed while it was being read''), s1)
          else (case reopen of
            None \<Rightarrow>
              (Some (OtherError ''cannot securely revalidate verifier file through its final configured path''), s1)
          | Some ro \<Rightarrow>
              (case ro fd s1 of
                 ((dataFD, Some e), s2) \<Rightarrow>
                   (Some (OtherError ''cannot securely reopen verifier file during final path validation''),
                    if 0 \<le> dataFD \<and> dataFD \<noteq> fd then sys_close K dataFD s2 else s2)
               | ((dataFD, None), s2) \<Rightarrow>
                   if dataFD < 0 \<or> dataFD = fd
                   then (Some (OtherError ''cannot securely reopen verifier file during final path validation''), s2)
                   else revalidate_reopened K euid current dataFD s2)))"

definition revalidateVerifierPath ::
    "'k kernel \<Rightarrow> u32 \<Rightarrow> int \<Rightarrow> string \<Rightarrow> stat \<Rightarrow> (int \<Rightarrow> 'k \<Rightarrow> (int \<times> errno option) \<times> 'k) option \<Rightarrow> 'k \<Rightarrow>
     storage_error option \<times> 'k" where
  "revalidateVerifierPath K euid rootFD relative expected reopen s =
     (case sys_openat2 K rootFD relative [O_PATH, O_CLOEXEC, O_NOFOLLOW]
             [RESOLVE_BENEATH, RESOLVE_NO_MAGICLINKS, RESOLVE_NO_SYMLINKS] s of
        (Inl e, s1) \<Rightarrow> (Some (OtherError ''verifier path changed while it was being read''), s1)
      | (Inr fd, s1) \<Rightarrow>
          (case revalidate_body K euid expected reopen fd s1 of (r, s2) \<Rightarrow> (r, sys_close K fd s2)))"

text \<open>How the error of the pinned open is reported.\<close>

definition verifier_open_error :: "storage_error pin_error \<Rightarrow> storage_error" where
  "verifier_open_error e =
     (case e of
        pinnedRegularValidationError v \<Rightarrow> v
      | _ \<Rightarrow>
          if pin_cause e = Errno ENOSYS \<or> pin_cause e = Errno EINVAL then ErrUnsupported
          else if e = errPinnedObjectNotRegular \<or> e = errPinnedIdentityChanged
          then OtherError ''verifier file must be a stable single-link regular file''
          else OtherError ''cannot securely open verifier file'')"

text \<open>The read and the checks after it, on the opened file.\<close>

definition read_verifier_body ::
    "'k kernel \<Rightarrow> u32 \<Rightarrow> int \<Rightarrow> string \<Rightarrow> (int \<Rightarrow> 'k \<Rightarrow> (int \<times> errno option) \<times> 'k) option \<Rightarrow> int \<Rightarrow> stat \<Rightarrow>
     'k \<Rightarrow> (storage_error + bytes) \<times> 'k" where
  "read_verifier_body K euid rootFD relative reopen fd st s =
     (case sys_read_limited K fd (publicVerifierFileMaxBytes + 1) s of
        (Inl e, s1) \<Rightarrow> (Inl (OtherError ''cannot read verifier file''), s1)
      | (Inr encoded, s1) \<Rightarrow>
          (case parsePublicVerifier encoded of
             Inl e \<Rightarrow> (Inl e, s1)
           | Inr verifier \<Rightarrow>
               (case sys_fstat K fd s1 of
                  (Inl e, s2) \<Rightarrow> (Inl (OtherError ''cannot revalidate verifier file after reading''), s2)
                | (Inr afterRead, s2) \<Rightarrow>
                    if \<not> sameVerifierFileMetadata st afterRead
                    then (Inl (OtherError ''verifier file changed while it was being read''), s2)
                    else (case validateVerifierFileDescriptor K euid fd afterRead s2 of
                      (Some e, s3) \<Rightarrow> (Inl e, s3)
                    | (None, s3) \<Rightarrow>
                        (case revalidateVerifierPath K euid rootFD relative afterRead reopen s3 of
                           (Some e, s4) \<Rightarrow> (Inl e, s4)
                         | (None, s4) \<Rightarrow> (Inr verifier, s4))))))"

definition verifier_pin :: "'k kernel \<Rightarrow> int \<Rightarrow> string \<Rightarrow> 'k \<Rightarrow> (storage_error + int) \<times> 'k" where
  "verifier_pin K rootFD relative s =
     apfst (map_sum Errno id)
       (sys_openat2 K rootFD relative [O_PATH, O_CLOEXEC, O_NOFOLLOW]
         [RESOLVE_BENEATH, RESOLVE_NO_MAGICLINKS, RESOLVE_NO_SYMLINKS] s)"

definition read_verifier_beneath ::
    "'k kernel \<Rightarrow> u32 \<Rightarrow> (int \<Rightarrow> 'k \<Rightarrow> (int \<times> errno option) \<times> 'k) option \<Rightarrow> string \<Rightarrow> int \<Rightarrow> 'k \<Rightarrow>
     (storage_error + bytes) \<times> 'k" where
  "read_verifier_beneath K euid reopen relative rootFD s =
     (case validateVerifierParentDirectory K euid rootFD (path_Dir relative) s of
        (Some e, s1) \<Rightarrow> (Inl e, s1)
      | (None, s1) \<Rightarrow>
          (case openPinnedRegularValidated K (verifier_pin K rootFD relative)
                  (Some (validateVerifierFileCandidateForUID euid))
                  (Some (validateVerifierFileDescriptor K euid)) reopen s1 of
             (Inl e, s2) \<Rightarrow> (Inl (verifier_open_error e), s2)
           | (Inr (fd, st), s2) \<Rightarrow>
               (case read_verifier_body K euid rootFD relative reopen fd st s2 of
                  (r, s3) \<Rightarrow> (r, sys_close K fd s3))))"

definition readVerifierFileSecureWith ::
    "'k kernel \<Rightarrow> u32 \<Rightarrow> (int \<Rightarrow> 'k \<Rightarrow> (int \<times> errno option) \<times> 'k) option \<Rightarrow> string \<Rightarrow> 'k \<Rightarrow>
     (storage_error + bytes) \<times> 'k" where
  "readVerifierFileSecureWith K euid reopen absolutePath s =
     (case sys_open K ''/'' [O_PATH, O_DIRECTORY, O_CLOEXEC] s of
        (Inl e, s1) \<Rightarrow> (Inl ErrUnsupported, s1)
      | (Inr rootFD, s1) \<Rightarrow>
          (case read_verifier_beneath K euid reopen
                  (if prefix [slash] absolutePath then tl absolutePath else absolutePath) rootFD s1 of
             (r, s2) \<Rightarrow> (r, sys_close K rootFD s2)))"

definition readVerifierFileSecure :: "'k kernel \<Rightarrow> u32 \<Rightarrow> string \<Rightarrow> 'k \<Rightarrow> (storage_error + bytes) \<times> 'k" where
  "readVerifierFileSecure K euid =
     readVerifierFileSecureWith K euid (Some (reopenPinnedRegular K))"

section \<open>Exact formats\<close>

lemma string_of_bytes_inj: "string_of_bytes a = string_of_bytes b \<longleftrightarrow> a = b"
  by (metis bytes_of_string_of_bytes)

lemma split_framed:
  assumes "length bs = length p + n + 1" "take (length p) bs = p" "last bs = z"
  shows "bs = p @ slice (length p) (length bs - 1) bs @ [z]"
proof -
  have "bs \<noteq> []" using assms(1) by auto
  then have "bs = butlast bs @ [z]" using assms(3) by (metis append_butlast_last_id)
  moreover have "butlast bs = take (length p) bs @ slice (length p) (length bs - 1) bs"
    using assms(1) slice_join [of 0 "length p" "length bs - 1" bs] by (simp add: butlast_conv_take take_slice)
  ultimately show ?thesis using assms(2) by simp
qed

lemma count_distinct_card: "count_distinct seen vs n = n + card (set vs - set seen)"
proof (induction vs arbitrary: seen n)
  case (Cons v vs)
  show ?case
  proof (cases "v \<in> set seen")
    case True
    then have "set (v # vs) - set seen = set vs - set seen" by auto
    with True Cons show ?thesis by simp
  next
    case False
    then have "set (v # vs) - set seen = insert v (set vs - set (v # seen))" by auto
    with False Cons show ?thesis by (simp add: card_insert_if)
  qed
qed simp

lemma filter_full: "length (filter P s) = length s \<Longrightarrow> filter P s = s"
  by (metis filter_True length_filter_less nat_less_le)

definition acl_entry_bytes :: "verifierACLEntry \<Rightarrow> bytes" where
  "acl_entry_bytes e = LE_PutUint16 (acl_tag e) @ LE_PutUint16 (acl_perm e) @ LE_PutUint32 (acl_id e)"

definition systemd_credential_acl :: "u32 \<Rightarrow> bytes" where
  "systemd_credential_acl uid =
     LE_PutUint32 posixACLXattrVersion @ concat (map acl_entry_bytes (expected_acl uid))"

lemma match_acl_iff:
  "length acl = 4 + 8 * (i + length es) \<Longrightarrow>
   match_acl acl i es \<longleftrightarrow> drop (4 + 8 * i) acl = concat (map acl_entry_bytes es)"
proof (induction es arbitrary: i)
  case (Cons e es)
  let ?o = "4 + 8 * i"
  have j: "slice ?o (?o + 2) acl @ slice (?o + 2) (?o + 4) acl @ slice (?o + 4) (?o + 8) acl = slice ?o (?o + 8) acl"
    by (simp only: append_assoc [symmetric]) (simp add: slice_join)
  have "drop ?o acl = slice ?o (?o + 8) acl @ drop 8 (drop ?o acl)"
    by (simp add: slice_def del: drop_drop)
  then have d: "drop ?o acl = slice ?o (?o + 2) acl @ slice (?o + 2) (?o + 4) acl @ slice (?o + 4) (?o + 8) acl
      @ drop (4 + 8 * Suc i) acl"
    using j by (simp add: add.commute)
  have "match_acl acl i (e # es) \<longleftrightarrow>
      slice ?o (?o + 2) acl = LE_PutUint16 (acl_tag e) \<and> slice (?o + 2) (?o + 4) acl = LE_PutUint16 (acl_perm e) \<and>
      slice (?o + 4) (?o + 8) acl = LE_PutUint32 (acl_id e) \<and> match_acl acl (Suc i) es"
    using Cons.prems
    by (cases e) (auto simp: Let_def posixACLXattrHeaderSize_def posixACLXattrEntrySize_def LE_Uint16_eq LE_Uint32_eq
        mult.commute)
  then show ?case
    using Cons.IH [of "Suc i"] Cons.prems by (subst d) (simp add: acl_entry_bytes_def [of e] append_eq_append_conv del: match_acl.simps)
qed simp

lemma isExactSystemdCredentialACL_iff:
  "isExactSystemdCredentialACL acl uid \<longleftrightarrow> acl = systemd_credential_acl uid"
proof -
  have e: "length (concat (map acl_entry_bytes es)) = 8 * length es" for es
    by (induction es) (simp_all add: acl_entry_bytes_def)
  have l: "length (systemd_credential_acl uid) = 44"
    by (simp only: systemd_credential_acl_def length_append e) (simp add: expected_acl_def)
  show ?thesis
  proof (cases "length acl = 44")
    case True
    then have "isExactSystemdCredentialACL acl uid \<longleftrightarrow>
        take 4 acl = LE_PutUint32 posixACLXattrVersion \<and> drop 4 acl = concat (map acl_entry_bytes (expected_acl uid))"
      using match_acl_iff [of acl 0 "expected_acl uid"]
      by (simp add: isExactSystemdCredentialACL_def posixACLXattrHeaderSize_def systemdCredentialACLSize_def
          systemdCredentialACLEntries_def posixACLXattrEntrySize_def LE_Uint32_eq expected_acl_def)
    also have "\<dots> \<longleftrightarrow> acl = systemd_credential_acl uid"
      by (metis append_eq_conv_conj length_LE_PutUint(2) systemd_credential_acl_def)
    finally show ?thesis .
  next
    case False
    with l show ?thesis
      by (auto simp: isExactSystemdCredentialACL_def posixACLXattrHeaderSize_def systemdCredentialACLSize_def
          systemdCredentialACLEntries_def posixACLXattrEntrySize_def)
  qed
qed

lemma parsePublicVerifier_iff:
  "parsePublicVerifier bs = Inr v \<longleftrightarrow>
   length v = 32 \<and>
   bs = bytes_of_string (publicVerifierPrefix @ hex_EncodeToString v @ [CHR 0x0A])"
proof
  assume p: "parsePublicVerifier bs = Inr v"
  let ?P = "bytes_of_string publicVerifierPrefix"
  let ?m = "slice (length publicVerifierPrefix) (length bs - 1) bs"
  have len: "length bs = length ?P + 64 + 1" and pre: "take (length ?P) bs = ?P" and "last bs = 10"
    and m: "list_all is_lower_hex (string_of_bytes ?m)" "hex_Decode (string_of_bytes ?m) = Some v"
    using p
    by (auto simp: parsePublicVerifier_def publicVerifierFileMaxBytes_def Let_def
        split: if_splits option.splits simp flip: string_of_bytes_inj)
  then have "bs = ?P @ ?m @ [10]" using split_framed [of bs ?P 64 10] by simp
  moreover have h: "string_of_bytes ?m = hex_EncodeToString v" using m by (rule hex_Decode_lower [rotated])
  moreover have "?m = bytes_of_string (hex_EncodeToString v)" using arg_cong [OF h, of bytes_of_string] by simp
  moreover have "length v = 32" using len arg_cong [OF h, of length] by simp
  ultimately show "length v = 32 \<and> bs = bytes_of_string (publicVerifierPrefix @ hex_EncodeToString v @ [CHR 0x0A])"
    by (simp add: bytes_of_string_def)
next
  assume v: "length v = 32 \<and> bs = bytes_of_string (publicVerifierPrefix @ hex_EncodeToString v @ [CHR 0x0A])"
  let ?h = "bytes_of_string (hex_EncodeToString v)"
  have bs: "bs = bytes_of_string publicVerifierPrefix @ ?h @ [10]"
    using v by (simp add: bytes_of_string_def)
  moreover have "slice (length publicVerifierPrefix) (length bs - 1) bs = ?h"
    using v bs by (simp add: slice_def)
  ultimately show "parsePublicVerifier bs = Inr v"
    using v by (simp add: parsePublicVerifier_def publicVerifierFileMaxBytes_def)
qed

section \<open>Properties of the verifier\<close>

text \<open>C29. The verifier file format is exact: a file parses to a verifier exactly when the verifier is 32
  bytes long and the file is the versioned prefix, its 64 lowercase hexadecimal digits and one
  line feed; in particular no two files give the same verifier.\<close>

theorem verifier_file_exact:
  "parsePublicVerifier bs = Inr v \<longleftrightarrow>
   length v = 32 \<and>
   bs = bytes_of_string (publicVerifierPrefix @ hex_EncodeToString v @ [CHR 0x0A])"
  by (rule parsePublicVerifier_iff)

lemma encoded_bearer_valid:
  "length secret = 32 \<Longrightarrow> 16 \<le> card (set secret) \<Longrightarrow>
   validPublicBearer (publicBearerPrefix @ RawURLEncoding_EncodeToString secret)"
  by (auto simp: validPublicBearer_def publicBearerLen_def publicBearerEncodedLen_def publicBearerRandomBytes_def
      publicBearerMinDistinct_def count_distinct_card length_RawURLEncoding)

text \<open>C28. The accepted bearers are exactly the prefix \<open>rc1_\<close> followed by the canonical unpadded base64url
  encoding of 32 bytes with at least 16 different values: each 32-byte secret has one accepted
  spelling, although the decoder skips line breaks and the bearer's length is checked on the text.\<close>

theorem bearer_format_exact:
  "validPublicBearer candidate \<longleftrightarrow>
   (\<exists>secret. length secret = 32 \<and> 16 \<le> card (set secret) \<and>
      candidate = publicBearerPrefix @ RawURLEncoding_EncodeToString secret)"
proof
  assume v: "validPublicBearer candidate"
  let ?b = "drop (length publicBearerPrefix) candidate"
  obtain secret where s: "RawURLEncoding_Decode True ?b = Some secret" "length secret = 32"
      "16 \<le> card (set secret)"
    and pre: "take (length publicBearerPrefix) candidate = publicBearerPrefix" and len: "length ?b = 43"
    using v
    by (auto simp: validPublicBearer_def publicBearerLen_def publicBearerEncodedLen_def publicBearerRandomBytes_def
        publicBearerMinDistinct_def count_distinct_card split: if_splits option.splits)
  have "length (RawURLEncoding_EncodeToString secret) = length ?b"
    using s(2) len by (simp add: length_RawURLEncoding)
  then have "?b = RawURLEncoding_EncodeToString secret"
    using filter_full RawURLEncoding_strict [OF s(1)] by metis
  then show "\<exists>secret. length secret = 32 \<and> 16 \<le> card (set secret) \<and>
      candidate = publicBearerPrefix @ RawURLEncoding_EncodeToString secret"
    using s(2,3) pre by (metis append_take_drop_id)
next
  assume "\<exists>secret. length secret = 32 \<and> 16 \<le> card (set secret) \<and>
      candidate = publicBearerPrefix @ RawURLEncoding_EncodeToString secret"
  then show "validPublicBearer candidate" using encoded_bearer_valid by blast
qed

text \<open>C30. Who may read an accepted verifier file: a single-link regular file owned by root or the service
  user with mode 0400 or 0600 and no extended ACL, or, for a service that is not root, a file of
  root and group root with mode 0440 whose ACL is byte for byte the one systemd writes for that
  user. Nothing else is accepted.\<close>

theorem verifier_access_rule_exact:
  "validateVerifierFileMetadata st accessACL uid = None \<longleftrightarrow>
   isSingleLinkRegular st \<and>
   ((st_uid st = 0 \<or> st_uid st = uid) \<and> st_mode st AND 0xFFF \<in> {0x100, 0x180} \<and> accessACL = None \<or>
    uid \<noteq> 0 \<and> st_uid st = 0 \<and> st_gid st = 0 \<and> st_mode st AND 0xFFF = 0x120 \<and>
      accessACL = Some (systemd_credential_acl uid))"
proof -
  have "systemd_credential_acl uid \<noteq> []"
    using length_LE_PutUint(2) [of posixACLXattrVersion] by (auto simp: systemd_credential_acl_def simp del: length_LE_PutUint)
  then show ?thesis
    by (cases accessACL)
       (auto simp: validateVerifierFileMetadata_def validateVerifierFileCandidateForUID_def Let_def
        isExactSystemdCredentialACL_iff)
qed

section \<open>Reading leaks nothing and returns a private file\<close>

lemma readVerifierAccessACL_fds:
  assumes C: "fd_contract K fds" and R: "readVerifierAccessACL K fd s = (r, s')"
  shows "fds s' = fds s"
  using R by (auto simp: readVerifierAccessACL_def dest!: contract_rules(9) [OF C] split: prod.splits sum.splits if_splits)

lemma validateDescriptor_fds:
  assumes C: "fd_contract K fds" and R: "validateVerifierFileDescriptor K uid fd st s = (r, s')"
  shows "fds s' = fds s"
  using R
  by (auto simp: validateVerifierFileDescriptor_def
      dest!: readVerifierAccessACL_fds [OF C] contract_rules(5) [OF C] split: prod.splits sum.splits if_splits)

lemma validateParent_fds:
  assumes C: "fd_contract K fds" and R: "validateVerifierParentDirectory K uid root p s = (r, s')"
  shows "fds s' = fds s"
  using R
  by (auto simp: validateVerifierParentDirectory_def contract_rules(11) [OF C]
      dest!: contract_rules(1,2,5) [OF C] split: prod.splits sum.splits)

lemma revalidate_reopened_fds:
  assumes C: "fd_contract K fds" and R: "revalidate_reopened K uid current d s = (r, s')"
  shows "fds s' = fds s - {d}"
proof -
  obtain x s1 where st: "sys_fstat K d s = (x, s1)" by (cases "sys_fstat K d s") auto
  note s1 = contract_rules(5) [OF C st] and cl = contract_rules(11) [OF C]
  show ?thesis
  proof (cases x)
    case (Inl e)
    with R st s1 cl show ?thesis by (auto simp: revalidate_reopened_def)
  next
    case (Inr st')
    obtain y s2 where v: "validateVerifierFileDescriptor K uid d st' s1 = (y, s2)"
      by (cases "validateVerifierFileDescriptor K uid d st' s1") auto
    from R st Inr v s1 cl validateDescriptor_fds [OF C v] show ?thesis
      by (auto simp: revalidate_reopened_def split: if_splits)
  qed
qed

lemma revalidate_body_fds:
  assumes C: "fd_contract K fds" and O: "\<And>ro. reopen = Some ro \<Longrightarrow> reopen_contract fds ro"
    and fd: "fd \<in> fds s" and R: "revalidate_body K uid expected reopen fd s = (r, s')"
  shows "fds s' = fds s"
proof -
  obtain x s1 where st: "sys_fstat K fd s = (x, s1)" by (cases "sys_fstat K fd s") auto
  note s1 = contract_rules(5) [OF C st]
  consider "s' = s1" | ro cur where "reopen = Some ro" "x = Inr cur"
      "(case ro fd s1 of
         ((d, Some e), s2) \<Rightarrow>
           (Some (OtherError ''cannot securely reopen verifier file during final path validation''),
            if 0 \<le> d \<and> d \<noteq> fd then sys_close K d s2 else s2)
       | ((d, None), s2) \<Rightarrow>
           if d < 0 \<or> d = fd
           then (Some (OtherError ''cannot securely reopen verifier file during final path validation''), s2)
           else revalidate_reopened K uid cur d s2) = (r, s')"
    using R st by (auto simp: revalidate_body_def split: sum.splits if_splits option.splits)
  then show ?thesis
  proof cases
    case 2
    obtain d e s2 where ro: "ro fd s1 = ((d, e), s2)" by (cases "ro fd s1") auto
    have o: "case e of None \<Rightarrow> 0 \<le> d \<and> d \<notin> fds s1 \<and> fds s2 = insert d (fds s1)
      | Some _ \<Rightarrow> (d < 0 \<or> d = fd) \<and> fds s2 = fds s1 \<or> 0 \<le> d \<and> d \<notin> fds s1 \<and> fds s2 = insert d (fds s1)"
      using O [OF 2(1), unfolded reopen_contract_def, rule_format, where p = fd and s = s1] ro
      by (cases e) simp_all
    show ?thesis
    proof (cases e)
      case None
      with o s1 fd have d: "0 \<le> d" "d \<noteq> fd" "d \<notin> fds s" "fds s2 = insert d (fds s)" by auto
      then have "revalidate_reopened K uid cur d s2 = (r, s')" using 2(3) ro None by simp
      from revalidate_reopened_fds [OF C this] d show ?thesis by auto
    next
      case (Some a)
      with o 2(3) ro s1 fd contract_rules(11) [OF C] show ?thesis by (auto split: if_splits)
    qed
  qed (use s1 in simp)
qed

lemma revalidate_fds:
  assumes C: "fd_contract K fds" and O: "\<And>ro. reopen = Some ro \<Longrightarrow> reopen_contract fds ro"
    and R: "revalidateVerifierPath K uid root p expected reopen s = (r, s')"
  shows "fds s' = fds s"
proof -
  let ?o = "sys_openat2 K root p [O_PATH, O_CLOEXEC, O_NOFOLLOW]
      [RESOLVE_BENEATH, RESOLVE_NO_MAGICLINKS, RESOLVE_NO_SYMLINKS] s"
  obtain x s1 where o: "?o = (x, s1)" by (cases ?o) auto
  show ?thesis
  proof (cases x)
    case (Inl e)
    with R o contract_rules(1) [OF C] show ?thesis by (auto simp: revalidateVerifierPath_def)
  next
    case (Inr fd)
    with o have fd: "fd \<notin> fds s" "fds s1 = insert fd (fds s)" using contract_rules(2) [OF C] by auto
    obtain y s2 where b: "revalidate_body K uid expected reopen fd s1 = (y, s2)"
      by (cases "revalidate_body K uid expected reopen fd s1") auto
    have "fds s2 = fds s1" by (rule revalidate_body_fds [OF C O _ b]) (use fd in simp_all)
    with R o Inr b fd contract_rules(11) [OF C] show ?thesis by (auto simp: revalidateVerifierPath_def)
  qed
qed

lemma read_body_fds:
  assumes C: "fd_contract K fds" and O: "\<And>ro. reopen = Some ro \<Longrightarrow> reopen_contract fds ro"
    and R: "read_verifier_body K uid root p reopen fd st s = (r, s')"
  shows "fds s' = fds s"
  using R
  by (auto simp: read_verifier_body_def dest!: contract_rules(5,10) [OF C] validateDescriptor_fds [OF C]
      revalidate_fds [OF C O, rotated] split: prod.splits sum.splits option.splits if_splits)

lemma verifier_pin_opens:
  assumes C: "fd_contract K fds" and R: "verifier_pin K root p s = (x, s')"
  shows "opens fds s x s'"
proof -
  let ?o = "sys_openat2 K root p [O_PATH, O_CLOEXEC, O_NOFOLLOW]
      [RESOLVE_BENEATH, RESOLVE_NO_MAGICLINKS, RESOLVE_NO_SYMLINKS] s"
  obtain y t where o: "?o = (y, t)" by (cases ?o) auto
  then show ?thesis
    using R contract_rules(1,2) [OF C] by (cases y) (auto simp: verifier_pin_def opens_def)
qed

lemma read_beneath_fds:
  assumes C: "fd_contract K fds" and O: "\<And>ro. reopen = Some ro \<Longrightarrow> reopen_contract fds ro"
    and R: "read_verifier_beneath K uid reopen p root s = (r, s')"
  shows "fds s' = fds s"
proof -
  obtain x s1 where v: "validateVerifierParentDirectory K uid root (path_Dir p) s = (x, s1)"
    by (cases "validateVerifierParentDirectory K uid root (path_Dir p) s") auto
  let ?o = "openPinnedRegularValidated K (verifier_pin K root p)
      (Some (validateVerifierFileCandidateForUID uid)) (Some (validateVerifierFileDescriptor K uid)) reopen s1"
  obtain y s2 where o: "?o = (y, s2)" by (cases ?o) auto
  have s1: "fds s1 = fds s" by (rule validateParent_fds [OF C v])
  have op: "opens fds s1 (map_sum id fst y) s2"
    by (rule openPinned_fds [OF C verifier_pin_opens [OF C] _ O o])
       (auto simp: keeps_fds_def dest: validateDescriptor_fds [OF C])
  show ?thesis
  proof (cases x)
    case (Some e)
    with R v s1 show ?thesis by (simp add: read_verifier_beneath_def)
  next
    case None
    then show ?thesis
      using R v o op s1 contract_rules(11) [OF C]
      by (auto simp: read_verifier_beneath_def opens_def dest!: read_body_fds [OF C O, rotated]
          split: sum.splits prod.splits)
  qed
qed

text \<open>C32. Reading the verifier file leaves exactly the descriptors open that were open before, on success
  and on every error path.\<close>

theorem verifier_read_leaks_no_descriptor:
  assumes "fd_contract K fds"
  shows "fds (snd (readVerifierFileSecure K uid path s)) = fds s"
proof -
  have O: "reopen_contract fds ro" if "Some (reopenPinnedRegular K) = Some ro" for ro
    using that reopenPinnedRegular_contract [OF assms] by simp
  show ?thesis
    by (auto simp: readVerifierFileSecure_def readVerifierFileSecureWith_def contract_rules(11) [OF assms]
        dest!: contract_rules(3,4) [OF assms] read_beneath_fds [OF assms O, rotated] split: prod.splits sum.splits)
qed

theorem verifier_read_leaks_no_descriptor_witness:
  "fd_contract (demo_kernel S_IFREG []) demo_fds \<and>
   demo_fds (snd (readVerifierFileSecure (demo_kernel S_IFREG []) 0 ''/etc/v'' (3, {1}))) = {1}"
  using demo_contract [of S_IFREG "[]"]
    verifier_read_leaks_no_descriptor [OF demo_contract [of S_IFREG "[]"], where s = "(3, {1})"]
  by (auto simp: demo_fds_def)

section \<open>What a returned verifier went through\<close>

text \<open>One look at the access rights of a descriptor: the ACL is read first, and the metadata the rule is
  applied to are those after it, unchanged from the metadata known before.\<close>

definition access_checked :: "'k kernel \<Rightarrow> u32 \<Rightarrow> int \<Rightarrow> stat \<Rightarrow> 'k \<Rightarrow> 'k \<Rightarrow> bool" where
  "access_checked K uid fd st s s' \<longleftrightarrow>
     (\<exists>acl s1 st'. readVerifierAccessACL K fd s = (Inr acl, s1) \<and> sys_fstat K fd s1 = (Inr st', s') \<and>
        sameVerifierFileMetadata st st' \<and> validateVerifierFileMetadata st' acl uid = None)"

lemma validateDescriptor_None:
  "validateVerifierFileDescriptor K uid fd st s = (None, s') \<longleftrightarrow> access_checked K uid fd st s s'"
  by (auto simp: validateVerifierFileDescriptor_def access_checked_def
      split: prod.splits sum.splits if_splits)

lemma same_metadata_trans:
  "sameVerifierFileMetadata a b \<Longrightarrow> sameVerifierFileMetadata b c \<Longrightarrow> sameVerifierFileMetadata a c"
  by (simp add: sameVerifierFileMetadata_def)

text \<open>An open of the configured name beneath the root that follows no link.\<close>

abbreviation pin_verifier :: "'k kernel \<Rightarrow> int \<Rightarrow> string \<Rightarrow> 'k \<Rightarrow> (errno + int) \<times> 'k" where
  "pin_verifier K root relative \<equiv>
     sys_openat2 K root relative [O_PATH, O_CLOEXEC, O_NOFOLLOW]
       [RESOLVE_BENEATH, RESOLVE_NO_MAGICLINKS, RESOLVE_NO_SYMLINKS]"

text \<open>A name is resolved, inspected, reopened through its descriptor and inspected again: the two looks
  agree, and the access rights of the data descriptor are checked.\<close>

definition resolved :: "'k kernel \<Rightarrow> u32 \<Rightarrow> int \<Rightarrow> string \<Rightarrow> 'k \<Rightarrow> int \<Rightarrow> stat \<Rightarrow> int \<Rightarrow> stat \<Rightarrow> 'k \<Rightarrow> bool" where
  "resolved K uid root relative s p pinned fd opened s' \<longleftrightarrow>
     (\<exists>s1 s2 s3 s4. pin_verifier K root relative s = (Inr p, s1) \<and> sys_fstat K p s1 = (Inr pinned, s2) \<and>
        validateVerifierFileCandidateForUID uid pinned = None \<and>
        reopenPinnedRegular K p s2 = ((fd, None), s3) \<and> fd \<noteq> p \<and>
        sys_fstat K fd s3 = (Inr opened, s4) \<and> sameVerifierFileMetadata pinned opened \<and>
        access_checked K uid fd opened s4 s')"

lemma map_sum_Inr: "map_sum f id x = Inr y \<longleftrightarrow> x = Inr y"
  by (cases x) auto

lemma openPinned_verifier_Inr:
  assumes "openPinnedRegularValidated K (verifier_pin K root relative)
    (Some (validateVerifierFileCandidateForUID uid)) (Some (validateVerifierFileDescriptor K uid))
    (Some (reopenPinnedRegular K)) s = (Inr (fd, st), s')"
  shows "\<exists>p pinned t. resolved K uid root relative s p pinned fd st t \<and> s' = sys_close K p t"
proof -
  obtain p s1 t where p: "pin_verifier K root relative s = (Inr p, s1)" "s' = sys_close K p t"
      "pinned_body K (Some (validateVerifierFileCandidateForUID uid)) (Some (validateVerifierFileDescriptor K uid))
         (Some (reopenPinnedRegular K)) p s1 = (Inr (fd, st), t)"
    using assms by (auto simp: openPinnedRegularValidated_def verifier_pin_def apfst_def map_prod_def
        map_sum_Inr split: prod.splits sum.splits)
  then obtain pinned s2 s3 where b: "sys_fstat K p s1 = (Inr pinned, s2)"
      "validateVerifierFileCandidateForUID uid pinned = None" "reopenPinnedRegular K p s2 = ((fd, None), s3)"
      "fd \<noteq> p" "check_reopened K (Some (validateVerifierFileCandidateForUID uid))
         (Some (validateVerifierFileDescriptor K uid)) pinned fd s3 = (Inr (fd, st), t)"
    by (auto simp: pinned_body_def split: prod.splits sum.splits if_splits option.splits
        dest: check_reopened_Inr(1))
  from b(5) obtain s4 where "sys_fstat K fd s3 = (Inr st, s4)" "sameVerifierFileMetadata pinned st"
      "access_checked K uid fd st s4 t"
    by (auto simp: check_reopened_def validateDescriptor_None [symmetric]
        split: prod.splits sum.splits if_splits option.splits)
  then show ?thesis using p(1,2) b(1-4) unfolding resolved_def by blast
qed

lemma revalidate_None:
  assumes "revalidateVerifierPath K uid root relative expected (Some (reopenPinnedRegular K)) s = (None, s')"
  shows "\<exists>p current fd reopened t. resolved K uid root relative s p current fd reopened t \<and>
    sameVerifierFileMetadata expected current \<and> s' = sys_close K p (sys_close K fd t)"
proof -
  obtain p s1 t where p: "pin_verifier K root relative s = (Inr p, s1)" "s' = sys_close K p t"
      "revalidate_body K uid expected (Some (reopenPinnedRegular K)) p s1 = (None, t)"
    using assms by (auto simp: revalidateVerifierPath_def split: prod.splits sum.splits)
  then obtain current s2 fd s3 where b: "sys_fstat K p s1 = (Inr current, s2)"
      "sameVerifierFileMetadata expected current" "validateVerifierFileCandidateForUID uid current = None"
      "reopenPinnedRegular K p s2 = ((fd, None), s3)" "fd \<noteq> p"
      "revalidate_reopened K uid current fd s3 = (None, t)"
    by (auto simp: revalidate_body_def split: prod.splits sum.splits if_splits option.splits)
  from b(6) obtain reopened s4 u where "sys_fstat K fd s3 = (Inr reopened, s4)"
      "sameVerifierFileMetadata current reopened" "access_checked K uid fd reopened s4 u" "t = sys_close K fd u"
    by (auto simp: revalidate_reopened_def validateDescriptor_None [symmetric]
        split: prod.splits sum.splits if_splits)
  then show ?thesis using p(1,2) b(1-5) unfolding resolved_def by blast
qed

lemma read_body_Inr:
  assumes "read_verifier_body K uid root relative (Some (reopenPinnedRegular K)) fd st s = (Inr v, s')"
  shows "\<exists>s1 after s2 s3 q current fd' reopened t.
    sys_read_limited K fd 101 s = (Inr (bytes_of_string (publicVerifierPrefix @ hex_EncodeToString v @ [CHR 0x0A])), s1) \<and>
    sys_fstat K fd s1 = (Inr after, s2) \<and> sameVerifierFileMetadata st after \<and> access_checked K uid fd after s2 s3 \<and>
    resolved K uid root relative s3 q current fd' reopened t \<and> sameVerifierFileMetadata after current \<and>
    s' = sys_close K q (sys_close K fd' t)"
proof -
  obtain encoded s1 after s2 s3 where r: "sys_read_limited K fd 101 s = (Inr encoded, s1)"
      "parsePublicVerifier encoded = Inr v" "sys_fstat K fd s1 = (Inr after, s2)"
      "sameVerifierFileMetadata st after" "access_checked K uid fd after s2 s3"
      "revalidateVerifierPath K uid root relative after (Some (reopenPinnedRegular K)) s3 = (None, s')"
    using assms
    by (auto simp: read_verifier_body_def publicVerifierFileMaxBytes_def publicVerifierPrefix_def
        validateDescriptor_None [symmetric] split: prod.splits sum.splits option.splits if_splits)
  obtain q current fd' reopened t where "resolved K uid root relative s3 q current fd' reopened t"
      "sameVerifierFileMetadata after current" "s' = sys_close K q (sys_close K fd' t)"
    using revalidate_None [OF r(6)] by blast
  with r(1-5) parsePublicVerifier_iff [of encoded v] show ?thesis by blast
qed

text \<open>A kernel on which the read succeeds: the parent directory is descriptor 100, every other
  descriptor is one private file that holds a verifier.\<close>

definition verifier_stat :: "int \<Rightarrow> stat" where
  "verifier_stat fd =
     \<lparr> st_mode = (if fd = 100 then 0x41C0 else 0x8100), st_nlink = 1, st_dev = 1, st_ino = 2, st_size = 100,
       st_uid = 0, st_gid = 0, st_mtim = (0, 0), st_ctim = (0, 0) \<rparr>"

definition verifier_kernel :: "bytes \<Rightarrow> unit kernel" where
  "verifier_kernel v =
     \<lparr> sys_openat2 = (\<lambda>d p f r s. (Inr (if O_DIRECTORY \<in> set f then 100 else 5), s)),
       sys_open = (\<lambda>p f s. (Inr (if p = ''/'' then 3 else 6), s)),
       sys_fstat = (\<lambda>fd s. (Inr (verifier_stat fd), s)),
       sys_fstatfs = (\<lambda>fd s. (Inl ENOSYS, s)), sys_statx = (\<lambda>fd s. (Inl ENOSYS, s)),
       sys_readdirnames = (\<lambda>fd n s. (([], None), s)), sys_fgetxattr = (\<lambda>fd a n s. (Inl ENODATA, s)),
       sys_read_limited = (\<lambda>fd n s.
         (Inr (bytes_of_string (publicVerifierPrefix @ hex_EncodeToString v @ [CHR 0x0A])), s)),
       sys_close = (\<lambda>fd s. s) \<rparr>"

lemma verifier_kernel_reads:
  assumes "length v = 32"
  shows "readVerifierFileSecure (verifier_kernel v) 0 ''/etc/v'' s = (Inr v, s)"
  using assms
  by (simp add: readVerifierFileSecure_def readVerifierFileSecureWith_def read_verifier_beneath_def
      validateVerifierParentDirectory_def openPinnedRegularValidated_def pinned_body_def check_reopened_def
      reopenPinnedRegular_def read_verifier_body_def revalidateVerifierPath_def revalidate_body_def
      revalidate_reopened_def validateVerifierFileDescriptor_def readVerifierAccessACL_def verifier_pin_def
      validateVerifierFileMetadata_def validateVerifierFileCandidateForUID_def verifier_kernel_def
      verifier_stat_def isSingleLinkRegular_def sameVerifierFileMetadata_def S_IFMT_def S_IFREG_def S_IFDIR_def
      parsePublicVerifier_iff [THEN iffD2] Let_def)

text \<open>C31. A verifier that is returned is what the configured file held, call by call. The name is resolved
  beneath the root, after its directory has passed, to a descriptor whose metadata pass the ownership and
  mode rule; the data descriptor opened from it shows the same metadata and passes the access rule, ACL
  included; the bytes read through it are the encoding of the verifier and nothing more; after the read it
  shows the same metadata and passes the access rule again; and the name, resolved a second time, still
  leads to an object of the same metadata that passes the rule. Every call starts in the state the one
  before left, and every descriptor opened on the way is closed.\<close>

theorem verifier_is_what_the_file_held:
  assumes "readVerifierFileSecure K uid path s = (Inr v, s')"
  defines "rel \<equiv> if prefix [slash] path then tl path else path"
  shows "\<exists>root s1 s2 p pinned fd opened s3 s4 after s5 s6 q current fd' reopened s7.
    sys_open K ''/'' [O_PATH, O_DIRECTORY, O_CLOEXEC] s = (Inr root, s1) \<and>
    validateVerifierParentDirectory K uid root (path_Dir rel) s1 = (None, s2) \<and>
    resolved K uid root rel s2 p pinned fd opened s3 \<and>
    sys_read_limited K fd 101 (sys_close K p s3) =
      (Inr (bytes_of_string (publicVerifierPrefix @ hex_EncodeToString v @ [CHR 0x0A])), s4) \<and>
    sys_fstat K fd s4 = (Inr after, s5) \<and> sameVerifierFileMetadata pinned after \<and>
    access_checked K uid fd after s5 s6 \<and>
    resolved K uid root rel s6 q current fd' reopened s7 \<and> sameVerifierFileMetadata pinned current \<and>
    s' = sys_close K root (sys_close K fd (sys_close K q (sys_close K fd' s7)))"
proof -
  let ?ro = "Some (reopenPinnedRegular K)"
  obtain root s1 t where o: "sys_open K ''/'' [O_PATH, O_DIRECTORY, O_CLOEXEC] s = (Inr root, s1)"
      "read_verifier_beneath K uid ?ro rel root s1 = (Inr v, t)" "s' = sys_close K root t"
    using assms
    by (auto simp: readVerifierFileSecure_def readVerifierFileSecureWith_def split: prod.splits sum.splits)
  obtain s2 fd opened s3 u where b: "validateVerifierParentDirectory K uid root (path_Dir rel) s1 = (None, s2)"
      "openPinnedRegularValidated K (verifier_pin K root rel) (Some (validateVerifierFileCandidateForUID uid))
         (Some (validateVerifierFileDescriptor K uid)) ?ro s2 = (Inr (fd, opened), s3)"
      "read_verifier_body K uid root rel ?ro fd opened s3 = (Inr v, u)" "t = sys_close K fd u"
    using o(2) by (auto simp: read_verifier_beneath_def split: prod.splits sum.splits option.splits)
  obtain p pinned s3' where p: "resolved K uid root rel s2 p pinned fd opened s3'" "s3 = sys_close K p s3'"
    using openPinned_verifier_Inr [OF b(2)] by blast
  have same: "sameVerifierFileMetadata pinned opened" using p(1) by (auto simp: resolved_def)
  obtain s4 after s5 s6 q current fd' reopened s7 where
      "sys_read_limited K fd 101 s3 = (Inr (bytes_of_string (publicVerifierPrefix @ hex_EncodeToString v @ [CHR 0x0A])), s4)"
      "sys_fstat K fd s4 = (Inr after, s5)" "sameVerifierFileMetadata opened after" "access_checked K uid fd after s5 s6"
      "resolved K uid root rel s6 q current fd' reopened s7" "sameVerifierFileMetadata after current"
      "u = sys_close K q (sys_close K fd' s7)"
    using read_body_Inr [OF b(3)] by blast
  moreover from this have "sameVerifierFileMetadata pinned after" "sameVerifierFileMetadata pinned current"
    using same same_metadata_trans by blast+
  ultimately show ?thesis using o(1,3) b(1,4) p unfolding p(2) by blast
qed

theorem verifier_is_what_the_file_held_witness:
  "readVerifierFileSecure (verifier_kernel (replicate 32 0xAB)) 0 ''/etc/v'' ()
     = (Inr (replicate 32 0xAB), ()) \<and>
   (\<exists>p pinned fd opened q current fd' reopened.
      resolved (verifier_kernel (replicate 32 0xAB)) 0 3 ''etc/v'' () p pinned fd opened () \<and>
      resolved (verifier_kernel (replicate 32 0xAB)) 0 3 ''etc/v'' () q current fd' reopened () \<and>
      sameVerifierFileMetadata pinned current)"
proof -
  have r: "readVerifierFileSecure (verifier_kernel (replicate 32 0xAB)) 0 ''/etc/v'' ()
      = (Inr (replicate 32 0xAB), ())"
    by (rule verifier_kernel_reads) simp
  obtain root p pinned fd opened q current fd' reopened where
      "sys_open (verifier_kernel (replicate 32 0xAB)) ''/'' [O_PATH, O_DIRECTORY, O_CLOEXEC] () = (Inr root, ())"
      "resolved (verifier_kernel (replicate 32 0xAB)) 0 root ''etc/v'' () p pinned fd opened ()"
      "resolved (verifier_kernel (replicate 32 0xAB)) 0 root ''etc/v'' () q current fd' reopened ()"
      "sameVerifierFileMetadata pinned current"
    using verifier_is_what_the_file_held [OF r] by auto
  moreover from this(1) have "root = 3" by (simp add: verifier_kernel_def)
  ultimately show ?thesis using r by blast
qed

end
