(* ===== verification/Service_Runtime.thy ===== *)
theory Service_Runtime
  imports Secure_Root Go_Strings
begin

unbundle bit_operations_syntax

text \<open>
  The start-up self check of the public file service (\<open>pkg/publicfiles/runtime_linux.go\<close>): process
  status, cgroup membership and the read-only view of the cgroup limits. System calls are
  parameters; the parsers of the proc files are modelled in full. The status parser is shown to
  accept exactly the files in which every required field occurs once with a safe value.
\<close>

section \<open>The interface to the system\<close>

record 'k runtime_os =
  rt_kernel :: "'k kernel"
  rt_set_dumpable :: "'k \<Rightarrow> errno option \<times> 'k"
  rt_get_dumpable :: "'k \<Rightarrow> (errno + nat) \<times> 'k"
  rt_openat :: "int \<Rightarrow> string \<Rightarrow> open_flag list \<Rightarrow> 'k \<Rightarrow> (errno + int) \<times> 'k"
  rt_fstatfs :: "int \<Rightarrow> 'k \<Rightarrow> (errno + i64 \<times> bool) \<times> 'k"   \<comment> \<open>type, and whether \<open>ST_RDONLY\<close> is set\<close>
  rt_statx :: "int \<Rightarrow> 'k \<Rightarrow> (errno + u64 option \<times> u32) \<times> 'k"   \<comment> \<open>mount id if reported, mode\<close>
  rt_euid :: int
  rt_egid :: int

text \<open>Errors carry the text of the source without the values formatted into it.\<close>

type_synonym runtime_error = string

definition serviceRuntimeStatusMaxBytes :: nat where "serviceRuntimeStatusMaxBytes = 64 * 1024"
definition serviceRuntimeCgroupMaxBytes :: nat where "serviceRuntimeCgroupMaxBytes = 16 * 1024"
definition serviceRuntimeMountInfoMaxBytes :: nat where "serviceRuntimeMountInfoMaxBytes = 4 * 1024 * 1024"
definition serviceRuntimeCgroupLimitMaxBytes :: nat where "serviceRuntimeCgroupLimitMaxBytes = 64"
definition serviceRuntimeCgroupUnitPath :: string where
  "serviceRuntimeCgroupUnitPath = ''/system.slice/recasaos-public-files.service''"
definition serviceRuntimeCgroupLimitsPath :: string where
  "serviceRuntimeCgroupLimitsPath = ''/run/recasaos-cgroup''"
definition CGROUP2_SUPER_MAGIC :: i64 where "CGROUP2_SUPER_MAGIC = 0x63677270"

section \<open>Bounded reads\<close>

definition readServiceRuntimeFile ::
    "'k kernel \<Rightarrow> string \<Rightarrow> nat \<Rightarrow> 'k \<Rightarrow> (runtime_error + string) \<times> 'k" where
  "readServiceRuntimeFile K path maxBytes s =
     (if maxBytes \<le> 0 then (Inl ''runtime inspection limit is invalid'', s)
      else case sys_open K path [O_RDONLY, O_CLOEXEC] s of
        (Inl e, s1) \<Rightarrow> (Inl ''open'', s1)
      | (Inr fd, s1) \<Rightarrow>
          (case sys_read_limited K fd (maxBytes + 1) s1 of
             (Inl e, s2) \<Rightarrow> (Inl ''read'', sys_close K fd s2)
           | (Inr content, s2) \<Rightarrow>
               if maxBytes < length content
               then (Inl ''runtime inspection file exceeds the safety limit'', sys_close K fd s2)
               else (Inr (string_of_bytes content), sys_close K fd s2)))"

definition readServiceRuntimeStatus ::
    "'k kernel \<Rightarrow> string \<Rightarrow> 'k \<Rightarrow> (runtime_error + string) \<times> 'k" where
  "readServiceRuntimeStatus K path = readServiceRuntimeFile K path serviceRuntimeStatusMaxBytes"

definition disableServiceRuntimeDumpability :: "'k runtime_os \<Rightarrow> 'k \<Rightarrow> runtime_error option \<times> 'k" where
  "disableServiceRuntimeDumpability os s =
     (case rt_set_dumpable os s of
        (Some e, s1) \<Rightarrow> (Some ''prctl'', s1)
      | (None, s1) \<Rightarrow>
          (case rt_get_dumpable os s1 of
             (Inl e, s2) \<Rightarrow> (Some ''prctl'', s2)
           | (Inr v, s2) \<Rightarrow> (if v \<noteq> 0 then Some ''process remains dumpable'' else None, s2)))"

section \<open>Cgroup membership and limits\<close>

definition validateServiceRuntimeCgroup :: "string \<Rightarrow> runtime_error option" where
  "validateServiceRuntimeCgroup content =
     (if content = [] \<or> serviceRuntimeCgroupMaxBytes < length content
         \<or> last content \<noteq> CHR 0x0A \<or> CHR 0x00 \<in> set content
      then Some ''service cgroup metadata is malformed''
      else let lines = splitOn (CHR 0x0A) (strings_TrimSuffix content [CHR 0x0A]) in
        if length lines \<noteq> 1 then Some ''service requires the unified cgroup v2 hierarchy''
        else let flds = splitOn (CHR '':'') (lines ! 0) in
          if length flds \<noteq> 3 \<or> flds ! 0 \<noteq> ''0'' \<or> flds ! 1 \<noteq> []
             \<or> flds ! 2 \<noteq> serviceRuntimeCgroupUnitPath
          then Some ''service is not running in its reviewed cgroup v2 unit''
          else None)"

definition validateServiceRuntimeCgroupLimitDirectoryMetadata :: "stat \<Rightarrow> runtime_error option" where
  "validateServiceRuntimeCgroupLimitDirectoryMetadata metadata =
     (if st_mode metadata AND S_IFMT \<noteq> S_IFDIR
      then Some ''service cgroup limit view is not a directory''
      else if st_uid metadata \<noteq> 0 \<or> st_gid metadata \<noteq> 0 \<or> st_mode metadata AND 0x12 \<noteq> 0
      then Some ''service cgroup limit directory metadata is unsafe''
      else None)"

definition commaSeparatedRuntimeOption :: "string \<Rightarrow> string \<Rightarrow> bool" where
  "commaSeparatedRuntimeOption options expected \<longleftrightarrow> list_ex ((=) expected) (splitOn (CHR '','') options)"

text \<open>The index of the first \<open>-\<close> from field 6 on.\<close>

definition mount_separator :: "string list \<Rightarrow> nat option" where
  "mount_separator flds = find (\<lambda>i. flds ! i = ''-'') [6..<length flds]"

text \<open>One mount line: an error, or whether it counts as a match.\<close>

definition check_mount_line :: "u64 \<Rightarrow> string \<Rightarrow> string \<Rightarrow> string \<Rightarrow> runtime_error + bool" where
  "check_mount_line expectedMountID expectedRoot expectedTarget line =
     (let flds = strings_Fields line in
      if length flds < 10 then Inl ''service mount metadata is malformed''
      else case mount_separator flds of
        None \<Rightarrow> Inl ''service mount metadata is malformed''
      | Some separator \<Rightarrow>
          if length flds \<le> separator + 3 then Inl ''service mount metadata is malformed''
          else if flds ! 4 \<noteq> expectedTarget then Inr False
          else if strconv_ParseUint (flds ! 0) 64 \<noteq> Some (unat expectedMountID)
          then Inl ''service cgroup limit mount identity is unexpected''
          else if flds ! 3 \<noteq> expectedRoot
          then Inl ''service cgroup limit view is bound from an unexpected cgroup''
          else if flds ! (separator + 1) \<noteq> ''cgroup2''
          then Inl ''service cgroup limit mount is not cgroup v2''
          else if \<not> commaSeparatedRuntimeOption (flds ! 5) ''ro''
                  \<or> commaSeparatedRuntimeOption (flds ! 5) ''rw''
          then Inl ''service cgroup limit mount is not read-only''
          else Inr True)"

fun count_mounts :: "(string \<Rightarrow> runtime_error + bool) \<Rightarrow> string list \<Rightarrow> nat \<Rightarrow> runtime_error + nat" where
  "count_mounts check [] matches = Inr matches"
| "count_mounts check (line # lines) matches =
     (case check line of
        Inl e \<Rightarrow> Inl e
      | Inr b \<Rightarrow> count_mounts check lines (if b then matches + 1 else matches))"

definition validateServiceRuntimeCgroupLimitMount :: "string \<Rightarrow> u64 \<Rightarrow> string \<Rightarrow> runtime_error option" where
  "validateServiceRuntimeCgroupLimitMount content expectedMountID name =
     (if expectedMountID = 0 \<or> name = [] \<or> slash \<in> set name \<or> content = []
         \<or> serviceRuntimeMountInfoMaxBytes < length content
         \<or> last content \<noteq> CHR 0x0A \<or> CHR 0x00 \<in> set content
      then Some ''service mount metadata is malformed''
      else
        case count_mounts
               (check_mount_line expectedMountID (serviceRuntimeCgroupUnitPath @ slash # name)
                 (serviceRuntimeCgroupLimitsPath @ slash # name))
               (splitOn (CHR 0x0A) (strings_TrimSuffix content [CHR 0x0A])) 0 of
          Inl e \<Rightarrow> Some e
        | Inr matches \<Rightarrow>
            if matches \<noteq> 1 then Some ''service cgroup limit mount must appear exactly once'' else None)"

text \<open>What runs between the open of a limit file and its deferred close.\<close>

definition read_limit_body ::
    "'k runtime_os \<Rightarrow> nat \<Rightarrow> int \<Rightarrow> 'k \<Rightarrow> (runtime_error + string \<times> u64) \<times> 'k" where
  "read_limit_body os maxBytes fileFD s =
     (case rt_fstatfs os fileFD s of
        (Inl e, s1) \<Rightarrow> (Inl ''fstatfs'', s1)
      | (Inr (fstype, rdonly), s1) \<Rightarrow>
          if fstype \<noteq> CGROUP2_SUPER_MAGIC
          then (Inl ''runtime cgroup limit is not backed by cgroup v2'', s1)
          else if \<not> rdonly then (Inl ''runtime cgroup limit is not mounted read-only'', s1)
          else (case rt_statx os fileFD s1 of
            (Inl e, s2) \<Rightarrow> (Inl ''statx'', s2)
          | (Inr (mnt, mode), s2) \<Rightarrow>
              (case mnt of
                 None \<Rightarrow> (Inl ''runtime cgroup limit has no stable mount identity'', s2)
               | Some mountID \<Rightarrow>
                   if mountID = 0 then (Inl ''runtime cgroup limit has no stable mount identity'', s2)
                   else if mode AND S_IFMT \<noteq> S_IFREG
                   then (Inl ''runtime cgroup limit is not a regular file'', s2)
                   else (case sys_read_limited (rt_kernel os) fileFD (maxBytes + 1) s2 of
                     (Inl e, s3) \<Rightarrow> (Inl ''read'', s3)
                   | (Inr content, s3) \<Rightarrow>
                       if maxBytes < length content
                       then (Inl ''runtime inspection file exceeds the safety limit'', s3)
                       else (Inr (string_of_bytes content, mountID), s3)))))"

definition readServiceRuntimeCgroupLimitAt ::
    "'k runtime_os \<Rightarrow> int \<Rightarrow> string \<Rightarrow> nat \<Rightarrow> 'k \<Rightarrow> (runtime_error + string \<times> u64) \<times> 'k" where
  "readServiceRuntimeCgroupLimitAt os directoryFD name maxBytes s =
     (if maxBytes \<le> 0 then (Inl ''runtime inspection limit is invalid'', s)
      else case rt_openat os directoryFD name [O_RDONLY, O_CLOEXEC, O_NOFOLLOW] s of
        (Inl e, s1) \<Rightarrow> (Inl ''openat'', s1)
      | (Inr fileFD, s1) \<Rightarrow>
          (case read_limit_body os maxBytes fileFD s1 of
             (r, s2) \<Rightarrow> (r, sys_close (rt_kernel os) fileFD s2)))"

definition validateServiceRuntimeCgroupLimitValue :: "string \<Rightarrow> string \<Rightarrow> string \<Rightarrow> runtime_error option" where
  "validateServiceRuntimeCgroupLimitValue name content expected =
     (if content \<noteq> expected @ [CHR 0x0A]
      then Some ''service cgroup limit differs from the reviewed boundary'' else None)"

definition runtime_limits :: "(string \<times> string) list" where
  "runtime_limits =
     [(''memory.max'', ''536870912''), (''memory.swap.max'', ''0''), (''pids.max'', ''256'')]"

fun check_limits ::
    "'k runtime_os \<Rightarrow> int \<Rightarrow> string \<Rightarrow> (string \<times> string) list \<Rightarrow> 'k \<Rightarrow> runtime_error option \<times> 'k" where
  "check_limits os directoryFD mountInfo [] s = (None, s)"
| "check_limits os directoryFD mountInfo ((name, expected) # limits) s =
     (case readServiceRuntimeCgroupLimitAt os directoryFD name serviceRuntimeCgroupLimitMaxBytes s of
        (Inl e, s1) \<Rightarrow> (Some ''cannot inspect service cgroup limit'', s1)
      | (Inr (content, mountID), s1) \<Rightarrow>
          (case validateServiceRuntimeCgroupLimitMount mountInfo mountID name of
             Some e \<Rightarrow> (Some e, s1)
           | None \<Rightarrow>
               (case validateServiceRuntimeCgroupLimitValue name content expected of
                  Some e \<Rightarrow> (Some e, s1)
                | None \<Rightarrow> check_limits os directoryFD mountInfo limits s1)))"

definition check_limit_directory ::
    "'k runtime_os \<Rightarrow> int \<Rightarrow> 'k \<Rightarrow> runtime_error option \<times> 'k" where
  "check_limit_directory os directoryFD s =
     (case sys_fstat (rt_kernel os) directoryFD s of
        (Inl e, s1) \<Rightarrow> (Some ''cannot inspect the service cgroup limit directory'', s1)
      | (Inr metadata, s1) \<Rightarrow>
          (case validateServiceRuntimeCgroupLimitDirectoryMetadata metadata of
             Some e \<Rightarrow> (Some e, s1)
           | None \<Rightarrow>
               (case readServiceRuntimeFile (rt_kernel os) ''/proc/self/mountinfo''
                       serviceRuntimeMountInfoMaxBytes s1 of
                  (Inl e, s2) \<Rightarrow> (Some ''cannot inspect the service mount table'', s2)
                | (Inr mountInfo, s2) \<Rightarrow> check_limits os directoryFD mountInfo runtime_limits s2)))"

definition validateServiceRuntimeCgroupLimits ::
    "'k runtime_os \<Rightarrow> string \<Rightarrow> 'k \<Rightarrow> runtime_error option \<times> 'k" where
  "validateServiceRuntimeCgroupLimits os path s =
     (case sys_open (rt_kernel os) path [O_RDONLY, O_DIRECTORY, O_CLOEXEC, O_NOFOLLOW] s of
        (Inl e, s1) \<Rightarrow> (Some ''cannot open the service cgroup limit view'', s1)
      | (Inr directoryFD, s1) \<Rightarrow>
          (case check_limit_directory os directoryFD s1 of
             (r, s2) \<Rightarrow> (r, sys_close (rt_kernel os) directoryFD s2)))"

section \<open>Process status\<close>

definition status_required :: "string list" where
  "status_required =
     [''Uid'', ''Gid'', ''Groups'', ''Umask'', ''CapInh'', ''CapPrm'', ''CapEff'', ''CapBnd'', ''CapAmb'',
      ''NoNewPrivs'', ''Seccomp'']"

definition validateRuntimeIDs :: "string \<Rightarrow> string \<Rightarrow> nat \<Rightarrow> runtime_error option" where
  "validateRuntimeIDs name encoded expected =
     (let values = strings_Fields encoded in
      if length values \<noteq> 4 then Some (name @ '' must contain four identities'')
      else if list_ex (\<lambda>v. strconv_ParseUint v 32 \<noteq> Some expected) values
      then Some (name @ '' identities must all match the effective identity'')
      else None)"

text \<open>The loop that collects the required fields and refuses a duplicate.\<close>

fun collect_status ::
    "string list \<Rightarrow> (string \<rightharpoonup> string) \<Rightarrow> runtime_error + (string \<rightharpoonup> string)" where
  "collect_status [] flds = Inr flds"
| "collect_status (line # lines) flds =
     (case strings_Cut (CHR '':'') line of
        None \<Rightarrow> collect_status lines flds
      | Some (key, v) \<Rightarrow>
          if key \<notin> set status_required then collect_status lines flds
          else if flds key \<noteq> None then Inl (''process status contains duplicate fields'')
          else collect_status lines (flds(key \<mapsto> strings_TrimSpace v)))"

definition check_status_values :: "(string \<Rightarrow> string) \<Rightarrow> nat \<Rightarrow> nat \<Rightarrow> runtime_error option" where
  "check_status_values field uid gid =
     (case validateRuntimeIDs ''Uid'' (field ''Uid'') uid of
        Some e \<Rightarrow> Some e
      | None \<Rightarrow>
          (case validateRuntimeIDs ''Gid'' (field ''Gid'') gid of
             Some e \<Rightarrow> Some e
           | None \<Rightarrow>
               if list_ex (\<lambda>g. strconv_ParseUint g 32 \<noteq> Some gid) (strings_Fields (field ''Groups''))
               then Some ''service has an unexpected supplementary group''
               else if strconv_ParseUintBase (field ''Umask'') 8 32 \<noteq> Some 63
               then Some ''service umask must be exactly 0077''
               else if list_ex (\<lambda>k. strconv_ParseUintBase (field k) 16 64 \<noteq> Some 0)
                         [''CapInh'', ''CapPrm'', ''CapEff'', ''CapBnd'', ''CapAmb'']
               then Some ''capability set must be zero''
               else if field ''NoNewPrivs'' \<noteq> ''1'' then Some ''NoNewPrivs must be enabled''
               else if field ''Seccomp'' \<noteq> ''2'' then Some ''seccomp filtering must be enabled''
               else None))"

definition validateServiceRuntimeStatus :: "string \<Rightarrow> int \<Rightarrow> int \<Rightarrow> runtime_error option" where
  "validateServiceRuntimeStatus statusText effectiveUID effectiveGID =
     (if effectiveUID \<le> 0 then Some ''service must not run as root''
      else if effectiveGID \<le> 0 then Some ''service must not run with the root group''
      else case collect_status (splitOn (CHR 0x0A) statusText) Map.empty of
        Inl e \<Rightarrow> Some e
      | Inr flds \<Rightarrow>
          if list_ex (\<lambda>key. flds key = None) status_required then Some ''process status is missing a field''
          else check_status_values (\<lambda>key. the (flds key)) (nat effectiveUID) (nat effectiveGID))"

definition ValidateServiceRuntime :: "'k runtime_os \<Rightarrow> 'k \<Rightarrow> runtime_error option \<times> 'k" where
  "ValidateServiceRuntime os s =
     (case disableServiceRuntimeDumpability os s of
        (Some e, s1) \<Rightarrow> (Some ''cannot disable process memory inspection'', s1)
      | (None, s1) \<Rightarrow>
          (case readServiceRuntimeStatus (rt_kernel os) ''/proc/self/status'' s1 of
             (Inl e, s2) \<Rightarrow> (Some ''cannot inspect process status'', s2)
           | (Inr statusText, s2) \<Rightarrow>
               (case validateServiceRuntimeStatus statusText (rt_euid os) (rt_egid os) of
                  Some e \<Rightarrow> (Some e, s2)
                | None \<Rightarrow>
                    (case readServiceRuntimeFile (rt_kernel os) ''/proc/self/cgroup''
                            serviceRuntimeCgroupMaxBytes s2 of
                       (Inl e, s3) \<Rightarrow> (Some ''cannot inspect process cgroup'', s3)
                     | (Inr cgroup, s3) \<Rightarrow>
                         (case validateServiceRuntimeCgroup cgroup of
                            Some e \<Rightarrow> (Some e, s3)
                          | None \<Rightarrow>
                              validateServiceRuntimeCgroupLimits os serviceRuntimeCgroupLimitsPath s3)))))"

section \<open>The status parser accepts exactly the safe files\<close>

text \<open>All values a key has in the status file, in order.\<close>

definition line_value :: "string \<Rightarrow> string \<Rightarrow> string option" where
  "line_value key line =
     (case strings_Cut (CHR '':'') line of
        Some (k, v) \<Rightarrow> if k = key then Some (strings_TrimSpace v) else None
      | None \<Rightarrow> None)"

definition status_values :: "string \<Rightarrow> string \<Rightarrow> string list" where
  "status_values key statusText = List.map_filter (line_value key) (splitOn (CHR 0x0A) statusText)"

lemma collect_status_iff:
  "collect_status lines f = Inr f' \<longleftrightarrow>
   (\<forall>k \<in> set status_required. length (List.map_filter (line_value k) lines) \<le> (if f k = None then 1 else 0)) \<and>
   f' = (\<lambda>k. if k \<in> set status_required \<and> List.map_filter (line_value k) lines \<noteq> []
              then Some (hd (List.map_filter (line_value k) lines)) else f k)"
proof (induction lines arbitrary: f)
  case Nil
  then show ?case by (auto simp: List.map_filter_def)
next
  case (Cons line lines)
  show ?case
  proof (cases "\<exists>key v. strings_Cut (CHR '':'') line = Some (key, v) \<and> key \<in> set status_required")
    case False
    then have "line_value k line = None" if "k \<in> set status_required" for k
      using that by (auto simp: line_value_def split: option.splits)
    moreover have "collect_status (line # lines) f = collect_status lines f"
      using False by (auto split: option.splits)
    ultimately show ?thesis
      by (simp only: Cons.IH) (simp add: map_filter_simps cong: if_cong conj_cong del: collect_status.simps)
  next
    case True
    then obtain key v where c: "strings_Cut (CHR '':'') line = Some (key, v)" "key \<in> set status_required"
      by blast
    then have lv: "line_value k line = (if k = key then Some (strings_TrimSpace v) else None)" for k
      by (simp add: line_value_def)
    show ?thesis
    proof (cases "f key = None")
      case False
      with c lv show ?thesis by (auto simp: map_filter_simps)
    next
      case True
      have "collect_status (line # lines) f = collect_status lines (f(key \<mapsto> strings_TrimSpace v))"
        using c True by simp
      then have "collect_status (line # lines) f = Inr f' \<longleftrightarrow>
          (\<forall>k \<in> set status_required. length (List.map_filter (line_value k) (line # lines)) \<le> (if f k = None then 1 else 0)) \<and>
          f' = (\<lambda>k. if k \<in> set status_required \<and> List.map_filter (line_value k) lines \<noteq> []
              then Some (hd (List.map_filter (line_value k) lines)) else (f(key \<mapsto> strings_TrimSpace v)) k)"
        unfolding \<open>collect_status (line # lines) f = _\<close> Cons.IH
        using True lv by (auto simp: map_filter_simps split: if_splits)
      also have "\<dots> \<longleftrightarrow> (\<forall>k \<in> set status_required. length (List.map_filter (line_value k) (line # lines)) \<le> (if f k = None then 1 else 0)) \<and>
          f' = (\<lambda>k. if k \<in> set status_required \<and> List.map_filter (line_value k) (line # lines) \<noteq> []
              then Some (hd (List.map_filter (line_value k) (line # lines))) else f k)"
      proof (rule conj_cong [OF refl], rule arg_cong [where f = "(=) f'"], rule ext, goal_cases)
        case (1 k)
        then have "List.map_filter (line_value key) lines = []"
          using c(2) True lv by (auto simp: map_filter_simps split: if_splits)
        with c(2) lv show ?case by (auto simp: map_filter_simps)
      qed
      finally show ?thesis .
    qed
  qed
qed

lemma validateRuntimeIDs_iff:
  "validateRuntimeIDs n enc e = None \<longleftrightarrow>
   length (strings_Fields enc) = 4 \<and> (\<forall>v \<in> set (strings_Fields enc). strconv_ParseUint v 32 = Some e)"
  by (auto simp: validateRuntimeIDs_def Let_def list_ex_iff)

lemma check_status_values_iff:
  "check_status_values field uid gid = None \<longleftrightarrow>
   validateRuntimeIDs ''Uid'' (field ''Uid'') uid = None \<and> validateRuntimeIDs ''Gid'' (field ''Gid'') gid = None \<and>
   (\<forall>g \<in> set (strings_Fields (field ''Groups'')). strconv_ParseUint g 32 = Some gid) \<and>
   strconv_ParseUintBase (field ''Umask'') 8 32 = Some 63 \<and>
   (\<forall>k \<in> {''CapInh'', ''CapPrm'', ''CapEff'', ''CapBnd'', ''CapAmb''}. strconv_ParseUintBase (field k) 16 64 = Some 0) \<and>
   field ''NoNewPrivs'' = ''1'' \<and> field ''Seccomp'' = ''2''"
  unfolding check_status_values_def
  by (simp add: list_ex_iff split: option.split)

lemma check_status_cong:
  "(\<forall>key \<in> set status_required. f key = g key) \<Longrightarrow>
   check_status_values f uid gid = check_status_values g uid gid"
proof -
  assume "\<forall>key \<in> set status_required. f key = g key"
  then have eqs: "f ''Uid'' = g ''Uid'' \<and> f ''Gid'' = g ''Gid'' \<and> f ''Groups'' = g ''Groups'' \<and> f ''Umask'' = g ''Umask'' \<and>
      f ''CapInh'' = g ''CapInh'' \<and> f ''CapPrm'' = g ''CapPrm'' \<and> f ''CapEff'' = g ''CapEff'' \<and>
      f ''CapBnd'' = g ''CapBnd'' \<and> f ''CapAmb'' = g ''CapAmb'' \<and> f ''NoNewPrivs'' = g ''NoNewPrivs'' \<and>
      f ''Seccomp'' = g ''Seccomp''"
    by (simp add: status_required_def)
  show ?thesis by (simp only: check_status_values_def list_ex_iff list.set bex_simps eqs)
qed

lemma validate_status_iff:
  "validateServiceRuntimeStatus statusText uid gid = None \<longleftrightarrow>
   0 < uid \<and> 0 < gid \<and>
   (\<exists>fs. collect_status (splitOn (CHR 0x0A) statusText) Map.empty = Inr fs \<and>
     (\<forall>key \<in> set status_required. fs key \<noteq> None) \<and>
     check_status_values (\<lambda>key. the (fs key)) (nat uid) (nat gid) = None)"
  by (cases "collect_status (splitOn (CHR 0x0A) statusText) Map.empty")
     (simp_all add: validateServiceRuntimeStatus_def list_ex_iff not_le)

lemma collected_once:
  "(\<exists>fs. collect_status (splitOn (CHR 0x0A) statusText) Map.empty = Inr fs \<and>
     (\<forall>key \<in> set status_required. fs key \<noteq> None) \<and> check_status_values (\<lambda>key. the (fs key)) u g = None) \<longleftrightarrow>
   (\<exists>field. (\<forall>key \<in> set status_required. status_values key statusText = [field key]) \<and>
     check_status_values field u g = None)" (is "(\<exists>fs. ?C fs) \<longleftrightarrow> (\<exists>field. ?F field)")
proof
  let ?L = "splitOn (CHR 0x0A) statusText"
  assume "\<exists>fs. collect_status ?L Map.empty = Inr fs \<and>
     (\<forall>key \<in> set status_required. fs key \<noteq> None) \<and> check_status_values (\<lambda>key. the (fs key)) u g = None"
  then obtain fs where fs: "collect_status ?L Map.empty = Inr fs" "\<forall>key \<in> set status_required. fs key \<noteq> None"
      "check_status_values (\<lambda>key. the (fs key)) u g = None" by (elim exE conjE)
  have "status_values key statusText = [the (fs key)]" if "key \<in> set status_required" for key
  proof -
    have len: "length (List.map_filter (line_value key) ?L) \<le> 1"
      using fs(1) [unfolded collect_status_iff, THEN conjunct1, rule_format, OF that] by simp
    have "fs key = (if List.map_filter (line_value key) ?L \<noteq> []
        then Some (hd (List.map_filter (line_value key) ?L)) else None)"
      using fun_cong [OF fs(1) [unfolded collect_status_iff, THEN conjunct2], of key] that by simp
    with fs(2) that len show ?thesis
      unfolding status_values_def by (cases "List.map_filter (line_value key) ?L") auto
  qed
  then show "\<exists>field. ?F field" using fs(3) by (intro exI [of _ "\<lambda>key. the (fs key)"] conjI ballI)
next
  let ?L = "splitOn (CHR 0x0A) statusText"
  let ?fs = "\<lambda>k. if k \<in> set status_required \<and> List.map_filter (line_value k) ?L \<noteq> []
        then Some (hd (List.map_filter (line_value k) ?L)) else Map.empty k"
  assume "\<exists>field. ?F field"
  then obtain field where f: "\<forall>key \<in> set status_required. List.map_filter (line_value key) ?L = [field key]"
      "check_status_values field u g = None" unfolding status_values_def by (elim exE conjE)
  then have "check_status_values (\<lambda>key. the (?fs key)) u g = None"
    using check_status_cong [of field "\<lambda>key. the (?fs key)"] by simp
  moreover have "collect_status ?L Map.empty = Inr ?fs"
    unfolding collect_status_iff by (rule conjI [OF ballI refl]) (use f(1) in simp)
  moreover have "\<forall>key \<in> set status_required. ?fs key \<noteq> None" using f(1) by simp
  ultimately show "\<exists>fs. ?C fs" by (intro exI [of _ ?fs] conjI)
qed

text \<open>C33. The service starts only in a process without authority: the status check passes exactly when the
  effective user and group are not root, every required field occurs on exactly one line of the
  status file, all four user and group identities and every supplementary group equal the
  effective ones, the umask is 0077, all five capability sets are zero, no-new-privileges is on
  and seccomp is in filter mode. A duplicated or missing line is never accepted.\<close>

theorem runtime_status_exact:
  "validateServiceRuntimeStatus statusText uid gid = None \<longleftrightarrow>
   0 < uid \<and> 0 < gid \<and>
   (\<exists>field. (\<forall>key \<in> set status_required. status_values key statusText = [field key]) \<and>
     length (strings_Fields (field ''Uid'')) = 4 \<and>
     (\<forall>v \<in> set (strings_Fields (field ''Uid'')). strconv_ParseUint v 32 = Some (nat uid)) \<and>
     length (strings_Fields (field ''Gid'')) = 4 \<and>
     (\<forall>v \<in> set (strings_Fields (field ''Gid'') @ strings_Fields (field ''Groups'')).
        strconv_ParseUint v 32 = Some (nat gid)) \<and>
     strconv_ParseUintBase (field ''Umask'') 8 32 = Some 63 \<and>
     (\<forall>key \<in> {''CapInh'', ''CapPrm'', ''CapEff'', ''CapBnd'', ''CapAmb''}.
        strconv_ParseUintBase (field key) 16 64 = Some 0) \<and>
     field ''NoNewPrivs'' = ''1'' \<and> field ''Seccomp'' = ''2'')"
proof -
  have "validateServiceRuntimeStatus statusText uid gid = None \<longleftrightarrow> 0 < uid \<and> 0 < gid \<and>
      (\<exists>field. (\<forall>key \<in> set status_required. status_values key statusText = [field key]) \<and>
        check_status_values field (nat uid) (nat gid) = None)"
    unfolding validate_status_iff collected_once ..
  then show ?thesis
    by (simp only: check_status_values_iff validateRuntimeIDs_iff set_append ball_Un conj_assoc)
qed

definition demo_status :: string where
  "demo_status =
     joinWith (CHR 0x0A)
       [''Name:x'', ''Uid:1 1 1 1'', ''Gid:2 2 2 2'', ''Groups:2'', ''Umask:0077'', ''CapInh:0'', ''CapPrm:0'',
        ''CapEff:0'', ''CapBnd:0'', ''CapAmb:0'', ''NoNewPrivs:1'', ''Seccomp:2'']"

lemma demo_status_safe: "validateServiceRuntimeStatus demo_status 1 2 = None"
proof -
  have lines: "splitOn (CHR 0x0A) demo_status =
      [''Name:x'', ''Uid:1 1 1 1'', ''Gid:2 2 2 2'', ''Groups:2'', ''Umask:0077'', ''CapInh:0'', ''CapPrm:0'',
        ''CapEff:0'', ''CapBnd:0'', ''CapAmb:0'', ''NoNewPrivs:1'', ''Seccomp:2'']"
    unfolding demo_status_def by (rule splitOn_joinWith) simp_all
  have trim: "strings_TrimSpace ''1 1 1 1'' = ''1 1 1 1''" "strings_TrimSpace ''2 2 2 2'' = ''2 2 2 2''"
      "strings_TrimSpace ''0077'' = ''0077''" "strings_TrimSpace ''0'' = ''0''" "strings_TrimSpace ''1'' = ''1''"
      "strings_TrimSpace ''2'' = ''2''"
    by (rule trim_space_ascii; simp add: ascii_space_def)+
  show ?thesis
    by (simp add: validateServiceRuntimeStatus_def lines strings_Cut_def status_required_def trim
        check_status_values_def validateRuntimeIDs_def strings_Fields_def fields_from_ascii ascii_space_def
        strconv_ParseUint_def is_digit_def dec_val_def digit_val_def strconv_ParseUintBase_def base_digit_def)
qed

theorem runtime_status_exact_witness:
  "validateServiceRuntimeStatus demo_status 1 2 = None \<and> (\<exists>v. status_values ''Seccomp'' demo_status = [v])"
proof -
  have "''Seccomp'' \<in> set status_required" by (simp add: status_required_def)
  then show ?thesis using demo_status_safe runtime_status_exact [of demo_status 1 2] by blast
qed

end
