(* ===== verification/Worker_Limits.thy ===== *)
theory Worker_Limits
  imports Service_Runtime "HOL-Library.Multiset"
begin

unbundle bit_operations_syntax

text \<open>
  What a storage worker checks and fixes about itself before it reads a request
  (\<open>pkg/publicfiles/worker_child_linux.go\<close>): its environment, the fixed resource limits and the
  address-space limit computed from \<open>/proc/self/statm\<close>. The one-pass statm parser with its overflow
  guard is shown equivalent to splitting into fields and reading them as numbers.
\<close>

section \<open>Environment\<close>

definition worker_environment :: "(string \<times> string) list" where
  "worker_environment =
     [(''GOMEMLIMIT'', ''24MiB''), (''GOMAXPROCS'', ''1''), (''GOTRACEBACK'', ''none''), (''LANG'', ''C''),
      (''LC_ALL'', ''C'')]"

text \<open>The loop over the environment; reading a missing key of a Go map gives the empty string.\<close>

fun check_environment :: "string list \<Rightarrow> (string \<rightharpoonup> string) \<Rightarrow> (string \<rightharpoonup> string) option" where
  "check_environment [] expected = Some expected"
| "check_environment (item # items) expected =
     (case strings_Cut (CHR ''='') item of
        None \<Rightarrow> None
      | Some (name, v) \<Rightarrow>
          if (case expected name of None \<Rightarrow> [] | Some e \<Rightarrow> e) \<noteq> v then None
          else check_environment items (expected(name := None)))"

definition validateStorageWorkerEnvironment :: "string list \<Rightarrow> storage_error option" where
  "validateStorageWorkerEnvironment environment =
     (if length environment \<noteq> length worker_environment then Some errStorageProtocol
      else case check_environment environment (map_of worker_environment) of
        None \<Rightarrow> Some errStorageProtocol
      | Some expected \<Rightarrow>
          if list_ex (\<lambda>(name, _). expected name \<noteq> None) worker_environment
          then Some errStorageProtocol else None)"

definition defaultStorageWorkerEnvironment :: "string list" where
  "defaultStorageWorkerEnvironment =
     [''GOMEMLIMIT=24MiB'', ''GOMAXPROCS=1'', ''GOTRACEBACK=none'', ''LANG=C'', ''LC_ALL=C'']"

section \<open>Resource limits\<close>

datatype rlimit_resource = RLIMIT_CPU | RLIMIT_NOFILE | RLIMIT_CORE | RLIMIT_FSIZE | RLIMIT_MEMLOCK | RLIMIT_AS

record Rlimit =
  Cur :: u64
  Max :: u64

record 'k limits_os =
  lo_kernel :: "'k kernel"
  lo_setrlimit :: "rlimit_resource \<Rightarrow> Rlimit \<Rightarrow> 'k \<Rightarrow> errno option \<times> 'k"
  lo_getrlimit :: "rlimit_resource \<Rightarrow> 'k \<Rightarrow> (errno + Rlimit) \<times> 'k"
  lo_set_not_dumpable :: "'k \<Rightarrow> errno option \<times> 'k"
  lo_set_no_new_privs :: "'k \<Rightarrow> errno option \<times> 'k"
  lo_pagesize :: int

definition fixed_limits :: "(rlimit_resource \<times> u64) list" where
  "fixed_limits =
     [(RLIMIT_CPU, 300), (RLIMIT_NOFILE, 16), (RLIMIT_CORE, 0), (RLIMIT_FSIZE, 0), (RLIMIT_MEMLOCK, 0)]"

fun set_limits :: "'k limits_os \<Rightarrow> (rlimit_resource \<times> u64) list \<Rightarrow> 'k \<Rightarrow> storage_error option \<times> 'k" where
  "set_limits os [] s = (None, s)"
| "set_limits os ((resource, v) # limits) s =
     (case lo_setrlimit os resource \<lparr> Cur = v, Max = v \<rparr> s of
        (Some e, s1) \<Rightarrow> (Some (Errno e), s1)
      | (None, s1) \<Rightarrow> set_limits os limits s1)"

definition applyStorageWorkerFixedResourceLimits :: "'k limits_os \<Rightarrow> 'k \<Rightarrow> storage_error option \<times> 'k" where
  "applyStorageWorkerFixedResourceLimits os s =
     (case set_limits os fixed_limits s of
        (Some e, s1) \<Rightarrow> (Some e, s1)
      | (None, s1) \<Rightarrow>
          (case lo_set_not_dumpable os s1 of
             (Some e, s2) \<Rightarrow> (Some (Errno e), s2)
           | (None, s2) \<Rightarrow>
               (case lo_set_no_new_privs os s2 of (e, s3) \<Rightarrow> (map_option Errno e, s3))))"

definition storageWorkerStatmMaxBytes :: nat where "storageWorkerStatmMaxBytes = 256"
definition storageWorkerAddressSpaceHeadroom :: u64 where "storageWorkerAddressSpaceHeadroom = push_bit 20 256"
definition storageWorkerAddressSpaceMinimumReserve :: u64 where
  "storageWorkerAddressSpaceMinimumReserve = push_bit 20 128"
definition storageWorkerAddressSpaceCeiling :: u64 where "storageWorkerAddressSpaceCeiling = push_bit 30 2"

record statm_state =
  fieldCount :: nat
  inField :: bool
  lineFeeds :: nat
  pages :: u64
  fieldValue :: u64

text \<open>The end of a field: its value is kept when it is the first one.\<close>

definition end_field :: "statm_state \<Rightarrow> statm_state" where
  "end_field st =
     (if inField st
      then (if fieldCount st = 1 then st\<lparr>pages := fieldValue st\<rparr> else st)\<lparr>inField := False\<rparr>
      else st)"

definition statm_char :: "char \<Rightarrow> statm_state \<Rightarrow> statm_state option" where
  "statm_char c st =
     (if is_digit c then
        (let d = of_nat (digit_val c) :: u64;
             st1 = (if \<not> inField st
                    then st\<lparr>fieldCount := fieldCount st + 1, inField := True, fieldValue := 0\<rparr> else st)
         in if fieldValue st1 > (NOT 0 - d) div 10 then None
            else Some (st1\<lparr>fieldValue := fieldValue st1 * 10 + d\<rparr>))
      else if c = CHR '' '' \<or> c = CHR 0x09 then Some (end_field st)
      else if c = CHR 0x0A then Some (end_field (st\<lparr>lineFeeds := lineFeeds st + 1\<rparr>))
      else None)"

fun statm_loop :: "string \<Rightarrow> statm_state \<Rightarrow> statm_state option" where
  "statm_loop [] st = Some st"
| "statm_loop (c # cs) st = (case statm_char c st of None \<Rightarrow> None | Some st' \<Rightarrow> statm_loop cs st')"

definition statm_start :: statm_state where
  "statm_start = \<lparr> fieldCount = 0, inField = False, lineFeeds = 0, pages = 0, fieldValue = 0 \<rparr>"

definition parseStorageWorkerVirtualMemory :: "string \<Rightarrow> u64 \<Rightarrow> storage_error + u64" where
  "parseStorageWorkerVirtualMemory content pageSize =
     (if pageSize = 0 \<or> content = [] \<or> storageWorkerStatmMaxBytes < length content \<or> last content \<noteq> CHR 0x0A
      then Inl errStorageProtocol
      else case statm_loop content statm_start of
        None \<Rightarrow> Inl errStorageProtocol
      | Some st \<Rightarrow>
          if lineFeeds st \<noteq> 1 \<or> inField st \<or> fieldCount st \<noteq> 7 then Inl errStorageProtocol
          else if pages st = 0 \<or> pages st > NOT 0 div pageSize then Inl errStorageProtocol
          else Inr (pages st * pageSize))"

definition currentStorageWorkerVirtualMemory ::
    "'k limits_os \<Rightarrow> u64 \<Rightarrow> 'k \<Rightarrow> (storage_error + u64) \<times> 'k" where
  "currentStorageWorkerVirtualMemory os pageSize s =
     (case readServiceRuntimeFile (lo_kernel os) ''/proc/self/statm'' storageWorkerStatmMaxBytes s of
        (Inl e, s1) \<Rightarrow> (Inl (OtherError e), s1)
      | (Inr content, s1) \<Rightarrow> (parseStorageWorkerVirtualMemory content pageSize, s1))"

definition calculateStorageWorkerAddressSpaceLimit :: "u64 \<Rightarrow> u64 \<Rightarrow> storage_error + u64" where
  "calculateStorageWorkerAddressSpaceLimit current pageSize =
     (if current = 0 \<or> pageSize = 0 \<or> current mod pageSize \<noteq> 0
         \<or> storageWorkerAddressSpaceHeadroom mod pageSize \<noteq> 0
         \<or> storageWorkerAddressSpaceMinimumReserve mod pageSize \<noteq> 0
         \<or> storageWorkerAddressSpaceCeiling mod pageSize \<noteq> 0
         \<or> storageWorkerAddressSpaceMinimumReserve > storageWorkerAddressSpaceHeadroom
         \<or> current > storageWorkerAddressSpaceCeiling - storageWorkerAddressSpaceHeadroom
      then Inl errStorageProtocol
      else Inr (current + storageWorkerAddressSpaceHeadroom))"

definition validateStorageWorkerInheritedAddressSpaceLimit :: "Rlimit \<Rightarrow> u64 \<Rightarrow> storage_error option" where
  "validateStorageWorkerInheritedAddressSpaceLimit inherited target =
     (if target = 0 \<or> Cur inherited > Max inherited \<or> Cur inherited < target \<or> Max inherited < target
      then Some errStorageProtocol else None)"

definition validateStorageWorkerAppliedAddressSpaceLimit :: "Rlimit \<Rightarrow> u64 \<Rightarrow> u64 \<Rightarrow> storage_error option" where
  "validateStorageWorkerAppliedAddressSpaceLimit applied target current =
     (if target = 0 \<or> Cur applied \<noteq> target \<or> Max applied \<noteq> target \<or> current > target
         \<or> target - current < storageWorkerAddressSpaceMinimumReserve
      then Some errStorageProtocol else None)"

text \<open>From the computed target on.\<close>

definition set_address_space :: "'k limits_os \<Rightarrow> u64 \<Rightarrow> u64 \<Rightarrow> 'k \<Rightarrow> storage_error option \<times> 'k" where
  "set_address_space os pageSizeBytes target s =
     (case lo_getrlimit os RLIMIT_AS s of
        (Inl e, s1) \<Rightarrow> (Some (Errno e), s1)
      | (Inr inherited, s1) \<Rightarrow>
          (case validateStorageWorkerInheritedAddressSpaceLimit inherited target of
             Some e \<Rightarrow> (Some e, s1)
           | None \<Rightarrow>
               (case lo_setrlimit os RLIMIT_AS \<lparr> Cur = target, Max = target \<rparr> s1 of
                  (Some e, s2) \<Rightarrow> (Some (Errno e), s2)
                | (None, s2) \<Rightarrow>
                    (case lo_getrlimit os RLIMIT_AS s2 of
                       (Inl e, s3) \<Rightarrow> (Some (Errno e), s3)
                     | (Inr applied, s3) \<Rightarrow>
                         (case currentStorageWorkerVirtualMemory os pageSizeBytes s3 of
                            (Inl e, s4) \<Rightarrow> (Some e, s4)
                          | (Inr after, s4) \<Rightarrow>
                              (validateStorageWorkerAppliedAddressSpaceLimit applied target after, s4))))))"

definition applyStorageWorkerAddressSpaceLimit :: "'k limits_os \<Rightarrow> 'k \<Rightarrow> storage_error option \<times> 'k" where
  "applyStorageWorkerAddressSpaceLimit os s =
     (if lo_pagesize os \<le> 0 then (Some errStorageProtocol, s)
      else let pageSizeBytes = of_int (lo_pagesize os) :: u64 in
        case currentStorageWorkerVirtualMemory os pageSizeBytes s of
          (Inl e, s1) \<Rightarrow> (Some e, s1)
        | (Inr before, s1) \<Rightarrow>
            (case calculateStorageWorkerAddressSpaceLimit before pageSizeBytes of
               Inl e \<Rightarrow> (Some e, s1)
             | Inr target \<Rightarrow> set_address_space os pageSizeBytes target s1))"

section \<open>The environment check\<close>

definition env_item :: "(string \<rightharpoonup> string) \<Rightarrow> string \<Rightarrow> string" where
  "env_item ex n = n @ CHR ''='' # the (ex n)"

lemma dom_delete: "dom (ex(n := None)) = dom ex - {n}"
  by auto

lemma check_environment_card:
  "check_environment items ex = Some ex' \<Longrightarrow> finite (dom ex) \<Longrightarrow> card (dom ex) \<le> card (dom ex') + length items"
proof (induction items arbitrary: ex)
  case (Cons item items)
  then obtain n v where n: "check_environment items (ex(n := None)) = Some ex'"
    by (auto split: option.splits if_splits)
  have "card (dom ex - {n}) \<le> card (dom ex') + length items"
    using Cons.IH [OF n] Cons.prems(2) by (simp only: dom_delete) simp
  moreover have "card (dom ex) \<le> card (dom ex - {n}) + 1"
    using Cons.prems(2) by (cases "n \<in> dom ex") (simp_all add: card_Diff_singleton)
  ultimately show ?case by simp
qed simp

lemma check_environment_iff:
  assumes "finite (dom ex)" "card (dom ex) = length items" "\<forall>n \<in> dom ex. CHR ''='' \<notin> set n"
  shows "(\<exists>ex'. check_environment items ex = Some ex' \<and> dom ex' = {}) \<longleftrightarrow>
    mset items = image_mset (env_item ex) (mset_set (dom ex))"
  using assms
proof (induction items arbitrary: ex)
  case Nil
  then show ?case by simp
next
  case (Cons item items)
  have step: "(\<exists>ex'. check_environment items (ex(n := None)) = Some ex' \<and> dom ex' = {}) \<longleftrightarrow>
      mset (item # items) = image_mset (env_item ex) (mset_set (dom ex))"
    if n: "ex n = Some v" "item = n @ CHR ''='' # v" for n v
  proof -
    have dn: "n \<in> dom ex" using n by auto
    have IH: "(\<exists>ex'. check_environment items (ex(n := None)) = Some ex' \<and> dom ex' = {}) \<longleftrightarrow>
        mset items = image_mset (env_item (ex(n := None))) (mset_set (dom (ex(n := None))))"
    proof (rule Cons.IH, unfold dom_delete)
      show "finite (dom ex - {n})" using Cons.prems(1) by simp
      show "card (dom ex - {n}) = length items" using Cons.prems(1,2) dn by (simp add: card_Diff_singleton)
      show "\<forall>m \<in> dom ex - {n}. CHR ''='' \<notin> set m" using Cons.prems(3) by blast
    qed
    have "image_mset (env_item (ex(n := None))) (mset_set (dom ex - {n})) = image_mset (env_item ex) (mset_set (dom ex - {n}))"
      by (rule image_mset_cong) (use Cons.prems(1) in \<open>simp add: env_item_def\<close>)
    moreover have "mset_set (dom ex) = add_mset n (mset_set (dom ex - {n}))"
      using dn Cons.prems(1) by (simp add: mset_set.remove)
    ultimately show ?thesis
      unfolding IH dom_delete using n by (simp add: env_item_def)
  qed
  show ?case
  proof
    assume "\<exists>ex'. check_environment (item # items) ex = Some ex' \<and> dom ex' = {}"
    then obtain n v ex' where c: "strings_Cut (CHR ''='') item = Some (n, v)"
        "(case ex n of None \<Rightarrow> [] | Some e \<Rightarrow> e) = v" "check_environment items (ex(n := None)) = Some ex'" "dom ex' = {}"
      by (auto split: option.splits if_splits)
    have "n \<in> dom ex"
    proof (rule ccontr)
      assume "n \<notin> dom ex"
      then have "card (dom (ex(n := None))) = Suc (length items)"
        unfolding dom_delete using Cons.prems(2) by simp
      then show False
        using check_environment_card [OF c(3)] c(4) Cons.prems(1) unfolding dom_delete by simp
    qed
    then have "ex n = Some v" using c(2) by auto
    then show "mset (item # items) = image_mset (env_item ex) (mset_set (dom ex))"
      using step [of n v] c strings_Cut_Some [of "CHR ''=''" item n v] by blast
  next
    assume m: "mset (item # items) = image_mset (env_item ex) (mset_set (dom ex))"
    then have "item \<in># image_mset (env_item ex) (mset_set (dom ex))" by (metis mset.simps(2) union_single_eq_member)
    then obtain n where n: "n \<in> dom ex" "item = env_item ex n" using Cons.prems(1) by auto
    then have v: "ex n = Some (the (ex n))" "item = n @ CHR ''='' # the (ex n)" by (auto simp: env_item_def)
    moreover have "strings_Cut (CHR ''='') item = Some (n, the (ex n))"
      using v(2) n(1) Cons.prems(3) by (simp add: strings_Cut_Some)
    ultimately show "\<exists>ex'. check_environment (item # items) ex = Some ex' \<and> dom ex' = {}"
      using step [OF v] m by (auto split: option.splits)
  qed
qed

text \<open>C34. A worker runs in exactly the environment its parent gives it: the check passes for the five
  expected assignments in any order and for nothing else, although the loop reads a missing name
  as an empty value.\<close>

theorem worker_environment_exact:
  "validateStorageWorkerEnvironment environment = None \<longleftrightarrow>
   mset environment = mset defaultStorageWorkerEnvironment"
proof -
  let ?E = "map_of worker_environment"
  have dom: "dom ?E = {''GOMEMLIMIT'', ''GOMAXPROCS'', ''GOTRACEBACK'', ''LANG'', ''LC_ALL''}"
    by (simp add: dom_map_of_conv_image_fst worker_environment_def)
  have items: "image_mset (env_item ?E) (mset_set (dom ?E)) = mset defaultStorageWorkerEnvironment"
    unfolding dom by (simp add: env_item_def worker_environment_def defaultStorageWorkerEnvironment_def)
  have "validateStorageWorkerEnvironment environment = None \<longleftrightarrow>
      length environment = 5 \<and> (\<exists>ex'. check_environment environment ?E = Some ex' \<and> (\<forall>n \<in> dom ?E. ex' n = None))"
    unfolding dom
    by (simp add: validateStorageWorkerEnvironment_def worker_environment_def split: option.splits)
  moreover have "dom ex' \<subseteq> dom ex" if "check_environment items ex = Some ex'" for items ex ex'
    using that
  proof (induction items arbitrary: ex)
    case (Cons item items)
    then show ?case by (fastforce split: option.splits if_splits)
  qed simp
  ultimately have "validateStorageWorkerEnvironment environment = None \<longleftrightarrow>
      length environment = 5 \<and> (\<exists>ex'. check_environment environment ?E = Some ex' \<and> dom ex' = {})"
    by (metis (no_types, lifting) all_not_in_conv domIff subset_iff)
  moreover have "card (dom ?E) = 5" unfolding dom by simp
  moreover have "\<forall>n \<in> dom ?E. CHR ''='' \<notin> set n" unfolding dom by simp
  moreover have "mset environment = mset defaultStorageWorkerEnvironment \<Longrightarrow> length environment = 5"
    by (drule arg_cong [where f = size]) (simp add: defaultStorageWorkerEnvironment_def)
  ultimately show ?thesis
    using check_environment_iff [of ?E environment] items by (metis finite_dom_map_of)
qed

section \<open>The statm parser reads the fields\<close>

lemma dec_val_Nil [simp]: "dec_val [] = 0"
  by (simp add: dec_val_def)

lemma dec_val_snoc: "dec_val (s @ [c]) = 10 * dec_val s + digit_val c"
  by (simp add: dec_val_def)

lemma dec_val_prefix_le: "dec_val s \<le> dec_val (s @ t)"
proof (induction t rule: rev_induct)
  case (snoc c t)
  have "dec_val (s @ t @ [c]) = 10 * dec_val (s @ t) + digit_val c" using dec_val_snoc [of "s @ t" c] by simp
  with snoc show ?case by simp
qed simp

lemma digit_val_lt: "is_digit c \<Longrightarrow> digit_val c < 10"
  by (auto simp: is_digit_def digit_val_def)

lemma unat_all_ones: "unat (NOT 0 :: u64) = 2 ^ 64 - 1"
  by (simp add: unsigned_minus_1_eq_mask mask_eq_exp_minus_1)

lemma digit_guard:
  fixes v :: u64
  assumes "d < 10"
  shows "(NOT 0 - of_nat d) div 10 < v \<longleftrightarrow> 2 ^ 64 \<le> 10 * unat v + d"
    and "10 * unat v + d < 2 ^ 64 \<Longrightarrow> unat (v * 10 + of_nat d) = 10 * unat v + d"
proof -
  have d: "unat (of_nat d :: u64) = d" using assms by (simp add: unat_of_nat)
  have "unat (NOT 0 - of_nat d :: u64) = 2 ^ 64 - 1 - d"
  proof -
    have "(of_nat d :: u64) \<le> NOT 0" 
      unfolding word_le_nat_alt d unat_all_ones using assms by simp
    then show ?thesis by (simp only: unat_sub d unat_all_ones)
  qed
  then have "unat ((NOT 0 - of_nat d :: u64) div 10) = (2 ^ 64 - 1 - d) div 10"
    by (simp add: unat_div)
  then have "(NOT 0 - of_nat d) div 10 < v \<longleftrightarrow> (2 ^ 64 - 1 - d) div 10 < unat v"
    by (simp add: word_less_nat_alt)
  also have "\<dots> \<longleftrightarrow> 2 ^ 64 \<le> 10 * unat v + d"
    using assms by (subst div_less_iff_less_mult) auto
  finally show "(NOT 0 - of_nat d) div 10 < v \<longleftrightarrow> 2 ^ 64 \<le> 10 * unat v + d" .
  show "unat (v * 10 + of_nat d) = 10 * unat v + d" if "10 * unat v + d < 2 ^ 64"
    using that d by (simp add: unat_word_ariths mult.commute)
qed

lemma word_product_guard:
  fixes p q :: u64
  assumes "q \<noteq> 0"
  shows "NOT 0 div q < p \<longleftrightarrow> 2 ^ 64 \<le> unat p * unat q"
    and "unat p * unat q < 2 ^ 64 \<Longrightarrow> unat (p * q) = unat p * unat q"
proof -
  have q: "0 < unat q" using assms by (simp add: unat_gt_0)
  have "unat (NOT 0 div q) = (2 ^ 64 - 1) div unat q"
    by (simp only: unat_div unat_all_ones)
  then have "NOT 0 div q < p \<longleftrightarrow> (2 ^ 64 - 1) div unat q < unat p" by (simp add: word_less_nat_alt)
  also have "\<dots> \<longleftrightarrow> 2 ^ 64 - 1 < unat p * unat q" using q by (simp add: div_less_iff_less_mult)
  finally show "NOT 0 div q < p \<longleftrightarrow> 2 ^ 64 \<le> unat p * unat q" by auto
  show "unat (p * q) = unat p * unat q" if "unat p * unat q < 2 ^ 64"
    using that by (simp add: unat_word_ariths)
qed

lemma fields_from_steps:
  "fields_from cur [] = (if cur = [] then [] else [cur])"
  "is_digit c \<Longrightarrow> fields_from cur (c # s) = fields_from (cur @ [c]) s"
  "c = CHR '' '' \<or> c = CHR 0x09 \<or> c = CHR 0x0A \<Longrightarrow>
     fields_from cur (c # s) = (if cur = [] then [] else [cur]) @ fields_from [] s"
  by (auto simp: fields_from_ascii ascii_space_def is_digit_def)

lemma fields_from_cur: "cur \<noteq> [] \<Longrightarrow> \<exists>t rest. fields_from cur s = (cur @ t) # rest"
proof (induction s arbitrary: cur)
  case Nil
  then show ?case by (simp add: fields_from_steps(1))
next
  case (Cons c s)
  show ?case
  proof (cases "space_len (c # s) = 0")
    case True
    then have "fields_from cur (c # s) = fields_from (cur @ [c]) s" by (subst fields_from.simps) simp
    then show ?thesis using Cons.IH [of "cur @ [c]"] by auto
  next
    case False
    then show ?thesis using Cons.prems by (subst fields_from.simps) simp
  qed
qed

definition statm_rel :: "string list \<Rightarrow> string \<Rightarrow> nat \<Rightarrow> statm_state \<Rightarrow> bool" where
  "statm_rel old cur lfs st \<longleftrightarrow>
     inField st = (cur \<noteq> []) \<and> fieldCount st = length old + (if cur = [] then 0 else 1) \<and> lineFeeds st = lfs \<and>
     (cur \<noteq> [] \<longrightarrow> unat (fieldValue st) = dec_val cur) \<and>
     unat (pages st) = (if old = [] then 0 else dec_val (hd old))"

lemma end_field_rel:
  "statm_rel old cur n st \<Longrightarrow> statm_rel (old @ (if cur = [] then [] else [cur])) [] n (end_field st)"
  by (cases "cur = []") (auto simp: statm_rel_def end_field_def)

lemma digit_rel:
  assumes "is_digit c" "statm_rel old cur n st"
  shows "if dec_val (cur @ [c]) < 2 ^ 64
         then \<exists>st'. statm_char c st = Some st' \<and> statm_rel old (cur @ [c]) n st'
         else statm_char c st = None"
proof -
  define st1 where "st1 = (if \<not> inField st then st\<lparr>fieldCount := fieldCount st + 1, inField := True, fieldValue := 0\<rparr> else st)"
  have v: "unat (fieldValue st1) = dec_val cur"
    using assms(2) by (auto simp: st1_def statm_rel_def dec_val_def)
  have d: "digit_val c < 10" using assms(1) by (rule digit_val_lt)
  have "statm_char c st = (if 2 ^ 64 \<le> dec_val (cur @ [c]) then None
      else Some (st1\<lparr>fieldValue := fieldValue st1 * 10 + of_nat (digit_val c)\<rparr>))"
    using assms(1) digit_guard(1) [OF d, of "fieldValue st1"] v
    by (simp add: statm_char_def Let_def dec_val_snoc flip: st1_def)
  moreover have "statm_rel old (cur @ [c]) n (st1\<lparr>fieldValue := fieldValue st1 * 10 + of_nat (digit_val c)\<rparr>)"
    if "dec_val (cur @ [c]) < 2 ^ 64"
    using that assms(2) digit_guard(2) [OF d, of "fieldValue st1"] v
    by (auto simp: statm_rel_def st1_def dec_val_snoc)
  ultimately show ?thesis by auto
qed

definition statm_text :: "char \<Rightarrow> bool" where
  "statm_text c \<longleftrightarrow> is_digit c \<or> c = CHR '' '' \<or> c = CHR 0x09 \<or> c = CHR 0x0A"

lemma blank_not_digit: "\<not> is_digit (CHR '' '')" "\<not> is_digit (CHR 0x09)" "\<not> is_digit (CHR 0x0A)"
  by (simp_all add: is_digit_def)

lemma statm_loop_iff:
  assumes "statm_rel old cur n st" "dec_val cur < 2 ^ 64" "cs \<noteq> [] \<longrightarrow> last cs = CHR 0x0A" "cs = [] \<longrightarrow> cur = []"
  shows "if (\<forall>c \<in> set cs. statm_text c) \<and> (\<forall>f \<in> set (fields_from cur cs). dec_val f < 2 ^ 64)
    then \<exists>st'. statm_loop cs st = Some st' \<and>
      statm_rel (old @ fields_from cur cs) [] (n + count_list cs (CHR 0x0A)) st'
    else statm_loop cs st = None"
  using assms
proof (induction cs arbitrary: old cur n st)
  case Nil
  then show ?case by (simp add: fields_from_steps(1))
next
  case (Cons c cs)
  have tl: "cs \<noteq> [] \<longrightarrow> last cs = CHR 0x0A" using Cons.prems(3) by (auto split: if_splits)
  consider (digit) "is_digit c" | (blank) "c = CHR '' '' \<or> c = CHR 0x09" | (lf) "c = CHR 0x0A" | (bad) "\<not> statm_text c"
    by (auto simp: statm_text_def)
  then show ?case
  proof cases
    case digit
    then have cs: "cs \<noteq> []" using Cons.prems(3) blank_not_digit(3) by auto
    note F = fields_from_steps(2) [OF digit, of cur cs]
    show ?thesis
    proof (cases "dec_val (cur @ [c]) < 2 ^ 64")
      case True
      then obtain st' where st': "statm_char c st = Some st'" "statm_rel old (cur @ [c]) n st'"
        using digit_rel [OF digit Cons.prems(1)] by auto
      show ?thesis
        using Cons.IH [OF st'(2) True tl] cs st'(1) digit F blank_not_digit by (auto simp: statm_text_def)
    next
      case False
      moreover obtain t rest where "fields_from cur (c # cs) = (cur @ [c] @ t) # rest"
        using fields_from_cur [of "cur @ [c]" cs] F by auto
      moreover have "dec_val (cur @ [c]) \<le> dec_val (cur @ [c] @ t)" using dec_val_prefix_le [of "cur @ [c]" t] by simp
      ultimately show ?thesis
        using digit_rel [OF digit Cons.prems(1)] by (auto simp: not_less)
    qed
  next
    case blank
    then have cs: "cs \<noteq> []" using Cons.prems(3) by auto
    have "fields_from cur (c # cs) = (if cur = [] then [] else [cur]) @ fields_from [] cs"
      using blank by (intro fields_from_steps(3)) blast
    moreover have "statm_char c st = Some (end_field st)"
      using blank blank_not_digit by (auto simp: statm_char_def)
    ultimately show ?thesis
      using Cons.IH [OF end_field_rel [OF Cons.prems(1)] _ tl] cs blank Cons.prems(2)
      by (auto simp: statm_text_def)
  next
    case lf
    have F: "fields_from cur (c # cs) = (if cur = [] then [] else [cur]) @ fields_from [] cs"
      using lf by (intro fields_from_steps(3)) blast
    define st1 where "st1 = st\<lparr>lineFeeds := lineFeeds st + 1\<rparr>"
    have R: "statm_rel old cur (n + 1) st1"
      using Cons.prems(1) by (simp add: statm_rel_def st1_def)
    have "statm_char c st = Some (end_field st1)"
      using lf blank_not_digit by (auto simp: statm_char_def st1_def)
    then show ?thesis
      using Cons.IH [OF end_field_rel [OF R] _ tl] lf F Cons.prems(2) by (auto simp: statm_text_def)
  next
    case bad
    then have "statm_char c st = None" by (auto simp: statm_char_def statm_text_def)
    with bad show ?thesis by auto
  qed
qed

lemma count_one_last:
  "cs \<noteq> [] \<Longrightarrow> last cs = x \<Longrightarrow> count_list cs x = 1 \<longleftrightarrow> x \<notin> set (butlast cs)"
  by (cases cs rule: rev_cases) (auto simp: count_list_0_iff)

text \<open>C35. The one-pass reader of \<open>/proc/self/statm\<close> is equivalent to splitting the line into fields: it
  succeeds exactly on one line of digits and blanks, at most 256 bytes, with seven fields that
  all fit 64 bits, a first field that is not zero and a product with the page size that fits 64
  bits, and then returns that product. The overflow guards refuse nothing else.\<close>

theorem statm_parser_equiv:
  "parseStorageWorkerVirtualMemory content pageSize = Inr v \<longleftrightarrow>
   pageSize \<noteq> 0 \<and> content \<noteq> [] \<and> length content \<le> 256 \<and> last content = CHR 0x0A \<and>
   (\<forall>c \<in> set (butlast content). is_digit c \<or> c = CHR '' '' \<or> c = CHR 0x09) \<and>
   length (strings_Fields content) = 7 \<and> (\<forall>f \<in> set (strings_Fields content). dec_val f < 2 ^ 64) \<and>
   dec_val (hd (strings_Fields content)) \<noteq> 0 \<and>
   dec_val (hd (strings_Fields content)) * unat pageSize < 2 ^ 64 \<and>
   unat v = dec_val (hd (strings_Fields content)) * unat pageSize"
proof (cases "pageSize \<noteq> 0 \<and> content \<noteq> [] \<and> length content \<le> 256 \<and> last content = CHR 0x0A")
  case False
  then show ?thesis by (auto simp: parseStorageWorkerVirtualMemory_def storageWorkerStatmMaxBytes_def)
next
  case True
  let ?F = "strings_Fields content"
  have start: "statm_rel [] [] 0 statm_start" by (simp add: statm_rel_def statm_start_def)
  note L = statm_loop_iff [OF start, of content]
  have chars: "(\<forall>c \<in> set content. statm_text c) \<and> count_list content (CHR 0x0A) = 1 \<longleftrightarrow>
      (\<forall>c \<in> set (butlast content). is_digit c \<or> c = CHR '' '' \<or> c = CHR 0x09)"
  proof -
    have "set content = insert (CHR 0x0A) (set (butlast content))"
      using True by (metis append_butlast_last_id list.simps(15) rotate1.simps(2) set_rotate1)
    then show ?thesis
      using True count_one_last [of content "CHR 0x0A"] blank_not_digit(3) by (auto simp: statm_text_def)
  qed
  show ?thesis
  proof (cases "(\<forall>c \<in> set content. statm_text c) \<and> (\<forall>f \<in> set ?F. dec_val f < 2 ^ 64)")
    case False
    with L True have "statm_loop content statm_start = None" by (auto simp: strings_Fields_def)
    then have "parseStorageWorkerVirtualMemory content pageSize = Inl errStorageProtocol"
      by (simp add: parseStorageWorkerVirtualMemory_def)
    with False chars show ?thesis by auto
  next
    case ok: True
    then obtain st where st: "statm_loop content statm_start = Some st"
        "statm_rel ?F [] (count_list content (CHR 0x0A)) st"
      using L True by (auto simp: strings_Fields_def)
    have mul: "pages st > NOT 0 div pageSize \<longleftrightarrow> 2 ^ 64 \<le> unat (pages st) * unat pageSize"
      and prod: "unat (pages st) * unat pageSize < 2 ^ 64 \<Longrightarrow> unat (pages st * pageSize) = unat (pages st) * unat pageSize"
      using word_product_guard [of pageSize "pages st"] True by simp_all
    have zero: "pages st = 0 \<longleftrightarrow> unat (pages st) = 0" by (simp add: unat_eq_0)
    have "parseStorageWorkerVirtualMemory content pageSize = Inr v \<longleftrightarrow>
        count_list content (CHR 0x0A) = 1 \<and> length ?F = 7 \<and> unat (pages st) \<noteq> 0 \<and>
        unat (pages st) * unat pageSize < 2 ^ 64 \<and> v = pages st * pageSize"
      using st True mul zero
      by (auto simp: parseStorageWorkerVirtualMemory_def storageWorkerStatmMaxBytes_def statm_rel_def)
    moreover have "unat (pages st) = dec_val (hd ?F)" if "length ?F = 7"
      using st(2) that by (auto simp: statm_rel_def)
    ultimately show ?thesis
      using True ok chars prod by (auto simp: word_unat_eq_iff)
  qed
qed

section \<open>The address-space limit\<close>

lemma calculate_bounds:
  assumes "calculateStorageWorkerAddressSpaceLimit current p = Inr target"
  shows "unat target = unat current + 256 * 2 ^ 20 \<and> unat target \<le> 2 * 2 ^ 30"
proof -
  have le: "unat current \<le> 2 * 2 ^ 30 - 256 * 2 ^ 20" and t: "target = current + push_bit 20 256"
    using assms
    by (auto simp: calculateStorageWorkerAddressSpaceLimit_def storageWorkerAddressSpaceCeiling_def
        storageWorkerAddressSpaceHeadroom_def push_bit_eq_mult word_le_nat_alt word_less_nat_alt split: if_splits)
  then show ?thesis by (simp add: unat_word_ariths push_bit_eq_mult)
qed

text \<open>C36. A worker that starts runs under a finite address-space limit with room to work. The memory is
  measured; the inherited limit, read next, allows the target; soft and hard limit are both set to the
  measured memory plus 256 MiB, computed without wrapping and at most 2 GiB; the limit read back is that
  target; and the memory measured once more, in the state after that, leaves at least 128 MiB of it free.
  Each call starts in the state the one before left.\<close>

theorem address_space_limit_bounds:
  assumes "applyStorageWorkerAddressSpaceLimit os s = (None, s')"
  shows "\<exists>before s1 inherited s2 target s3 s4 after.
    currentStorageWorkerVirtualMemory os (of_int (lo_pagesize os)) s = (Inr before, s1) \<and>
    lo_getrlimit os RLIMIT_AS s1 = (Inr inherited, s2) \<and>
    target \<le> Cur inherited \<and> Cur inherited \<le> Max inherited \<and>
    lo_setrlimit os RLIMIT_AS \<lparr> Cur = target, Max = target \<rparr> s2 = (None, s3) \<and>
    lo_getrlimit os RLIMIT_AS s3 = (Inr \<lparr> Cur = target, Max = target \<rparr>, s4) \<and>
    currentStorageWorkerVirtualMemory os (of_int (lo_pagesize os)) s4 = (Inr after, s') \<and>
    unat target = unat before + 256 * 2 ^ 20 \<and> unat target \<le> 2 * 2 ^ 30 \<and>
    unat after + 128 * 2 ^ 20 \<le> unat target"
proof -
  let ?p = "of_int (lo_pagesize os) :: u64"
  obtain before s1 target where b: "currentStorageWorkerVirtualMemory os ?p s = (Inr before, s1)"
      "calculateStorageWorkerAddressSpaceLimit before ?p = Inr target" "set_address_space os ?p target s1 = (None, s')"
    using assms
    by (auto simp: applyStorageWorkerAddressSpaceLimit_def Let_def split: if_splits prod.splits sum.splits)
  obtain inherited s2 s3 applied s4 after where c: "lo_getrlimit os RLIMIT_AS s1 = (Inr inherited, s2)"
      "validateStorageWorkerInheritedAddressSpaceLimit inherited target = None"
      "lo_setrlimit os RLIMIT_AS \<lparr> Cur = target, Max = target \<rparr> s2 = (None, s3)"
      "lo_getrlimit os RLIMIT_AS s3 = (Inr applied, s4)" "currentStorageWorkerVirtualMemory os ?p s4 = (Inr after, s')"
      "validateStorageWorkerAppliedAddressSpaceLimit applied target after = None"
    using b(3) by (auto simp: set_address_space_def split: prod.splits sum.splits option.splits)
  have t: "unat target = unat before + 256 * 2 ^ 20 \<and> unat target \<le> 2 * 2 ^ 30"
    using b(2) by (rule calculate_bounds)
  have i: "target \<le> Cur inherited \<and> Cur inherited \<le> Max inherited"
    using c(2) by (auto simp: validateStorageWorkerInheritedAddressSpaceLimit_def split: if_splits)
  have a: "applied = \<lparr> Cur = target, Max = target \<rparr>" "after \<le> target" "\<not> target - after < push_bit 20 128"
    using c(6) by (auto simp: validateStorageWorkerAppliedAddressSpaceLimit_def
        storageWorkerAddressSpaceMinimumReserve_def split: if_splits)
  then have "unat after + 128 * 2 ^ 20 \<le> unat target"
    by (simp add: word_less_nat_alt word_le_nat_alt unat_sub push_bit_eq_mult)
  then show ?thesis using b(1) c(1,3-5) t i unfolding a(1) by blast
qed

definition demo_limits :: "Rlimit limits_os" where
  "demo_limits =
     \<lparr> lo_kernel =
         \<lparr> sys_openat2 = (\<lambda>d p f r s. (Inl ENOSYS, s)), sys_open = (\<lambda>p f s. (Inr 3, s)),
           sys_fstat = (\<lambda>fd s. (Inl EBADF, s)), sys_fstatfs = (\<lambda>fd s. (Inl EBADF, s)),
           sys_statx = (\<lambda>fd s. (Inl EBADF, s)), sys_readdirnames = (\<lambda>fd n s. (([], None), s)),
           sys_fgetxattr = (\<lambda>fd a n s. (Inl ENODATA, s)),
           sys_read_limited = (\<lambda>fd n s. (Inr (bytes_of_string (''1000 9 8 7 0 6 0'' @ [CHR 0x0A])), s)),
           sys_close = (\<lambda>fd s. s) \<rparr>,
       lo_setrlimit = (\<lambda>r l s. (None, l)), lo_getrlimit = (\<lambda>r s. (Inr s, s)),
       lo_set_not_dumpable = (\<lambda>s. (None, s)), lo_set_no_new_privs = (\<lambda>s. (None, s)), lo_pagesize = 4096 \<rparr>"

lemma demo_statm: "parseStorageWorkerVirtualMemory (''1000 9 8 7 0 6 0'' @ [CHR 0x0A]) 4096 = Inr 4096000"
  by (simp add: parseStorageWorkerVirtualMemory_def storageWorkerStatmMaxBytes_def statm_start_def statm_char_def
      end_field_def is_digit_def digit_val_def Let_def)

theorem statm_parser_equiv_witness:
  "parseStorageWorkerVirtualMemory (''1000 9 8 7 0 6 0'' @ [CHR 0x0A]) 4096 = Inr 4096000 \<and>
   length (strings_Fields (''1000 9 8 7 0 6 0'' @ [CHR 0x0A])) = 7"
  using demo_statm statm_parser_equiv [of "''1000 9 8 7 0 6 0'' @ [CHR 0x0A]" 4096 4096000] by blast

theorem address_space_limit_bounds_witness:
  "applyStorageWorkerAddressSpaceLimit demo_limits \<lparr> Cur = NOT 0, Max = NOT 0 \<rparr>
     = (None, \<lparr> Cur = 272531456, Max = 272531456 \<rparr>) \<and>
   (\<exists>before after s1 s4. currentStorageWorkerVirtualMemory demo_limits 4096 \<lparr> Cur = NOT 0, Max = NOT 0 \<rparr> = (Inr before, s1) \<and>
      currentStorageWorkerVirtualMemory demo_limits 4096 s4 = (Inr after, \<lparr> Cur = 272531456, Max = 272531456 \<rparr>) \<and>
      unat after + 128 * 2 ^ 20 \<le> unat before + 256 * 2 ^ 20)"
proof -
  have a: "applyStorageWorkerAddressSpaceLimit demo_limits \<lparr> Cur = NOT 0, Max = NOT 0 \<rparr>
      = (None, \<lparr> Cur = 272531456, Max = 272531456 \<rparr>)"
    using demo_statm
    by (simp add: applyStorageWorkerAddressSpaceLimit_def set_address_space_def currentStorageWorkerVirtualMemory_def
        readServiceRuntimeFile_def demo_limits_def storageWorkerStatmMaxBytes_def
        calculateStorageWorkerAddressSpaceLimit_def storageWorkerAddressSpaceHeadroom_def
        storageWorkerAddressSpaceMinimumReserve_def storageWorkerAddressSpaceCeiling_def
        validateStorageWorkerInheritedAddressSpaceLimit_def validateStorageWorkerAppliedAddressSpaceLimit_def)
  have "of_int (lo_pagesize demo_limits) = (4096 :: u64)" by (simp add: demo_limits_def)
  from address_space_limit_bounds [OF a, unfolded this] a show ?thesis by metis
qed

end
