(* ===== verification/Worker_Child.thy ===== *)
theory Worker_Child
  imports Worker_Ipc Verifier Worker_Limits
begin

unbundle bit_operations_syntax

text \<open>
  The three storage workers (\<open>pkg/publicfiles/worker_child_linux.go\<close>): bootstrap, directory listing and
  file reading, as functions over the worker socket and the kernel. The file worker answers requests
  in a loop that only the peer ends; one iteration is a function and the loop a partial function.
  The hook \<open>holdStorageFileWorkerForSystemdTest\<close> does nothing in the production build and is left out,
  and closing a descriptor is taken to succeed.
\<close>

section \<open>Frames and errors\<close>

definition validStorageWorkerRequestFrame :: "storageWorkerFrame \<Rightarrow> u16 \<Rightarrow> bool" where
  "validStorageWorkerRequestFrame frame expected \<longleftrightarrow>
     opcode frame = expected \<and> requestID frame \<noteq> 0 \<and> status frame = storageWorkerStatusOK \<and> flags frame = 0"

definition storageWorkerStatusForError :: "storage_error \<Rightarrow> u16" where
  "storageWorkerStatusForError e =
     (if e = errEntryLimit then storageWorkerStatusEntryLimit
      else if isHiddenFilesystemError e then storageWorkerStatusHidden
      else if e = ErrUnsupported \<or> e = errPublicRootFilesystemNotAllowed then storageWorkerStatusUnsupported
      else storageWorkerStatusInternal)"

definition storageWorkerError :: "u16 \<Rightarrow> storage_error" where
  "storageWorkerError s =
     (if s = storageWorkerStatusHidden then Errno ENOENT
      else if s = storageWorkerStatusEntryLimit then errEntryLimit
      else if s = storageWorkerStatusUnsupported then ErrUnsupported
      else if s = storageWorkerStatusInvalid then errStorageProtocol
      else if s = storageWorkerStatusInternal then errWorkerFailed
      else errStorageProtocol)"

definition storageWorkerChildIdleTimeout :: int where "storageWorkerChildIdleTimeout = 45 * 10 ^ 9"

definition child_deadline :: "'w ipc \<Rightarrow> 'w \<Rightarrow> int" where
  "child_deadline I w = ipc_after I storageWorkerChildIdleTimeout w"

definition sendStorageWorkerError :: "'w ipc \<Rightarrow> u16 \<Rightarrow> u64 \<Rightarrow> u16 \<Rightarrow> 'w \<Rightarrow> storage_error option \<times> 'w" where
  "sendStorageWorkerError I op rid st w =
     (if st = storageWorkerStatusOK \<or> st = storageWorkerStatusEOF then (Some errStorageProtocol, w)
      else sendStorageWorkerFrame I
             \<lparr> opcode = op, requestID = rid, status = st, flags = 0, payload = [] \<rparr> [] (child_deadline I w) w)"

section \<open>Bootstrap\<close>

definition send_bootstrap ::
    "'w ipc \<Rightarrow> u64 \<Rightarrow> bytes \<Rightarrow> secureRoot \<Rightarrow> 'w \<Rightarrow> storage_error option \<times> 'w" where
  "send_bootstrap I rid verifier root w =
     (case root_file root of
        None \<Rightarrow> (Some errStorageProtocol, w)
      | Some fd \<Rightarrow>
          sendStorageWorkerFrame I
            \<lparr> opcode = storageWorkerBootstrapResponse, requestID = rid, status = storageWorkerStatusOK, flags = 0,
              payload = marshalStorageBootstrapResponse
                \<lparr> Verifier = verifier, MountID = root_mountID root, FilesystemType = root_filesystemType root \<rparr> \<rparr>
            [fd] (child_deadline I w) w)"

text \<open>From the validated paths on.\<close>

definition bootstrap_open ::
    "'w ipc \<Rightarrow> u32 \<Rightarrow> u64 \<Rightarrow> string \<Rightarrow> string \<Rightarrow> 'w \<Rightarrow> storage_error option \<times> 'w" where
  "bootstrap_open I euid rid rootPath verifierPath w =
     (case readVerifierFileSecure (ipc_kernel I) euid verifierPath w of
        (Inl e, w1) \<Rightarrow>
          sendStorageWorkerError I storageWorkerBootstrapResponse rid storageWorkerStatusInternal w1
      | (Inr verifier, w1) \<Rightarrow>
          (case openSecureRoot (ipc_kernel I) rootPath w1 of
             (Inl e, w2) \<Rightarrow>
               sendStorageWorkerError I storageWorkerBootstrapResponse rid (storageWorkerStatusForError e) w2
           | (Inr root, w2) \<Rightarrow>
               (case send_bootstrap I rid verifier root w2 of
                  (r, w3) \<Rightarrow> (r, snd (secureRoot_close (ipc_kernel I) root w3)))))"

definition serve_bootstrap ::
    "'w ipc \<Rightarrow> u32 \<Rightarrow> storageWorkerFrame \<Rightarrow> int list \<Rightarrow> 'w \<Rightarrow> storage_error option \<times> 'w" where
  "serve_bootstrap I euid frame rights w =
     (if rights \<noteq> [] \<or> \<not> validStorageWorkerRequestFrame frame storageWorkerBootstrapRequest
      then (Some errStorageProtocol, w)
      else case unmarshalStorageWorkerJSON bootstrap_of_json (payload frame) of
        Inl e \<Rightarrow> (Some e, w)
      | Inr request \<Rightarrow>
          if validateAbsoluteConfigPath (RootPath request) False \<noteq> Inr (RootPath request)
          then sendStorageWorkerError I storageWorkerBootstrapResponse (requestID frame) storageWorkerStatusInvalid w
          else if validateAbsoluteConfigPath (VerifierPath request) True \<noteq> Inr (VerifierPath request)
          then sendStorageWorkerError I storageWorkerBootstrapResponse (requestID frame) storageWorkerStatusInvalid w
          else bootstrap_open I euid (requestID frame) (RootPath request) (VerifierPath request) w)"

definition runStorageBootstrapWorker :: "'w ipc \<Rightarrow> u32 \<Rightarrow> 'w \<Rightarrow> storage_error option \<times> 'w" where
  "runStorageBootstrapWorker I euid w =
     (case receiveStorageWorkerFrame I (child_deadline I w) w of
        (Inl e, w1) \<Rightarrow> (Some e, w1)
      | (Inr (frame, rights), w1) \<Rightarrow>
          (case serve_bootstrap I euid frame rights w1 of
             (r, w2) \<Rightarrow> (r, closeStorageWorkerRights (ipc_kernel I) rights w2)))"

section \<open>Requests with a root descriptor\<close>

text \<open>The mount id and filesystem type the request expects.\<close>

definition request_identity :: "u16 \<Rightarrow> bytes \<Rightarrow> storage_error + u64 \<times> u32" where
  "request_identity expectedOpcode pl =
     (if expectedOpcode = storageWorkerListRequest
      then (case unmarshalStorageWorkerJSON list_of_json pl of
              Inl e \<Rightarrow> Inl e | Inr r \<Rightarrow> Inr (ListMountID r, ListFilesystemType r))
      else if expectedOpcode = storageWorkerOpenRequest
      then (case unmarshalStorageWorkerJSON open_of_json pl of
              Inl e \<Rightarrow> Inl e | Inr r \<Rightarrow> Inr (OpenMountID r, OpenFilesystemType r))
      else Inl errStorageProtocol)"

definition receiveStorageRootRequest ::
    "'w ipc \<Rightarrow> u16 \<Rightarrow> 'w \<Rightarrow> (storage_error + storageWorkerFrame \<times> secureRoot) \<times> 'w" where
  "receiveStorageRootRequest I expectedOpcode w =
     (case receiveStorageWorkerFrame I (child_deadline I w) w of
        (Inl e, w1) \<Rightarrow> (Inl e, w1)
      | (Inr (frame, rights), w1) \<Rightarrow>
          if length rights \<noteq> 1 \<or> \<not> validStorageWorkerRequestFrame frame expectedOpcode
          then (Inl errStorageProtocol, closeStorageWorkerRights (ipc_kernel I) rights w1)
          else (case request_identity expectedOpcode (payload frame) of
            Inl e \<Rightarrow> (Inl e, closeStorageWorkerRights (ipc_kernel I) rights w1)
          | Inr (mountID, filesystemType) \<Rightarrow>
              (case secureRootFromWorkerFD (ipc_kernel I) (rights ! 0) mountID filesystemType w1 of
                 (Inl e, w2) \<Rightarrow> (Inl e, sys_close (ipc_kernel I) (rights ! 0) w2)
               | (Inr root, w2) \<Rightarrow> (Inr (frame, root), w2))))"

section \<open>Listing\<close>

definition DefaultMaxDirectoryEntries :: int where "DefaultMaxDirectoryEntries = 1000"

text \<open>The loop that sends the encoded listing in frames.\<close>

function send_list_chunks ::
    "'w ipc \<Rightarrow> u64 \<Rightarrow> bytes \<Rightarrow> nat \<Rightarrow> 'w \<Rightarrow> storage_error option \<times> 'w" where
  "send_list_chunks I rid pl offset w =
     (if length pl \<le> offset then (None, w)
      else let end_off = min (offset + storageWorkerMaxFramePayload) (length pl) in
        (case sendStorageWorkerFrame I
                \<lparr> opcode = storageWorkerListResponse, requestID = rid, status = storageWorkerStatusOK,
                  flags = (if end_off \<noteq> length pl then storageWorkerFlagMore else 0),
                  payload = slice offset end_off pl \<rparr> [] (child_deadline I w) w of
           (Some e, w1) \<Rightarrow> (Some e, w1)
         | (None, w1) \<Rightarrow> send_list_chunks I rid pl end_off w1))"
  by pat_completeness auto
termination
  by (relation "measure (\<lambda>(I, rid, pl, offset, w). length pl - offset)")
     (auto simp: storageWorkerMaxFramePayload_def)

declare send_list_chunks.simps [simp del]

definition serve_list :: "'w ipc \<Rightarrow> storageWorkerFrame \<Rightarrow> secureRoot \<Rightarrow> 'w \<Rightarrow> storage_error option \<times> 'w" where
  "serve_list I frame root w =
     (case unmarshalStorageWorkerJSON list_of_json (payload frame) of
        Inl e \<Rightarrow>
          sendStorageWorkerError I storageWorkerListResponse (requestID frame) storageWorkerStatusInvalid w
      | Inr request \<Rightarrow>
          if MaxEntries request < 1 \<or> DefaultMaxDirectoryEntries < MaxEntries request
             \<or> validateRelativePath (ListPath request) True \<noteq> Inr (ListPath request)
          then sendStorageWorkerError I storageWorkerListResponse (requestID frame) storageWorkerStatusInvalid w
          else (case secureRoot_list (ipc_kernel I) root (ListPath request) (nat (MaxEntries request)) w of
            (Inl e, w1) \<Rightarrow>
              sendStorageWorkerError I storageWorkerListResponse (requestID frame)
                (storageWorkerStatusForError e) w1
          | (Inr es, w1) \<Rightarrow>
              let pl = marshal_entries es in
              if pl = [] \<or> storageWorkerMaxListPayload < length pl
              then sendStorageWorkerError I storageWorkerListResponse (requestID frame)
                     storageWorkerStatusInternal w1
              else send_list_chunks I (requestID frame) pl 0 w1))"

definition runStorageListWorker :: "'w ipc \<Rightarrow> 'w \<Rightarrow> storage_error option \<times> 'w" where
  "runStorageListWorker I w =
     (case receiveStorageRootRequest I storageWorkerListRequest w of
        (Inl e, w1) \<Rightarrow> (Some e, w1)
      | (Inr (frame, root), w1) \<Rightarrow>
          (case serve_list I frame root w1 of
             (r, w2) \<Rightarrow> (r, snd (secureRoot_close (ipc_kernel I) root w2))))"

section \<open>Reading a file\<close>

text \<open>\<open>ModTime().UnixNano()\<close>: seconds and nanoseconds in 64-bit arithmetic.\<close>

definition UnixNano :: "i64 \<times> i64 \<Rightarrow> i64" where
  "UnixNano t = fst t * 1000000000 + snd t"

definition answer_read :: "'w ipc \<Rightarrow> int \<Rightarrow> storageWorkerFrame \<Rightarrow> 'w \<Rightarrow> (storage_error option + unit) \<times> 'w" where
  "answer_read I fd frame w =
     (case parseStorageReadRequest (payload frame) of
        Inl e \<Rightarrow> (Inl (Some e), w)
      | Inr request \<Rightarrow>
          (case ipc_pread I fd (unat (Length request)) (Offset request) w of
             (Inl e, w1) \<Rightarrow>
               apfst Inl (sendStorageWorkerError I storageWorkerReadResponse (requestID frame)
                            storageWorkerStatusInternal w1)
           | (Inr buffer, w1) \<Rightarrow>
               (case sendStorageWorkerFrame I
                       \<lparr> opcode = storageWorkerReadResponse, requestID = requestID frame,
                         status = (if buffer = [] then storageWorkerStatusEOF else storageWorkerStatusOK),
                         flags = 0, payload = buffer \<rparr> [] (child_deadline I w1) w1 of
                  (Some e, w2) \<Rightarrow> (Inl (Some e), w2)
                | (None, w2) \<Rightarrow> (Inr (), w2))))"

text \<open>One iteration of the request loop: the worker's result, or the next expected request id.\<close>

definition file_worker_step :: "'w ipc \<Rightarrow> int \<Rightarrow> u64 \<Rightarrow> 'w \<Rightarrow> (storage_error option + u64) \<times> 'w" where
  "file_worker_step I fd expectedID w =
     (case receiveStorageWorkerFrame I (child_deadline I w) w of
        (Inl e, w1) \<Rightarrow> (Inl (Some e), w1)
      | (Inr (frame, rights), w1) \<Rightarrow>
          let w2 = closeStorageWorkerRights (ipc_kernel I) rights w1 in
          if rights \<noteq> [] \<or> requestID frame \<noteq> expectedID \<or> status frame \<noteq> storageWorkerStatusOK \<or> flags frame \<noteq> 0
          then (Inl (Some errStorageProtocol), w2)
          else if opcode frame = storageWorkerReadRequest
          then (case answer_read I fd frame w2 of
                  (Inl r, w3) \<Rightarrow> (Inl r, w3)
                | (Inr _, w3) \<Rightarrow> (Inr (expectedID + 1), w3))
          else if opcode frame = storageWorkerCloseRequest
          then (if payload frame \<noteq> [] then (Inl (Some errStorageProtocol), w2)
                else apfst Inl (sendStorageWorkerFrame I
                       \<lparr> opcode = storageWorkerCloseResponse, requestID = requestID frame,
                         status = storageWorkerStatusOK, flags = 0, payload = [] \<rparr> [] (child_deadline I w2) w2))
          else (Inl (Some errStorageProtocol), w2))"

partial_function (option) file_worker_loop ::
    "'w ipc \<Rightarrow> int \<Rightarrow> u64 \<Rightarrow> 'w \<Rightarrow> (storage_error option \<times> 'w) option" where
  "file_worker_loop I fd expectedID w =
     (case file_worker_step I fd expectedID w of
        (Inl r, w1) \<Rightarrow> Some (r, w1)
      | (Inr next, w1) \<Rightarrow> file_worker_loop I fd next w1)"

text \<open>Opening the requested file: the worker's result, or the descriptor it goes on to serve.\<close>

definition open_reply ::
    "'w ipc \<Rightarrow> storageWorkerFrame \<Rightarrow> secureRoot \<Rightarrow> 'w \<Rightarrow> (storage_error option + int) \<times> 'w" where
  "open_reply I frame root w =
     (let K = ipc_kernel I; rid = requestID frame in
      case unmarshalStorageWorkerJSON open_of_json (payload frame) of
        Inl e \<Rightarrow>
          apfst Inl (sendStorageWorkerError I storageWorkerOpenResponse rid storageWorkerStatusInvalid
                  (snd (secureRoot_close K root w)))
      | Inr request \<Rightarrow>
          if validateRelativePath (OpenPath request) False \<noteq> Inr (OpenPath request)
          then apfst Inl (sendStorageWorkerError I storageWorkerOpenResponse rid storageWorkerStatusInvalid
                       (snd (secureRoot_close K root w)))
          else (case secureRoot_openRegular K root (OpenPath request) w of
            (Inl e, w1) \<Rightarrow>
              apfst Inl (sendStorageWorkerError I storageWorkerOpenResponse rid (storageWorkerStatusForError e)
                      (snd (secureRoot_close K root w1)))
          | (Inr (fd, info), w1) \<Rightarrow>
              let w2 = snd (secureRoot_close K root w1) in
              (case sendStorageWorkerFrame I
                      \<lparr> opcode = storageWorkerOpenResponse, requestID = rid, status = storageWorkerStatusOK,
                        flags = 0,
                        payload = marshalStorageOpenResponse
                          \<lparr> Size = st_size info, ModTimeUnixNano = UnixNano (st_mtim info) \<rparr> \<rparr>
                      [] (child_deadline I w2) w2 of
                 (Some e, w3) \<Rightarrow> (Inl (Some e), sys_close K fd w3)
               | (None, w3) \<Rightarrow> (Inr fd, w3))))"

definition serve_open ::
    "'w ipc \<Rightarrow> storageWorkerFrame \<Rightarrow> secureRoot \<Rightarrow> 'w \<Rightarrow> (storage_error option \<times> 'w) option" where
  "serve_open I frame root w =
     (case open_reply I frame root w of
        (Inl r, w1) \<Rightarrow> Some (r, w1)
      | (Inr fd, w1) \<Rightarrow>
          map_option (apsnd (sys_close (ipc_kernel I) fd)) (file_worker_loop I fd (requestID frame + 1) w1))"

definition runStorageFileWorker :: "'w ipc \<Rightarrow> 'w \<Rightarrow> (storage_error option \<times> 'w) option" where
  "runStorageFileWorker I w =
     (case receiveStorageRootRequest I storageWorkerOpenRequest w of
        (Inl e, w1) \<Rightarrow> Some (Some e, w1)
      | (Inr (frame, root), w1) \<Rightarrow> serve_open I frame root w1)"

section \<open>Starting a worker\<close>

definition storageWorkerModeBootstrap :: string where "storageWorkerModeBootstrap = ''bootstrap''"
definition storageWorkerModeList :: string where "storageWorkerModeList = ''list''"
definition storageWorkerModeFile :: string where "storageWorkerModeFile = ''file''"

text \<open>What the socket options of the inherited connection report.\<close>

record 'w connection_os =
  co_connect :: "'w \<Rightarrow> storage_error option \<times> 'w"           \<comment> \<open>\<open>storageWorkerConnectionFromFD\<close>\<close>
  co_rawConn :: "'w \<Rightarrow> bool"                                 \<comment> \<open>\<open>SyscallConn\<close> and \<open>Control\<close> succeed\<close>
  co_isSeqpacket :: "'w \<Rightarrow> errno + bool"
  co_peer :: "'w \<Rightarrow> errno + (32 word \<times> u32 \<times> u32)"          \<comment> \<open>pid, uid, gid\<close>
  co_close :: "'w \<Rightarrow> 'w"
  co_ppid :: int
  co_environ :: "string list"

definition validateStorageWorkerConnection ::
    "'w connection_os \<Rightarrow> int \<Rightarrow> u32 \<Rightarrow> u32 \<Rightarrow> 'w \<Rightarrow> storage_error option" where
  "validateStorageWorkerConnection C expectedPeerPID euid egid w =
     (if \<not> co_rawConn C w then Some errStorageProtocol
      else if co_isSeqpacket C w \<noteq> Inr True then Some errStorageProtocol
      else case co_peer C w of
        Inl e \<Rightarrow> Some errStorageProtocol
      | Inr (pid, uid, gid) \<Rightarrow>
          if pid \<noteq> of_int expectedPeerPID \<or> uid \<noteq> euid \<or> gid \<noteq> egid then Some errStorageProtocol else None)"

definition run_mode :: "'w ipc \<Rightarrow> u32 \<Rightarrow> string \<Rightarrow> 'w \<Rightarrow> (storage_error option \<times> 'w) option" where
  "run_mode I euid mode w =
     (if mode = storageWorkerModeBootstrap then Some (runStorageBootstrapWorker I euid w)
      else if mode = storageWorkerModeList then Some (runStorageListWorker I w)
      else if mode = storageWorkerModeFile then runStorageFileWorker I w
      else Some (Some errStorageProtocol, w))"

text \<open>From the open connection on; \<open>Close\<close> is deferred.\<close>

definition run_connected ::
    "'w ipc \<Rightarrow> 'w connection_os \<Rightarrow> 'w limits_os \<Rightarrow> u32 \<Rightarrow> u32 \<Rightarrow> string \<Rightarrow> 'w \<Rightarrow>
     (storage_error option \<times> 'w) option" where
  "run_connected I C L euid egid mode w =
     map_option (apsnd (co_close C))
       (case validateStorageWorkerConnection C (co_ppid C) euid egid w of
          Some e \<Rightarrow> Some (Some e, w)
        | None \<Rightarrow>
            (case applyStorageWorkerAddressSpaceLimit L w of
               (Some e, w1) \<Rightarrow> Some (Some e, w1)
             | (None, w1) \<Rightarrow> run_mode I euid mode w1))"

definition RunInternalStorageWorker ::
    "'w ipc \<Rightarrow> 'w connection_os \<Rightarrow> 'w limits_os \<Rightarrow> 'w runtime_os \<Rightarrow> string \<Rightarrow> 'w \<Rightarrow>
     (storage_error option \<times> 'w) option" where
  "RunInternalStorageWorker I C L R mode w =
     (if mode \<notin> {storageWorkerModeBootstrap, storageWorkerModeList, storageWorkerModeFile}
      then Some (Some errStorageProtocol, w)
      else case validateStorageWorkerEnvironment (co_environ C) of
        Some e \<Rightarrow> Some (Some e, w)
      | None \<Rightarrow>
          (case ValidateServiceRuntime R w of
             (Some e, w1) \<Rightarrow> Some (Some (OtherError e), w1)
           | (None, w1) \<Rightarrow>
               (case applyStorageWorkerFixedResourceLimits L w1 of
                  (Some e, w2) \<Rightarrow> Some (Some e, w2)
                | (None, w2) \<Rightarrow>
                    (case co_connect C w2 of
                       (Some e, w3) \<Rightarrow> Some (Some e, w3)
                     | (None, w3) \<Rightarrow>
                         run_connected I C L (of_int (rt_euid R)) (of_int (rt_egid R)) mode w3))))"

end
