(* ===== verification/Worker_Parent.thy ===== *)
theory Worker_Parent
  imports Worker_Child
begin

text \<open>
  The portal's side of a worker conversation (\<open>pkg/publicfiles/worker_parent_linux.go\<close>): bootstrap,
  listing, opening, and the \<open>Read\<close>, \<open>Seek\<close> and \<open>Close\<close> of a file served by a worker. Starting,
  aborting and reaping the process are the subject of the worker pool theory; here they are
  parameters of the conversation.
\<close>

section \<open>The conversation\<close>

datatype wait_result = Exited bool | ExitTimeout   \<comment> \<open>whether \<open>Wait\<close> succeeded; the timer fired first\<close>

record 'w session =
  ses_ipc :: "'w ipc"
  ses_start :: "string \<Rightarrow> 'w \<Rightarrow> storage_error option \<times> 'w"
  ses_abort :: "'w \<Rightarrow> 'w"
  ses_closeConn :: "'w \<Rightarrow> 'w"
  ses_wait :: "int \<Rightarrow> 'w \<Rightarrow> wait_result \<times> 'w"
  ses_ctxDone :: "'w \<Rightarrow> bool"
  ses_ctxDeadline :: "int option"
  ses_stopContext :: "'w \<Rightarrow> 'w"

definition storageWorkerBootstrapTimeout :: int where "storageWorkerBootstrapTimeout = 12 * 10 ^ 9"
definition storageWorkerOperationTimeout :: int where "storageWorkerOperationTimeout = 10 * 10 ^ 9"
definition storageWorkerReadTimeout :: int where "storageWorkerReadTimeout = 30 * 10 ^ 9"
definition storageWorkerExitTimeout :: int where "storageWorkerExitTimeout = 10 ^ 9"

definition storageWorkerDeadline :: "'w session \<Rightarrow> int \<Rightarrow> 'w \<Rightarrow> int" where
  "storageWorkerDeadline S limit w =
     (let deadline = ipc_after (ses_ipc S) limit w in
      case ses_ctxDeadline S of None \<Rightarrow> deadline | Some c \<Rightarrow> if c < deadline then c else deadline)"

definition finishNormally :: "'w session \<Rightarrow> int \<Rightarrow> 'w \<Rightarrow> storage_error option \<times> 'w" where
  "finishNormally S timeout w =
     (case ses_wait S timeout (ses_closeConn S w) of
        (Exited ok, w1) \<Rightarrow> (if ok then None else Some errStorageProtocol, w1)
      | (ExitTimeout, w1) \<Rightarrow> (Some errStorageTimeout, ses_abort S w1))"

definition classify :: "'w session \<Rightarrow> storage_error \<Rightarrow> 'w \<Rightarrow> storage_error" where
  "classify S e w = classifyStorageWorkerIPCError (ses_ctxDone S w) e"

record manager =
  mgr_root :: "int option"
  mgr_mountID :: u64
  mgr_filesystemType :: u32
  mgr_closed :: bool
  mgr_requestID :: u64

text \<open>The atomic counter wraps; the loop skips the value 0, which the frame header refuses.\<close>

definition nextRequestID :: "manager \<Rightarrow> u64 \<times> manager" where
  "nextRequestID m =
     (let i = mgr_requestID m + 1 in
      if i \<noteq> 0 then (i, m\<lparr>mgr_requestID := i\<rparr>) else (i + 1, m\<lparr>mgr_requestID := i + 1\<rparr>))"

definition sendRootRequest ::
    "'w session \<Rightarrow> manager \<Rightarrow> storageWorkerFrame \<Rightarrow> int \<Rightarrow> 'w \<Rightarrow> storage_error option \<times> 'w" where
  "sendRootRequest S m frame deadline w =
     (if mgr_closed m then (Some errStorageCapacity, w)
      else case mgr_root m of
        None \<Rightarrow> (Some errStorageCapacity, w)
      | Some rootFD \<Rightarrow>
          (case sendStorageWorkerFrame (ses_ipc S) frame [rootFD] deadline w of
             (Some e, w1) \<Rightarrow> (Some (classify S e w1), w1)
           | (None, w1) \<Rightarrow> (None, w1)))"

section \<open>Bootstrap\<close>

definition accept_bootstrap ::
    "'w session \<Rightarrow> storageWorkerFrame \<Rightarrow> int list \<Rightarrow> 'w \<Rightarrow> (storage_error + storageBootstrapResponse \<times> int) \<times> 'w" where
  "accept_bootstrap S frame rights w =
     (let close = closeStorageWorkerRights (ipc_kernel (ses_ipc S)) rights in
      if opcode frame \<noteq> storageWorkerBootstrapResponse \<or> requestID frame \<noteq> 1 \<or> flags frame \<noteq> 0
      then (Inl errStorageProtocol, ses_abort S (close w))
      else if status frame \<noteq> storageWorkerStatusOK
      then (if payload frame \<noteq> [] then (Inl errStorageProtocol, ses_abort S (close w))
            else (case finishNormally S storageWorkerExitTimeout (close w) of
                    (Some e, w1) \<Rightarrow> (Inl e, w1)
                  | (None, w1) \<Rightarrow> (Inl (storageWorkerError (status frame)), w1)))
      else if length rights \<noteq> 1 then (Inl errStorageProtocol, ses_abort S (close w))
      else case parseStorageBootstrapResponse (payload frame) of
        Inl e \<Rightarrow> (Inl e, ses_abort S (close w))
      | Inr response \<Rightarrow>
          (case finishNormally S storageWorkerExitTimeout w of
             (Some e, w1) \<Rightarrow> (Inl e, sys_close (ipc_kernel (ses_ipc S)) (rights ! 0) w1)
           | (None, w1) \<Rightarrow> (Inr (response, rights ! 0), w1)))"

definition bootstrap ::
    "'w session \<Rightarrow> string \<Rightarrow> string \<Rightarrow> 'w \<Rightarrow> (storage_error + storageBootstrapResponse \<times> int) \<times> 'w" where
  "bootstrap S rootPath verifierPath w =
     (case ses_start S storageWorkerModeBootstrap w of
        (Some e, w0) \<Rightarrow> (Inl e, w0)
      | (None, w0) \<Rightarrow>
          (case marshalStorageWorkerJSON (bootstrap_json \<lparr> RootPath = rootPath, VerifierPath = verifierPath \<rparr>) of
             Inl e \<Rightarrow> (Inl e, ses_abort S w0)
           | Inr pl \<Rightarrow>
               let deadline = ipc_after (ses_ipc S) storageWorkerBootstrapTimeout w0 in
               (case sendStorageWorkerFrame (ses_ipc S)
                       \<lparr> opcode = storageWorkerBootstrapRequest, requestID = 1, status = storageWorkerStatusOK,
                         flags = 0, payload = pl \<rparr> [] deadline w0 of
                  (Some e, w1) \<Rightarrow> (Inl (classifyStorageWorkerIPCError False e), ses_abort S w1)
                | (None, w1) \<Rightarrow>
                    (case receiveStorageWorkerFrame (ses_ipc S) deadline w1 of
                       (Inl e, w2) \<Rightarrow> (Inl (classifyStorageWorkerIPCError False e), ses_abort S w2)
                     | (Inr (frame, rights), w2) \<Rightarrow> accept_bootstrap S frame rights w2))))"

section \<open>Listing\<close>

text \<open>One received frame of a listing: the final result, or the text so far and whether more follows.\<close>

definition list_step ::
    "'w session \<Rightarrow> u64 \<Rightarrow> int \<Rightarrow> bytes \<Rightarrow> 'w \<Rightarrow> (storage_error + bytes \<times> bool) \<times> 'w" where
  "list_step S rid deadline encoded w =
     (case receiveStorageWorkerFrame (ses_ipc S) deadline w of
        (Inl e, w1) \<Rightarrow> (let w2 = ses_abort S w1 in (Inl (classify S e w2), w2))
      | (Inr (frame, rights), w1) \<Rightarrow>
          if rights \<noteq> [] \<or> opcode frame \<noteq> storageWorkerListResponse \<or> requestID frame \<noteq> rid
          then (Inl errStorageProtocol,
                ses_abort S (closeStorageWorkerRights (ipc_kernel (ses_ipc S)) rights w1))
          else if status frame \<noteq> storageWorkerStatusOK
          then (if flags frame \<noteq> 0 \<or> payload frame \<noteq> [] then (Inl errStorageProtocol, ses_abort S w1)
                else (case finishNormally S storageWorkerExitTimeout w1 of
                        (Some e, w2) \<Rightarrow> (Inl e, w2)
                      | (None, w2) \<Rightarrow> (Inl (storageWorkerError (status frame)), w2)))
          else if payload frame = [] \<or> storageWorkerMaxListPayload < length encoded + length (payload frame)
          then (Inl errStorageProtocol, ses_abort S w1)
          else (Inr (encoded @ payload frame, flags frame AND storageWorkerFlagMore \<noteq> 0), w1))"

text \<open>Every iteration that continues adds at least one byte to a text of bounded length: the guards on an
  empty and on an overlong payload are what makes the loop end.\<close>

lemma list_step_progress:
  assumes "list_step S rid deadline encoded w = (Inr (encoded', again), w1)"
  shows "length encoded < length encoded' \<and> length encoded' \<le> storageWorkerMaxListPayload"
  using assms by (auto simp: list_step_def Let_def split: prod.splits sum.splits option.splits if_splits)

function list_receive ::
    "'w session \<Rightarrow> u64 \<Rightarrow> int \<Rightarrow> bytes \<Rightarrow> 'w \<Rightarrow> (storage_error + bytes) \<times> 'w" where
  "list_receive S rid deadline encoded w =
     (case list_step S rid deadline encoded w of
        (Inl e, w1) \<Rightarrow> (Inl e, w1)
      | (Inr (encoded', again), w1) \<Rightarrow>
          if again then list_receive S rid deadline encoded' w1 else (Inr encoded', w1))"
  by pat_completeness auto
termination
  by (relation "measure (\<lambda>(S, rid, deadline, encoded, w). storageWorkerMaxListPayload - length encoded)")
     (auto dest!: list_step_progress sym [of _ "list_step _ _ _ _ _"])

declare list_receive.simps [simp del]

definition receive_listing ::
    "'w session \<Rightarrow> u64 \<Rightarrow> int \<Rightarrow> nat \<Rightarrow> 'w \<Rightarrow> (storage_error + Entry list) \<times> 'w" where
  "receive_listing S rid deadline maxEntries w =
     (case list_receive S rid deadline [] w of
        (Inl e, w1) \<Rightarrow> (Inl e, w1)
      | (Inr encoded, w1) \<Rightarrow>
          (case finishNormally S storageWorkerExitTimeout w1 of
             (Some e, w2) \<Rightarrow> (Inl e, w2)
           | (None, w2) \<Rightarrow> (decodeStorageWorkerEntries encoded maxEntries, w2)))"

definition manager_list ::
    "'w session \<Rightarrow> manager \<Rightarrow> string \<Rightarrow> nat \<Rightarrow> 'w \<Rightarrow> (storage_error + Entry list) \<times> manager \<times> 'w" where
  "manager_list S m relativePath maxEntries w =
     (case ses_start S storageWorkerModeList w of
        (Some e, w0) \<Rightarrow> (Inl e, m, w0)
      | (None, w0) \<Rightarrow>
          (case nextRequestID m of
             (rid, m1) \<Rightarrow>
               (case marshalStorageWorkerJSON (list_json
                       \<lparr> ListPath = relativePath, MaxEntries = int maxEntries,
                         ListMountID = mgr_mountID m1, ListFilesystemType = mgr_filesystemType m1 \<rparr>) of
                  Inl e \<Rightarrow> (Inl e, m1, ses_stopContext S (ses_abort S w0))
                | Inr pl \<Rightarrow>
                    let deadline = storageWorkerDeadline S storageWorkerOperationTimeout w0 in
                    (case sendRootRequest S m1
                            \<lparr> opcode = storageWorkerListRequest, requestID = rid,
                              status = storageWorkerStatusOK, flags = 0, payload = pl \<rparr> deadline w0 of
                       (Some e, w1) \<Rightarrow> (Inl e, m1, ses_stopContext S (ses_abort S w1))
                     | (None, w1) \<Rightarrow>
                         (case receive_listing S rid deadline maxEntries w1 of
                            (r, w2) \<Rightarrow> (r, m1, ses_stopContext S w2))))))"

section \<open>Opening a file\<close>

record isolatedStorageFile =
  file_name :: string
  file_size :: i64
  file_modTime :: i64
  file_nextID :: u64
  file_offset :: i64
  file_closed :: bool
  file_sourceErr :: "storage_error option"

definition accept_open ::
    "'w session \<Rightarrow> u64 \<Rightarrow> string \<Rightarrow> storageWorkerFrame \<Rightarrow> int list \<Rightarrow> 'w \<Rightarrow>
     (storage_error + isolatedStorageFile) \<times> 'w" where
  "accept_open S rid relativePath frame rights w =
     (if rights \<noteq> [] \<or> opcode frame \<noteq> storageWorkerOpenResponse \<or> requestID frame \<noteq> rid \<or> flags frame \<noteq> 0
      then (Inl errStorageProtocol,
            ses_abort S (ses_stopContext S (closeStorageWorkerRights (ipc_kernel (ses_ipc S)) rights w)))
      else if status frame \<noteq> storageWorkerStatusOK
      then (if payload frame \<noteq> [] then (Inl errStorageProtocol, ses_abort S (ses_stopContext S w))
            else (case finishNormally S storageWorkerExitTimeout (ses_stopContext S w) of
                    (Some e, w1) \<Rightarrow> (Inl e, w1)
                  | (None, w1) \<Rightarrow> (Inl (storageWorkerError (status frame)), w1)))
      else case parseStorageOpenResponse (payload frame) of
        Inl e \<Rightarrow> (Inl e, ses_abort S (ses_stopContext S w))
      | Inr response \<Rightarrow>
          (Inr \<lparr> file_name = path_Base relativePath, file_size = Size response,
                 file_modTime = ModTimeUnixNano response, file_nextID = rid + 1, file_offset = 0,
                 file_closed = False, file_sourceErr = None \<rparr>, w))"

definition manager_openRegular ::
    "'w session \<Rightarrow> manager \<Rightarrow> string \<Rightarrow> 'w \<Rightarrow> (storage_error + isolatedStorageFile) \<times> manager \<times> 'w" where
  "manager_openRegular S m relativePath w =
     (case ses_start S storageWorkerModeFile w of
        (Some e, w0) \<Rightarrow> (Inl e, m, w0)
      | (None, w0) \<Rightarrow>
          (case nextRequestID m of
             (rid, m1) \<Rightarrow>
               (case marshalStorageWorkerJSON (open_json
                       \<lparr> OpenPath = relativePath, OpenMountID = mgr_mountID m1,
                         OpenFilesystemType = mgr_filesystemType m1 \<rparr>) of
                  Inl e \<Rightarrow> (Inl e, m1, ses_abort S (ses_stopContext S w0))
                | Inr pl \<Rightarrow>
                    let deadline = storageWorkerDeadline S storageWorkerOperationTimeout w0 in
                    (case sendRootRequest S m1
                            \<lparr> opcode = storageWorkerOpenRequest, requestID = rid,
                              status = storageWorkerStatusOK, flags = 0, payload = pl \<rparr> deadline w0 of
                       (Some e, w1) \<Rightarrow> (Inl e, m1, ses_abort S (ses_stopContext S w1))
                     | (None, w1) \<Rightarrow>
                         (case receiveStorageWorkerFrame (ses_ipc S) deadline w1 of
                            (Inl e, w2) \<Rightarrow>
                              (let w3 = ses_abort S (ses_stopContext S w2) in (Inl (classify S e w3), m1, w3))
                          | (Inr (frame, rights), w2) \<Rightarrow>
                              (case accept_open S rid relativePath frame rights w2 of
                                 (r, w3) \<Rightarrow> (r, m1, w3)))))))"

section \<open>Reading, seeking and closing a served file\<close>

text \<open>\<open>fail\<close> records the error and aborts; the failing read then reports it.\<close>

definition fail_read ::
    "'w session \<Rightarrow> storage_error \<Rightarrow> isolatedStorageFile \<Rightarrow> 'w \<Rightarrow>
     (bytes \<times> storage_error option) \<times> isolatedStorageFile \<times> 'w" where
  "fail_read S e f w = (([], Some e), f\<lparr>file_sourceErr := Some e\<rparr>, ses_abort S w)"

definition read_length :: "nat \<Rightarrow> isolatedStorageFile \<Rightarrow> nat" where
  "read_length n f =
     (let len = min n storageWorkerMaxReadBytes; remaining = sint (file_size f - file_offset f) in
      if int len > remaining then nat remaining else len)"

definition accept_read ::
    "'w session \<Rightarrow> u64 \<Rightarrow> nat \<Rightarrow> storageWorkerFrame \<Rightarrow> int list \<Rightarrow> isolatedStorageFile \<Rightarrow> 'w \<Rightarrow>
     (bytes \<times> storage_error option) \<times> isolatedStorageFile \<times> 'w" where
  "accept_read S rid len frame rights f w =
     (if rights \<noteq> [] \<or> opcode frame \<noteq> storageWorkerReadResponse \<or> requestID frame \<noteq> rid \<or> flags frame \<noteq> 0
      then fail_read S errStorageProtocol f (closeStorageWorkerRights (ipc_kernel (ses_ipc S)) rights w)
      else if status frame = storageWorkerStatusEOF
      then (if payload frame \<noteq> [] then fail_read S errStorageProtocol f w else fail_read S ErrUnexpectedEOF f w)
      else if status frame \<noteq> storageWorkerStatusOK \<or> payload frame = [] \<or> len < length (payload frame)
      then (if status frame = storageWorkerStatusInternal \<and> payload frame = []
            then fail_read S (storageWorkerError (status frame)) f w
            else fail_read S errStorageProtocol f w)
      else ((payload frame, None), f\<lparr>file_offset := file_offset f + of_nat (length (payload frame))\<rparr>, w))"

text \<open>\<open>Read\<close> into a buffer of \<open>n\<close> bytes: the bytes copied into it and the error.\<close>

definition file_Read ::
    "'w session \<Rightarrow> nat \<Rightarrow> isolatedStorageFile \<Rightarrow> 'w \<Rightarrow>
     (bytes \<times> storage_error option) \<times> isolatedStorageFile \<times> 'w" where
  "file_Read S n f w =
     (if file_closed f then (([], Some ErrClosed), f, w)
      else if n = 0 then (([], None), f, w)
      else if file_sourceErr f \<noteq> None then (([], file_sourceErr f), f, w)
      else if ses_ctxDone S w then fail_read S errStorageTimeout f w
      else if sint (file_size f) \<le> sint (file_offset f) then (([], Some EOF), f, w)
      else let len = read_length n f in
        case marshalStorageReadRequest \<lparr> Offset = file_offset f, Length = of_nat len \<rparr> of
          Inl e \<Rightarrow> fail_read S e f w
        | Inr pl \<Rightarrow>
            let rid = file_nextID f; f1 = f\<lparr>file_nextID := rid + 1\<rparr>;
                deadline = storageWorkerDeadline S storageWorkerReadTimeout w in
            (case sendStorageWorkerFrame (ses_ipc S)
                    \<lparr> opcode = storageWorkerReadRequest, requestID = rid, status = storageWorkerStatusOK,
                      flags = 0, payload = pl \<rparr> [] deadline w of
               (Some e, w1) \<Rightarrow> fail_read S (classify S e w1) f1 w1
             | (None, w1) \<Rightarrow>
                 (case receiveStorageWorkerFrame (ses_ipc S) deadline w1 of
                    (Inl e, w2) \<Rightarrow> fail_read S (classify S e w2) f1 w2
                  | (Inr (frame, rights), w2) \<Rightarrow> accept_read S rid len frame rights f1 w2)))"

datatype whence = SeekStart | SeekCurrent | SeekEnd | OtherWhence

definition file_Seek :: "i64 \<Rightarrow> whence \<Rightarrow> isolatedStorageFile \<Rightarrow> (storage_error + i64) \<times> isolatedStorageFile" where
  "file_Seek offset wh f =
     (if file_closed f then (Inl ErrClosed, f)
      else case file_sourceErr f of
        Some e \<Rightarrow> (Inl e, f)
      | None \<Rightarrow>
          (case (case wh of SeekStart \<Rightarrow> Some 0 | SeekCurrent \<Rightarrow> Some (file_offset f)
                 | SeekEnd \<Rightarrow> Some (file_size f) | OtherWhence \<Rightarrow> None) of
             None \<Rightarrow> (Inl errStorageProtocol, f)
           | Some base \<Rightarrow>
               let next = base + offset in
               if sint next < 0 \<or> 0 < sint offset \<and> sint next < sint base \<or> sint offset < 0 \<and> sint base < sint next
               then (Inl errStorageProtocol, f)
               else (Inr next, f\<lparr>file_offset := next\<rparr>)))"

text \<open>The close conversation, after \<open>closed\<close> is set and before the deferred \<open>stopContext\<close>.\<close>

definition close_conversation ::
    "'w session \<Rightarrow> isolatedStorageFile \<Rightarrow> 'w \<Rightarrow> storage_error option \<times> isolatedStorageFile \<times> 'w" where
  "close_conversation S f w =
     (let rid = file_nextID f; f1 = f\<lparr>file_nextID := rid + 1\<rparr>;
          deadline = storageWorkerDeadline S storageWorkerOperationTimeout w in
      case sendStorageWorkerFrame (ses_ipc S)
             \<lparr> opcode = storageWorkerCloseRequest, requestID = rid, status = storageWorkerStatusOK, flags = 0,
               payload = [] \<rparr> [] deadline w of
        (Some e, w1) \<Rightarrow>
          (let c = classify S e w1 in (Some c, f1\<lparr>file_sourceErr := Some c\<rparr>, ses_abort S w1))
      | (None, w1) \<Rightarrow>
          (case receiveStorageWorkerFrame (ses_ipc S) deadline w1 of
             (Inl e, w2) \<Rightarrow>
               (Some errStorageProtocol, f1\<lparr>file_sourceErr := Some errStorageProtocol\<rparr>, ses_abort S w2)
           | (Inr (frame, rights), w2) \<Rightarrow>
               if rights \<noteq> [] \<or> opcode frame \<noteq> storageWorkerCloseResponse \<or> requestID frame \<noteq> rid
                  \<or> status frame \<noteq> storageWorkerStatusOK \<or> flags frame \<noteq> 0 \<or> payload frame \<noteq> []
               then (Some errStorageProtocol, f1\<lparr>file_sourceErr := Some errStorageProtocol\<rparr>,
                     ses_abort S (closeStorageWorkerRights (ipc_kernel (ses_ipc S)) rights w2))
               else (case finishNormally S storageWorkerExitTimeout w2 of
                       (Some e, w3) \<Rightarrow> (Some e, f1\<lparr>file_sourceErr := Some e\<rparr>, w3)
                     | (None, w3) \<Rightarrow> (None, f1, w3))))"

definition file_Close ::
    "'w session \<Rightarrow> isolatedStorageFile \<Rightarrow> 'w \<Rightarrow> storage_error option \<times> isolatedStorageFile \<times> 'w" where
  "file_Close S f w =
     (if file_closed f then (None, f, w)
      else let f0 = f\<lparr>file_closed := True\<rparr> in
        (case (if file_sourceErr f \<noteq> None \<or> ses_ctxDone S w
               then let e = (case file_sourceErr f of None \<Rightarrow> errStorageTimeout | Some e \<Rightarrow> e) in
                    (Some e, f0\<lparr>file_sourceErr := Some e\<rparr>, ses_abort S w)
               else close_conversation S f0 w) of
           (r, f1, w1) \<Rightarrow> (r, f1, ses_stopContext S w1)))"

section \<open>The two processes\<close>

text \<open>The portal and one worker over one connection. The conversation is synchronous, so the worker takes
  a turn when the portal waits for an answer that is not there yet: it reads its request and answers
  it, or serves one request of its file loop. The worker is this repository's worker code over a
  packet queue; the kernel state is common to both processes.\<close>

datatype worker_phase =
    AwaitBootstrap | AwaitList | AwaitOpen
  | Serving int u64      \<comment> \<open>the descriptor and the next expected request id\<close>
  | WorkerExited bool    \<comment> \<open>whether the worker's result was \<open>nil\<close>\<close>

abbreviation exit_phase :: "storage_error option \<Rightarrow> worker_phase" where
  "exit_phase r \<equiv> WorkerExited (r = None)"

record 'k served =
  sv_worker :: "'k queue_world"
  sv_phase :: worker_phase

definition open_turn ::
    "'k kernel \<Rightarrow> (int \<Rightarrow> nat \<Rightarrow> i64 \<Rightarrow> 'k \<Rightarrow> (errno + bytes) \<times> 'k) \<Rightarrow> 'k queue_world \<Rightarrow>
     worker_phase \<times> 'k queue_world" where
  "open_turn K pread q =
     (case receiveStorageRootRequest (queue_ipc K pread) storageWorkerOpenRequest q of
        (Inl e, q1) \<Rightarrow> (exit_phase (Some e), q1)
      | (Inr (frame, root), q1) \<Rightarrow>
          (case open_reply (queue_ipc K pread) frame root q1 of
             (Inl r, q2) \<Rightarrow> (exit_phase r, q2)
           | (Inr fd, q2) \<Rightarrow> (Serving fd (requestID frame + 1), q2)))"

definition serve_turn ::
    "'k kernel \<Rightarrow> (int \<Rightarrow> nat \<Rightarrow> i64 \<Rightarrow> 'k \<Rightarrow> (errno + bytes) \<times> 'k) \<Rightarrow> int \<Rightarrow> u64 \<Rightarrow> 'k queue_world \<Rightarrow>
     worker_phase \<times> 'k queue_world" where
  "serve_turn K pread fd expectedID q =
     (case file_worker_step (queue_ipc K pread) fd expectedID q of
        (Inl r, q1) \<Rightarrow> (exit_phase r, sys_close (queue_kernel K) fd q1)
      | (Inr next, q1) \<Rightarrow> (Serving fd next, q1))"

definition worker_turn ::
    "u32 \<Rightarrow> 'k kernel \<Rightarrow> (int \<Rightarrow> nat \<Rightarrow> i64 \<Rightarrow> 'k \<Rightarrow> (errno + bytes) \<times> 'k) \<Rightarrow> 'k served \<Rightarrow> 'k served" where
  "worker_turn euid K pread v =
     (case (case sv_phase v of
              AwaitBootstrap \<Rightarrow> apfst exit_phase (runStorageBootstrapWorker (queue_ipc K pread) euid (sv_worker v))
            | AwaitList \<Rightarrow> apfst exit_phase (runStorageListWorker (queue_ipc K pread) (sv_worker v))
            | AwaitOpen \<Rightarrow> open_turn K pread (sv_worker v)
            | Serving fd expectedID \<Rightarrow> serve_turn K pread fd expectedID (sv_worker v)
            | WorkerExited ok \<Rightarrow> (WorkerExited ok, sv_worker v)) of
        (phase, q) \<Rightarrow> v\<lparr>sv_worker := q, sv_phase := phase\<rparr>)"

definition served_recv ::
    "u32 \<Rightarrow> 'k kernel \<Rightarrow> (int \<Rightarrow> nat \<Rightarrow> i64 \<Rightarrow> 'k \<Rightarrow> (errno + bytes) \<times> 'k) \<Rightarrow> 'k served \<Rightarrow>
     (storage_error + recv_result) \<times> 'k served" where
  "served_recv euid K pread v =
     (let v1 = (if outbox (sv_worker v) = [] then worker_turn euid K pread v else v) in
      case outbox (sv_worker v1) of
        [] \<Rightarrow> (Inr \<lparr> rr_packet = [], rr_oob = [], rr_truncated = False, rr_err = None \<rparr>, v1)
      | (packet, fds) # rest \<Rightarrow>
          (Inr \<lparr> rr_packet = packet, rr_oob = put_rights fds, rr_truncated = False, rr_err = None \<rparr>,
           v1\<lparr>sv_worker := (sv_worker v1)\<lparr>outbox := rest\<rparr>\<rparr>))"

definition served_send :: "bytes \<Rightarrow> bytes \<Rightarrow> 'k served \<Rightarrow> (storage_error + nat \<times> nat) \<times> 'k served" where
  "served_send packet oob v =
     (Inr (length packet, length oob),
      v\<lparr>sv_worker := (sv_worker v)\<lparr>inbox := inbox (sv_worker v) @ [(packet, get_rights oob)]\<rparr>\<rparr>)"

definition lift_served :: "('k \<Rightarrow> 'a \<times> 'k) \<Rightarrow> 'k served \<Rightarrow> 'a \<times> 'k served" where
  "lift_served f v = (case lift_sys f (sv_worker v) of (a, q) \<Rightarrow> (a, v\<lparr>sv_worker := q\<rparr>))"

definition served_kernel :: "'k kernel \<Rightarrow> 'k served kernel" where
  "served_kernel K =
     \<lparr> sys_openat2 = (\<lambda>d p f r. lift_served (sys_openat2 K d p f r)), sys_open = (\<lambda>p f. lift_served (sys_open K p f)),
       sys_fstat = (\<lambda>fd. lift_served (sys_fstat K fd)), sys_fstatfs = (\<lambda>fd. lift_served (sys_fstatfs K fd)),
       sys_statx = (\<lambda>fd. lift_served (sys_statx K fd)),
       sys_readdirnames = (\<lambda>fd n. lift_served (sys_readdirnames K fd n)),
       sys_fgetxattr = (\<lambda>fd a n. lift_served (sys_fgetxattr K fd a n)),
       sys_read_limited = (\<lambda>fd n. lift_served (sys_read_limited K fd n)),
       sys_close = (\<lambda>fd v. snd (lift_served (\<lambda>k. ((), sys_close K fd k)) v)) \<rparr>"

definition served_ipc ::
    "u32 \<Rightarrow> 'k kernel \<Rightarrow> (int \<Rightarrow> nat \<Rightarrow> i64 \<Rightarrow> 'k \<Rightarrow> (errno + bytes) \<times> 'k) \<Rightarrow> 'k served ipc" where
  "served_ipc euid K pread =
     \<lparr> ipc_kernel = served_kernel K, ipc_pread = (\<lambda>fd n off. lift_served (pread fd n off)),
       ipc_setWriteDeadline = (\<lambda>t v. (True, v)), ipc_setReadDeadline = (\<lambda>t v. (True, v)),
       ipc_writeMsg = served_send, ipc_recvMsg = served_recv euid K pread, ipc_UnixRights = put_rights,
       ipc_parseControl = (\<lambda>oob. ([oob], False)), ipc_parseRights = (\<lambda>m. Some (get_rights m)),
       ipc_after = (\<lambda>d v. d) \<rparr>"

text \<open>A session of an uncancelled request: starting gives a fresh worker, waiting reports how it ended.\<close>

definition start_phase :: "string \<Rightarrow> worker_phase" where
  "start_phase mode =
     (if mode = storageWorkerModeBootstrap then AwaitBootstrap else if mode = storageWorkerModeList then AwaitList
      else if mode = storageWorkerModeFile then AwaitOpen else WorkerExited False)"

definition served_session ::
    "u32 \<Rightarrow> 'k kernel \<Rightarrow> (int \<Rightarrow> nat \<Rightarrow> i64 \<Rightarrow> 'k \<Rightarrow> (errno + bytes) \<times> 'k) \<Rightarrow> 'k served session" where
  "served_session euid K pread =
     \<lparr> ses_ipc = served_ipc euid K pread,
       ses_start = (\<lambda>mode v. (None, v\<lparr>sv_worker := (sv_worker v)\<lparr>inbox := [], outbox := []\<rparr>, sv_phase := start_phase mode\<rparr>)),
       ses_abort = (\<lambda>v. v\<lparr>sv_phase := WorkerExited False\<rparr>), ses_closeConn = (\<lambda>v. v),
       ses_wait = (\<lambda>t v. (Exited (sv_phase v = WorkerExited True), v)), ses_ctxDone = (\<lambda>v. False),
       ses_ctxDeadline = None, ses_stopContext = (\<lambda>v. v) \<rparr>"

section \<open>Reading from a worker that serves the file\<close>

text \<open>A descriptor that reads the bytes \<open>d\<close>: a positional read inside the file returns some of the bytes
  at that offset, at least one.\<close>

definition reads_file ::
    "(int \<Rightarrow> nat \<Rightarrow> i64 \<Rightarrow> 'k \<Rightarrow> (errno + bytes) \<times> 'k) \<Rightarrow> int \<Rightarrow> bytes \<Rightarrow> ('k \<Rightarrow> bool) \<Rightarrow> bool" where
  "reads_file pread fd d I \<longleftrightarrow>
     (\<forall>k n off. I k \<longrightarrow> 0 < n \<longrightarrow> off < length d \<longrightarrow>
        (\<exists>j k'. pread fd n (of_nat off) k = (Inr (take j (drop off d)), k') \<and>
           0 < j \<and> j \<le> n \<and> off + j \<le> length d \<and> I k'))"

text \<open>The portal's file stands at \<open>off\<close> in the bytes \<open>d\<close>, in step with its worker, and may still send \<open>q\<close>
  requests before the request id wraps to 0.\<close>

definition served_at ::
    "(int \<Rightarrow> nat \<Rightarrow> i64 \<Rightarrow> 'k \<Rightarrow> (errno + bytes) \<times> 'k) \<Rightarrow> nat \<Rightarrow> bytes \<Rightarrow> nat \<Rightarrow>
     isolatedStorageFile \<Rightarrow> 'k served \<Rightarrow> bool" where
  "served_at pread q d off f v \<longleftrightarrow>
     length d < 2 ^ 63 \<and> off \<le> length d \<and> file_size f = of_nat (length d) \<and> file_offset f = of_nat off \<and>
     \<not> file_closed f \<and> file_sourceErr f = None \<and>
     (q = 0 \<or> file_nextID f \<noteq> 0 \<and> unat (file_nextID f) + q \<le> 2 ^ 64) \<and>
     inbox (sv_worker v) = [] \<and> outbox (sv_worker v) = [] \<and>
     (\<exists>fd I. sv_phase v = Serving fd (file_nextID f) \<and> I (qw_kernel (sv_worker v)) \<and> reads_file pread fd d I)"

definition read_frame :: "u16 \<Rightarrow> u64 \<Rightarrow> bytes \<Rightarrow> storageWorkerFrame" where
  "read_frame op rid pl =
     \<lparr> opcode = op, requestID = rid, status = storageWorkerStatusOK, flags = 0, payload = pl \<rparr>"

lemma marshal_read_frame:
  assumes "op = storageWorkerReadRequest \<or> op = storageWorkerReadResponse" "rid \<noteq> 0"
    "length pl \<le> storageWorkerMaxFramePayload"
  obtains pk where "marshalStorageWorkerFrame (read_frame op rid pl) = Inr pk"
  using assms
  by (auto simp: marshalStorageWorkerFrame_def read_frame_def validStorageWorkerFrameHeader_def opcode_defs status_defs)

lemma marshal_read_request:
  assumes "off < 2 ^ 63" "0 < n" "n \<le> storageWorkerMaxReadBytes"
  obtains pl where "marshalStorageReadRequest \<lparr> Offset = of_nat off, Length = of_nat n \<rparr> = Inr pl" "length pl = 12"
proof -
  have n: "n < 2 ^ 32" using assms(3) by (simp add: size_defs)
  have "unat (of_nat off :: i64) = off" using assms(1) by (simp add: unat_of_nat)
  then have "sint (of_nat off :: i64) = int off" using assms(1) by (simp add: sint_unat)
  moreover have "unat (of_nat n :: u32) = n" using n by (rule unat_of_nat_u32)
  moreover from this have "(of_nat n :: u32) \<noteq> 0" using assms(2) by auto
  ultimately have "valid_read_request \<lparr> Offset = of_nat off, Length = of_nat n \<rparr>"
    using assms(3) by (simp add: valid_read_request_def)
  then show thesis using that by (simp add: marshalStorageReadRequest_def)
qed

text \<open>The worker's turn on a read request.\<close>

lemma worker_turn_read:
  assumes "outbox (sv_worker v) = []" "rid \<noteq> 0" "sv_phase v = Serving fd rid"
    and pl: "marshalStorageReadRequest \<lparr> Offset = of_nat off, Length = of_nat n \<rparr> = Inr pl" "length pl = 12"
    and n: "n < 2 ^ 32"
    and pk: "marshalStorageWorkerFrame (read_frame storageWorkerReadRequest rid pl) = Inr pk"
    and ib: "inbox (sv_worker v) = [(pk, [])]"
    and rd: "pread fd n (of_nat off) (qw_kernel (sv_worker v)) = (Inr data, k')" "data \<noteq> []"
    and pk2: "marshalStorageWorkerFrame (read_frame storageWorkerReadResponse rid data) = Inr pk2"
  shows "worker_turn euid K pread v =
    v\<lparr>sv_worker := \<lparr> qw_kernel = k', inbox = [], outbox = [(pk2, [])] \<rparr>, sv_phase := Serving fd (rid + 1)\<rparr>"
proof -
  let ?I = "queue_ipc K pread" and ?w = "(sv_worker v)\<lparr>inbox := []\<rparr>"
  have k: "unat (of_nat n :: u32) = n" using n by (rule unat_of_nat_u32)
  have r: "receiveStorageWorkerFrame ?I t (sv_worker v) =
      (Inr (read_frame storageWorkerReadRequest rid pl, []), ?w)" for t
    by (rule queue_receive [OF pk ib])
  have p: "ipc_pread ?I fd n (of_nat off) ?w = (Inr data, ?w\<lparr>qw_kernel := k'\<rparr>)"
    using rd(1) by (simp add: queue_ipc_def lift_sys_def)
  have s: "sendStorageWorkerFrame ?I (read_frame storageWorkerReadResponse rid data) [] t w =
      (None, w\<lparr>outbox := outbox w @ [(pk2, [])]\<rparr>)" for t w
    by (rule queue_send [OF pk2])
  have "answer_read ?I fd (read_frame storageWorkerReadRequest rid pl) ?w =
      (Inr (), ?w\<lparr>qw_kernel := k', outbox := [(pk2, [])]\<rparr>)"
    using rd(2) assms(1) p s read_codec.dec_enc [OF pl(1)]
    by (simp add: answer_read_def read_frame_def k)
  then have "file_worker_step ?I fd rid (sv_worker v) =
      (Inr (rid + 1), \<lparr> qw_kernel = k', inbox = [], outbox = [(pk2, [])] \<rparr>)"
    using r by (simp add: file_worker_step_def Let_def read_frame_def)
  then show ?thesis using assms(3) by (simp add: worker_turn_def serve_turn_def)
qed

lemma read_length_at:
  assumes "sz < 2 ^ 63" "off < sz" "file_size f = of_nat (sz)" "file_offset f = of_nat off" "0 < n"
  shows "read_length n f = min (min n storageWorkerMaxReadBytes) (sz - off)"
    and "sint (file_size f) \<le> sint (file_offset f) \<longleftrightarrow> False"
proof -
  have u: "unat (of_nat i :: i64) = i" "sint (of_nat i :: i64) = int i" if "i < 2 ^ 63" for i
    using that by (simp_all add: unat_of_nat sint_unat)
  have "file_size f - file_offset f = of_nat (sz - off)" using assms by (simp add: of_nat_diff)
  moreover have "sz - off < 2 ^ 63" using assms(1) by simp
  ultimately have "sint (file_size f - file_offset f) = int (sz - off)" using u(2) by simp
  then show "read_length n f = min (min n storageWorkerMaxReadBytes) (sz - off)"
    by (auto simp: read_length_def Let_def min_def)
  show "sint (file_size f) \<le> sint (file_offset f) \<longleftrightarrow> False"
    using assms u [of "sz"] u [of off] by simp
qed

lemma served_Read:
  assumes at: "served_at pread (Suc q) d off f v" and n: "0 < n" "off < length d"
  obtains k f' v' where "file_Read (served_session euid K pread) n f v = ((take k (drop off d), None), f', v')"
    "0 < k" "k \<le> n" "off + k \<le> length d" "served_at pread q d (off + k) f' v'"
proof -
  let ?S = "served_session euid K pread"
  note a = at [unfolded served_at_def]
  define len where "len = min (min n storageWorkerMaxReadBytes) (length d - off)"
  define rid where "rid = file_nextID f"
  have len: "0 < len" "len \<le> n" "len \<le> storageWorkerMaxReadBytes"
    using n by (auto simp: len_def size_defs)
  have len32: "len < 2 ^ 32" using len(3) by (simp add: size_defs)
  have rid: "rid \<noteq> 0" "unat rid + Suc q \<le> 2 ^ 64" using a by (auto simp: rid_def)
  obtain pl where pl: "marshalStorageReadRequest \<lparr> Offset = of_nat off, Length = of_nat len \<rparr> = Inr pl" "length pl = 12"
    using marshal_read_request [of off len] a n(2) len by (metis order.strict_trans)
  obtain pk where pk: "marshalStorageWorkerFrame (read_frame storageWorkerReadRequest rid pl) = Inr pk"
    using marshal_read_frame [of storageWorkerReadRequest rid pl] rid(1) pl(2) by (auto simp: size_defs)
  obtain fd I where I: "I (qw_kernel (sv_worker v))" "reads_file pread fd d I" and ph: "sv_phase v = Serving fd rid"
    using a by (auto simp: rid_def)
  obtain j k' where j: "pread fd len (of_nat off) (qw_kernel (sv_worker v)) = (Inr (take j (drop off d)), k')"
    "0 < j" "j \<le> len" "off + j \<le> length d" "I k'"
    using I(2) [unfolded reads_file_def, rule_format, OF I(1) len(1) n(2)] by blast
  have ld: "length (take j (drop off d)) = j" using j(4) by simp
  obtain pk2 where pk2: "marshalStorageWorkerFrame (read_frame storageWorkerReadResponse rid (take j (drop off d))) = Inr pk2"
    using marshal_read_frame [of storageWorkerReadResponse rid "take j (drop off d)"] rid(1) j(3) len(3) ld
    by (auto simp: size_defs)
  define v1 where "v1 = v\<lparr>sv_worker := (sv_worker v)\<lparr>inbox := [(pk, [])]\<rparr>\<rparr>"
  define v2 where "v2 = v1\<lparr>sv_worker := \<lparr> qw_kernel = k', inbox = [], outbox = [] \<rparr>, sv_phase := Serving fd (rid + 1)\<rparr>"
  have snd: "sendStorageWorkerFrame (ses_ipc ?S) (read_frame storageWorkerReadRequest rid pl) [] t v = (None, v1)" for t
  proof (rule sent_frame [OF pk])
    show "ipc_setWriteDeadline (ses_ipc ?S) t v = (True, v)" by (simp add: served_session_def served_ipc_def)
    have "inbox (sv_worker v) = []" using a by blast
    then show "ipc_writeMsg (ses_ipc ?S) pk [] v = (Inr (length pk, 0), v1)"
      by (simp add: served_session_def served_ipc_def served_send_def v1_def)
  qed
  have turn: "worker_turn euid K pread v1 =
      v1\<lparr>sv_worker := \<lparr> qw_kernel = k', inbox = [], outbox = [(pk2, [])] \<rparr>, sv_phase := Serving fd (rid + 1)\<rparr>"
    by (rule worker_turn_read [OF _ rid(1) _ pl len32 pk _ _ _ pk2]) (use a ph j(1, 2) n(2) in \<open>auto simp: v1_def\<close>)
  have rcv: "receiveStorageWorkerFrame (ses_ipc ?S) t v1 =
      (Inr (read_frame storageWorkerReadResponse rid (take j (drop off d)), []), v2)" for t
  proof (rule received_frame [OF frame_codec.dec_enc [OF pk2]])
    show "ipc_setReadDeadline (ses_ipc ?S) t v1 = (True, v1)" by (simp add: served_session_def served_ipc_def)
    have "outbox (sv_worker v1) = []" using a by (simp add: v1_def)
    then show "ipc_recvMsg (ses_ipc ?S) v1 =
        (Inr \<lparr> rr_packet = pk2, rr_oob = [], rr_truncated = False, rr_err = None \<rparr>, v2)"
      using turn by (simp add: served_session_def served_ipc_def served_recv_def put_rights_def v2_def)
  qed
  define f' where "f' = f\<lparr>file_nextID := rid + 1, file_offset := of_nat (off + j)\<rparr>"
  have "take j (drop off d) \<noteq> []" using ld j(2) by auto
  moreover have "storageWorkerStatusOK \<noteq> storageWorkerStatusEOF" by (simp add: status_defs)
  moreover have "\<not> ses_ctxDone ?S v" by (simp add: served_session_def)
  moreover have "read_length n f = len" "\<not> sint (file_size f) \<le> sint (file_offset f)"
    using read_length_at [of "length d" off f n] a n by (simp_all add: len_def)
  ultimately have "file_Read ?S n f v = ((take j (drop off d), None), f', v2)"
    using a n(1) snd rcv pl(1) ld j(3)
    by (simp add: file_Read_def accept_read_def read_frame_def Let_def rid_def f'_def)
  moreover have "served_at pread q d (off + j) f' v2"
  proof -
    have "q = 0 \<or> rid + 1 \<noteq> 0 \<and> unat (rid + 1) + q \<le> 2 ^ 64"
    proof (cases q)
      case (Suc m)
      then have "unat rid + 1 < 2 ^ 64" using rid(2) by simp
      then have "unat (rid + 1) = unat rid + 1" by (simp add: unat_word_ariths)
      then show ?thesis using rid(2) by auto
    qed simp
    then show ?thesis using a j(4, 5) I(2) by (auto simp: served_at_def f'_def v2_def v1_def)
  qed
  ultimately show thesis using that [of j f' v2] j len(2) by auto
qed

lemma served_EOF:
  assumes "served_at pread q d (length d) f v" "0 < n"
  shows "file_Read (served_session euid K pread) n f v = (([], Some EOF), f, v)"
  using assms by (simp add: served_at_def file_Read_def served_session_def)

section \<open>Seeking\<close>

lemma sint_add_i64:
  fixes a b :: i64
  shows "sint (a + b) = (sint a + sint b + 2 ^ 63) mod 2 ^ 64 - 2 ^ 63"
  by (simp add: sint_word_ariths signed_take_bit_eq_take_bit_shift take_bit_eq_mod)

lemma sint_add_nonneg:
  fixes a b :: i64
  assumes "0 \<le> sint a"
  shows "0 \<le> sint (a + b) \<longleftrightarrow> 0 \<le> sint a + sint b \<and> sint a + sint b < 2 ^ 63"
    and "0 \<le> sint a + sint b \<Longrightarrow> sint a + sint b < 2 ^ 63 \<Longrightarrow> sint (a + b) = sint a + sint b"
proof -
  note r = sint_i64_range [of a] sint_i64_range [of b]
  consider "sint a + sint b < 2 ^ 63" | "2 ^ 63 \<le> sint a + sint b" by linarith
  then have *: "sint (a + b) = (if sint a + sint b < 2 ^ 63 then sint a + sint b else sint a + sint b - 2 ^ 64)"
  proof cases
    case 1
    then show ?thesis using r assms by (simp add: sint_add_i64)
  next
    case 2
    have "(sint a + sint b + 2 ^ 63) mod 2 ^ 64 = (sint a + sint b + 2 ^ 63 - 2 ^ 64) mod 2 ^ 64"
      by (rule minus_mod_self2 [symmetric])
    then show ?thesis using 2 r by (simp add: sint_add_i64)
  qed
  show "0 \<le> sint (a + b) \<longleftrightarrow> 0 \<le> sint a + sint b \<and> sint a + sint b < 2 ^ 63" using * r by auto
  show "0 \<le> sint a + sint b \<Longrightarrow> sint a + sint b < 2 ^ 63 \<Longrightarrow> sint (a + b) = sint a + sint b" using * by simp
qed

definition seek_base :: "whence \<Rightarrow> isolatedStorageFile \<Rightarrow> i64 option" where
  "seek_base wh f =
     (case wh of SeekStart \<Rightarrow> Some 0 | SeekCurrent \<Rightarrow> Some (file_offset f) | SeekEnd \<Rightarrow> Some (file_size f)
      | OtherWhence \<Rightarrow> None)"

lemma file_Seek_iff:
  assumes "\<not> file_closed f" "file_sourceErr f = None" "seek_base wh f = Some base" "0 \<le> sint base"
  shows "file_Seek offset wh f =
    (if 0 \<le> sint base + sint offset \<and> sint base + sint offset < 2 ^ 63
     then (Inr (base + offset), f\<lparr>file_offset := base + offset\<rparr>) else (Inl errStorageProtocol, f))"
  using assms(1, 2, 3) sint_add_nonneg [OF assms(4), of offset]
  by (auto simp: file_Seek_def seek_base_def [symmetric] Let_def)

lemma served_Seek:
  assumes "served_at pread q d off f v"
  shows "file_Seek 0 SeekEnd f = (Inr (of_nat (length d)), f\<lparr>file_offset := of_nat (length d)\<rparr>)"
    and "i \<le> length d \<Longrightarrow> file_Seek (of_nat i) SeekStart f = (Inr (of_nat i), f\<lparr>file_offset := of_nat i\<rparr>)"
    and "i \<le> length d \<Longrightarrow> served_at pread q d i (f\<lparr>file_offset := of_nat i\<rparr>) v"
proof -
  have u: "sint (of_nat i :: i64) = int i" if "i < 2 ^ 63" for i using that by (simp add: unat_of_nat sint_unat)
  have a: "\<not> file_closed f" "file_sourceErr f = None" "file_size f = of_nat (length d)" "length d < 2 ^ 63"
    using assms by (simp_all add: served_at_def)
  show "file_Seek 0 SeekEnd f = (Inr (of_nat (length d)), f\<lparr>file_offset := of_nat (length d)\<rparr>)"
    using file_Seek_iff [OF a(1, 2), of SeekEnd "file_size f" 0] a u [of "length d"] by (simp add: seek_base_def)
  show "file_Seek (of_nat i) SeekStart f = (Inr (of_nat i), f\<lparr>file_offset := of_nat i\<rparr>)" if "i \<le> length d"
    using file_Seek_iff [OF a(1, 2), of SeekStart 0 "of_nat i"] a that u [of i] by (simp add: seek_base_def)
  show "served_at pread q d i (f\<lparr>file_offset := of_nat i\<rparr>) v" if "i \<le> length d"
    using assms that by (auto simp: served_at_def)
qed

text \<open>C25. Seeking in a served file follows integer arithmetic: the new position is the base plus the
  offset exactly when that sum, computed without wrap-around, is neither negative nor past the largest
  64-bit position; otherwise nothing moves.\<close>

theorem seek_follows_integers:
  assumes "\<not> file_closed f" "file_sourceErr f = None" "0 \<le> sint (file_offset f)" "0 \<le> sint (file_size f)"
    and "file_Seek offset wh f = (res, f')"
  shows "case seek_base wh f of None \<Rightarrow> res = Inl errStorageProtocol \<and> f' = f
    | Some base \<Rightarrow>
        if 0 \<le> sint base + sint offset \<and> sint base + sint offset < 2 ^ 63
        then \<exists>p. res = Inr p \<and> sint p = sint base + sint offset \<and> f' = f\<lparr>file_offset := p\<rparr>
        else res = Inl errStorageProtocol \<and> f' = f"
proof (cases "seek_base wh f")
  case None
  then have "wh = OtherWhence" by (cases wh) (simp_all add: seek_base_def)
  then show ?thesis using assms by (auto simp: file_Seek_def seek_base_def)
next
  case (Some base)
  then have b: "0 \<le> sint base" using assms(3, 4) by (cases wh) (auto simp: seek_base_def)
  show ?thesis using file_Seek_iff [OF assms(1, 2) Some b, of offset] sint_add_nonneg(2) [OF b, of offset] assms(5)
    by (auto simp: Some split: if_splits)
qed

definition demo_file :: isolatedStorageFile where
  "demo_file = \<lparr> file_name = ''a'', file_size = 3, file_modTime = 0, file_nextID = 2, file_offset = 1,
                 file_closed = False, file_sourceErr = None \<rparr>"

theorem seek_follows_integers_witness:
  "fst (file_Seek 1 SeekCurrent demo_file) = Inr 2 \<and>
   fst (file_Seek 0x7FFFFFFFFFFFFFFF SeekCurrent demo_file) = Inl errStorageProtocol"
proof -
  have d: "\<not> file_closed demo_file" "file_sourceErr demo_file = None" "0 \<le> sint (file_offset demo_file)"
    "0 \<le> sint (file_size demo_file)" by (simp_all add: demo_file_def)
  have "seek_base SeekCurrent demo_file = Some 1" by (simp add: seek_base_def demo_file_def)
  then have "\<exists>p. fst (file_Seek 1 SeekCurrent demo_file) = Inr p \<and> sint p = 2"
    "fst (file_Seek 0x7FFFFFFFFFFFFFFF SeekCurrent demo_file) = Inl errStorageProtocol"
    using seek_follows_integers [OF d prod.collapse [symmetric], where offset = 1 and wh = SeekCurrent]
      seek_follows_integers [OF d prod.collapse [symmetric], where offset = "0x7FFFFFFFFFFFFFFF" and wh = SeekCurrent]
    by auto
  moreover have "p = 2" if "sint p = 2" for p :: i64 using that by (intro signed_word_eqI) simp
  ultimately show ?thesis by auto
qed

text \<open>Reading a served file through the two processes refines reading its bytes: with the portal and
  the worker in step, \<open>Read\<close> into a buffer returns bytes of the file at the current position, at least
  one and at most the buffer, and both sides are in step again at the new position; at the end it
  reports \<open>EOF\<close>. This holds for the 2^64 requests before the request id wraps.\<close>

lemma served_read_refines_file:
  assumes "served_at pread (Suc q) d off f v" "0 < n"
  shows "if off < length d
    then \<exists>k f' v'. file_Read (served_session euid K pread) n f v = ((take k (drop off d), None), f', v') \<and>
           0 < k \<and> k \<le> n \<and> off + k \<le> length d \<and> served_at pread q d (off + k) f' v'
    else file_Read (served_session euid K pread) n f v = (([], Some EOF), f, v)"
proof (cases "off < length d")
  case True
  from served_Read [OF assms True, of euid K] show ?thesis using True by metis
next
  case False
  then have "off = length d" using assms(1) by (simp add: served_at_def)
  then show ?thesis using served_EOF assms by auto
qed

text \<open>A file of three bytes in memory.\<close>

definition memory_pread :: "int \<Rightarrow> nat \<Rightarrow> i64 \<Rightarrow> 'k \<Rightarrow> (errno + bytes) \<times> 'k" where
  "memory_pread fd n off k = (Inr (take n (drop (unat off) [10, 20, 30])), k)"

lemma memory_reads: "reads_file memory_pread fd [10, 20, 30] (\<lambda>k. True)"
  unfolding reads_file_def
proof (intro allI impI)
  fix k and n off :: nat
  assume "0 < n" "off < length [10, 20, 30 :: byte]"
  then have off: "off < 3" by simp
  have "off < 2 ^ 64" using off by simp
  then have "unat (of_nat off :: i64) = off" by (simp add: unat_of_nat)
  then have "memory_pread fd n (of_nat off) k = (Inr (take (min n (3 - off)) (drop off [10, 20, 30])), k)"
    by (simp add: memory_pread_def min_def)
  moreover have "0 < min n (3 - off) \<and> min n (3 - off) \<le> n \<and> off + min n (3 - off) \<le> 3"
    using off \<open>0 < n\<close> by linarith
  ultimately show "\<exists>j k'. memory_pread fd n (of_nat off) k = (Inr (take j (drop off [10, 20, 30])), k') \<and>
      0 < j \<and> j \<le> n \<and> off + j \<le> length [10, 20, 30 :: byte] \<and> True"
    by (intro exI [of _ "min n (3 - off)"] exI [of _ k]) simp
qed

definition demo_served :: "int set served" where
  "demo_served = \<lparr> sv_worker = \<lparr> qw_kernel = {}, inbox = [], outbox = [] \<rparr>, sv_phase = Serving 7 2 \<rparr>"

lemma demo_served_at: "served_at memory_pread 9 [10, 20, 30] 1 demo_file demo_served"
  unfolding served_at_def
  by (intro conjI exI [of _ 7] exI [of _ "\<lambda>k. True"]) (simp_all add: demo_file_def demo_served_def memory_reads)

end
