(* ===== verification/Isolated_Storage.thy ===== *)
theory Isolated_Storage
  imports Worker_Parent
begin

text \<open>
  The disposable worker against the local backend (\<open>pkg/publicfiles/storage_local_linux.go\<close>): a listing and an
  opened file that reach the portal through the worker protocol are those the secure root gives when it is
  used directly, and an error arrives as the class the protocol reports.
\<close>

section \<open>The portal's side of a session\<close>

lemma served_send_root:
  assumes "marshalStorageWorkerFrame fr = Inr pk" "0 \<le> fd" "fd < 2 ^ 31"
  shows "sendStorageWorkerFrame (ses_ipc (served_session euid K pread)) fr [fd] t v =
    (None, v\<lparr>sv_worker := (sv_worker v)\<lparr>inbox := inbox (sv_worker v) @ [(pk, [fd])]\<rparr>\<rparr>)"
  using assms(1) get_put_rights [OF assms(2, 3)]
  by (simp add: sendStorageWorkerFrame_def storageWorkerMaxRights_def served_session_def served_ipc_def served_send_def)

lemma served_receive_queued:
  assumes "marshalStorageWorkerFrame fr = Inr pk" "outbox (sv_worker v) = (pk, []) # rest"
  shows "receiveStorageWorkerFrame (ses_ipc (served_session euid K pread)) t v =
    (Inr (fr, []), v\<lparr>sv_worker := (sv_worker v)\<lparr>outbox := rest\<rparr>\<rparr>)"
proof (rule received_frame [OF frame_codec.dec_enc [OF assms(1)]])
  show "ipc_setReadDeadline (ses_ipc (served_session euid K pread)) t v = (True, v)"
    by (simp add: served_session_def served_ipc_def)
  show "ipc_recvMsg (ses_ipc (served_session euid K pread)) v =
      (Inr \<lparr> rr_packet = pk, rr_oob = [], rr_truncated = False, rr_err = None \<rparr>, v\<lparr>sv_worker := (sv_worker v)\<lparr>outbox := rest\<rparr>\<rparr>)"
    using assms(2) by (simp add: served_session_def served_ipc_def served_recv_def put_rights_def)
qed

text \<open>Waiting on an empty queue gives the worker its turn.\<close>

lemma served_receive_turn:
  assumes "outbox (sv_worker v) = []" "outbox (sv_worker (worker_turn euid K pread v)) \<noteq> []"
  shows "receiveStorageWorkerFrame (ses_ipc (served_session euid K pread)) t v =
    receiveStorageWorkerFrame (ses_ipc (served_session euid K pread)) t (worker_turn euid K pread v)"
  using assms by (simp add: receiveStorageWorkerFrame_def served_session_def served_ipc_def served_recv_def)

lemma served_receive_exited:
  assumes "outbox (sv_worker v) = []" "outbox (sv_worker (worker_turn euid K pread v)) = []"
  shows "receiveStorageWorkerFrame (ses_ipc (served_session euid K pread)) t v =
    (Inl errStorageProtocol, worker_turn euid K pread v)"
  using assms
  by (simp add: receiveStorageWorkerFrame_def served_session_def served_ipc_def served_recv_def
      parseStorageWorkerRights_def accept_packet_def Let_def)

section \<open>The worker's side of a request\<close>

definition status_frame :: "u16 \<Rightarrow> u64 \<Rightarrow> u16 \<Rightarrow> storageWorkerFrame" where
  "status_frame op rid st = \<lparr> opcode = op, requestID = rid, status = st, flags = 0, payload = [] \<rparr>"

lemma status_for_error:
  "storageWorkerStatusForError e \<noteq> storageWorkerStatusOK" "storageWorkerStatusForError e \<noteq> storageWorkerStatusEOF"
  "storageWorkerStatusForError e \<le> storageWorkerStatusUnsupported"
  by (simp_all add: storageWorkerStatusForError_def status_defs)

lemma queue_send_error:
  assumes "marshalStorageWorkerFrame (status_frame op rid (storageWorkerStatusForError e)) = Inr pk"
  shows "sendStorageWorkerError (queue_ipc K pread) op rid (storageWorkerStatusForError e) w =
    (None, w\<lparr>outbox := outbox w @ [(pk, [])]\<rparr>)"
  using queue_send [OF assms] status_for_error [of e] by (simp add: sendStorageWorkerError_def status_frame_def)

lemma worker_root_request:
  assumes pk: "marshalStorageWorkerFrame fr = Inr pk" and ib: "inbox w = [(pk, [fd])]" and fd: "0 \<le> fd" "fd < 2 ^ 31"
    and v: "validStorageWorkerRequestFrame fr op" and id: "request_identity op (payload fr) = Inr (mountID, fsType)"
  shows "receiveStorageRootRequest (queue_ipc K pread) op w =
    (case secureRootFromWorkerFD K fd mountID fsType (qw_kernel w) of
       (Inl e, k1) \<Rightarrow> (Inl e, w\<lparr>inbox := [], qw_kernel := sys_close K fd k1\<rparr>)
     | (Inr root, k1) \<Rightarrow> (Inr (fr, root), w\<lparr>inbox := [], qw_kernel := k1\<rparr>))"
proof -
  have q: "ipc_kernel (queue_ipc K pread) = queue_kernel K" by (simp add: queue_ipc_def)
  show ?thesis
    unfolding receiveStorageRootRequest_def queue_receive_with_right [OF pk ib fd]
    using v id by (simp add: q split: sum.split prod.split)
qed

section \<open>Listing frames\<close>

text \<open>The frames \<open>send_list_chunks\<close> sends, and the packets they travel as.\<close>

function list_frames :: "u64 \<Rightarrow> bytes \<Rightarrow> nat \<Rightarrow> storageWorkerFrame list" where
  "list_frames rid pl offset =
     (if length pl \<le> offset then []
      else let end_off = min (offset + storageWorkerMaxFramePayload) (length pl) in
        \<lparr> opcode = storageWorkerListResponse, requestID = rid, status = storageWorkerStatusOK,
          flags = (if end_off \<noteq> length pl then storageWorkerFlagMore else 0),
          payload = slice offset end_off pl \<rparr> # list_frames rid pl end_off)"
  by pat_completeness auto
termination
  by (relation "measure (\<lambda>(rid, pl, offset). length pl - offset)") (auto simp: storageWorkerMaxFramePayload_def)

declare list_frames.simps [simp del]

definition packet_of :: "storageWorkerFrame \<Rightarrow> bytes \<times> int list" where
  "packet_of fr = (case marshalStorageWorkerFrame fr of Inl _ \<Rightarrow> ([], []) | Inr pk \<Rightarrow> (pk, []))"

lemma marshal_valid:
  assumes "validStorageWorkerFrameHeader fr" "length (payload fr) \<le> storageWorkerMaxFramePayload"
  obtains pk where "marshalStorageWorkerFrame fr = Inr pk"
  using assms by (simp add: marshalStorageWorkerFrame_def)

abbreviation list_frame :: "u64 \<Rightarrow> bytes \<Rightarrow> nat \<Rightarrow> nat \<Rightarrow> storageWorkerFrame" where
  "list_frame rid pl offset end_off \<equiv>
     \<lparr> opcode = storageWorkerListResponse, requestID = rid, status = storageWorkerStatusOK,
       flags = (if end_off \<noteq> length pl then storageWorkerFlagMore else 0), payload = slice offset end_off pl \<rparr>"

lemma marshal_list_frame:
  assumes "rid \<noteq> 0" "end_off \<le> offset + storageWorkerMaxFramePayload"
  obtains pk where "marshalStorageWorkerFrame (list_frame rid pl offset end_off) = Inr pk"
proof (rule marshal_valid)
  show "validStorageWorkerFrameHeader (list_frame rid pl offset end_off)"
    using assms(1) by (simp add: validStorageWorkerFrameHeader_def opcode_defs status_defs storageWorkerFlagMore_def)
  show "length (payload (list_frame rid pl offset end_off)) \<le> storageWorkerMaxFramePayload"
    using assms(2) by (simp add: slice_def)
qed

lemma chunks_queued:
  assumes "rid \<noteq> 0"
  shows "send_list_chunks (queue_ipc K pread) rid pl offset w =
    (None, w\<lparr>outbox := outbox w @ map packet_of (list_frames rid pl offset)\<rparr>)"
  using assms
proof (induction "queue_ipc K pread" rid pl offset w rule: send_list_chunks.induct)
  case (1 rid pl offset w)
  define e where "e = min (offset + storageWorkerMaxFramePayload) (length pl)"
  obtain pk where pk: "marshalStorageWorkerFrame (list_frame rid pl offset e) = Inr pk"
    by (rule marshal_list_frame [of rid e offset pl]) (use 1(2) e_def in auto)
  show ?case
  proof (cases "length pl \<le> offset")
    case True
    then show ?thesis by (simp add: send_list_chunks.simps list_frames.simps)
  next
    case False
    show ?thesis
      using 1(1) [OF False e_def queue_send [OF pk, symmetric] refl 1(2)] False
      by (subst send_list_chunks.simps, subst list_frames.simps) (simp add: Let_def packet_of_def pk queue_send [OF pk] split del: if_split flip: e_def)
  qed
qed

lemma frames_received:
  assumes "rid \<noteq> 0" "length pl \<le> storageWorkerMaxListPayload"
  shows "offset < length pl \<Longrightarrow>
    outbox (sv_worker v) = map packet_of (list_frames rid pl offset) \<Longrightarrow>
    list_receive (served_session euid K pread) rid t (take offset pl) v =
    (Inr pl, v\<lparr>sv_worker := (sv_worker v)\<lparr>outbox := []\<rparr>\<rparr>)"
proof (induction "length pl - offset" arbitrary: offset v rule: less_induct)
  case less
  define e where "e = min (offset + storageWorkerMaxFramePayload) (length pl)"
  define fr where "fr = list_frame rid pl offset e"
  have e: "offset < e" "e \<le> length pl" using less.prems by (auto simp: e_def storageWorkerMaxFramePayload_def)
  obtain pk where pk: "marshalStorageWorkerFrame fr = Inr pk"
    unfolding fr_def by (rule marshal_list_frame [of rid e offset pl]) (use assms e_def in auto)
  have lf: "list_frames rid pl offset = fr # list_frames rid pl e"
    using less.prems(1) by (subst list_frames.simps) (simp add: Let_def fr_def flip: e_def)
  define v1 where "v1 = v\<lparr>sv_worker := (sv_worker v)\<lparr>outbox := map packet_of (list_frames rid pl e)\<rparr>\<rparr>"
  have r: "receiveStorageWorkerFrame (ses_ipc (served_session euid K pread)) t v = (Inr (fr, []), v1)"
    unfolding v1_def by (rule served_receive_queued [OF pk]) (use less.prems(2) in \<open>simp add: lf packet_of_def pk\<close>)
  have sl: "slice offset e pl \<noteq> []" "take offset pl @ slice offset e pl = take e pl"
    using e take_slice [of _ pl] slice_join [of 0 offset e pl] by (auto simp: slice_def)
  have "length (take offset pl) + length (slice offset e pl) \<le> storageWorkerMaxListPayload"
    using assms(2) e sl(2) by (metis length_append length_take min.bounded_iff min.commute order_trans min.cobounded1)
  then have s: "list_step (served_session euid K pread) rid t (take offset pl) v =
      (Inr (take e pl, e \<noteq> length pl), v1)"
    using sl by (simp add: list_step_def r fr_def storageWorkerFlagMore_def)
  show ?case
  proof (cases "e = length pl")
    case True
    then have "list_frames rid pl e = []" by (simp add: list_frames.simps)
    then show ?thesis using True by (simp add: list_receive.simps s v1_def)
  next
    case False
    have "list_receive (served_session euid K pread) rid t (take e pl) v1 =
        (Inr pl, v1\<lparr>sv_worker := (sv_worker v1)\<lparr>outbox := []\<rparr>\<rparr>)"
      by (rule less.hyps) (use False e in \<open>auto simp: v1_def\<close>)
    then show ?thesis using False by (simp add: list_receive.simps [of _ _ _ "take offset pl"] s) (simp add: v1_def)
  qed
qed

section \<open>The local backend\<close>

text \<open>\<open>localStorageBackend\<close>: the secure root used directly, in the portal's own process.\<close>

definition newLocalStorageBackend :: "'k kernel \<Rightarrow> string \<Rightarrow> 'k \<Rightarrow> (storage_error + secureRoot) \<times> 'k" where
  "newLocalStorageBackend K rootPath = openSecureRoot K rootPath"

definition local_list ::
    "'k kernel \<Rightarrow> secureRoot \<Rightarrow> string \<Rightarrow> nat \<Rightarrow> 'k \<Rightarrow> (storage_error + Entry list) \<times> 'k" where
  "local_list K root relativePath maxEntries = secureRoot_list K root relativePath maxEntries"

definition local_openRegular ::
    "'k kernel \<Rightarrow> secureRoot \<Rightarrow> string \<Rightarrow> 'k \<Rightarrow> (storage_error + int \<times> stat) \<times> 'k" where
  "local_openRegular K root relativePath = secureRoot_openRegular K root relativePath"

definition local_close :: "'k kernel \<Rightarrow> secureRoot \<Rightarrow> 'k \<Rightarrow> secureRoot \<times> 'k" where
  "local_close K root = secureRoot_close K root"

section \<open>Listing through a worker\<close>

text \<open>What Linux promises about directory entries: a name has at most 255 bytes and a size is not negative.\<close>

definition directory_contract :: "'k kernel \<Rightarrow> bool" where
  "directory_contract K \<longleftrightarrow>
     (\<forall>fd n k names k'. sys_readdirnames K fd n k = ((names, None), k') \<longrightarrow> (\<forall>name\<in>set names. length name \<le> 255)) \<and>
     (\<forall>fd k st k'. sys_fstat K fd k = (Inr st, k') \<longrightarrow> 0 \<le> sint (st_size st))"

lemma listing_acceptable:
  assumes "directory_contract K" "secureRoot_list K r relative n s = (Inr es, s')"
  shows "\<forall>e\<in>set es. acceptable_entry e \<and> length (EntryName e) \<le> 255" "length es \<le> n"
proof -
  obtain fd s1 names s2 s3 where l: "sys_readdirnames K fd (n + 1) s1 = ((names, None), s2)"
      "length names \<le> n" "list_entries K r relative names s2 = (Inr es, s3)"
    using assms(2) by (auto simp: secureRoot_list_def not_less split: prod.splits sum.splits option.splits if_splits)
  have "0 \<le> sint (st_size st)" if "sys_fstat K fd k = (Inr st, k')" for fd k st k'
    using assms(1) that unfolding directory_contract_def by blast
  then have es: "length es \<le> length names \<and> (\<forall>e \<in> set es. acceptable_entry e \<and> EntryName e \<in> set names)"
    by (rule list_entries_Inr [OF _ l(3)])
  have "\<forall>name\<in>set names. length name \<le> 255" using assms(1) l(1) unfolding directory_contract_def by blast
  then show "\<forall>e\<in>set es. acceptable_entry e \<and> length (EntryName e) \<le> 255" "length es \<le> n" using es l(2) by auto
qed

text \<open>What the portal learns of a result of the storage: a listing as it is, an error by its class.\<close>

definition reported :: "storage_error + 'a \<Rightarrow> storage_error + 'a" where
  "reported res = (case res of Inl e \<Rightarrow> Inl (storageWorkerError (storageWorkerStatusForError e)) | Inr a \<Rightarrow> Inr a)"

definition list_answer :: "u64 \<Rightarrow> storage_error + Entry list \<Rightarrow> (bytes \<times> int list) list" where
  "list_answer rid res =
     (case res of
        Inl e \<Rightarrow> [packet_of (status_frame storageWorkerListResponse rid (storageWorkerStatusForError e))]
      | Inr es \<Rightarrow> map packet_of (list_frames rid (marshal_entries es) 0))"

lemma marshal_status_frame:
  assumes "rid \<noteq> 0" "op = storageWorkerListResponse \<or> op = storageWorkerOpenResponse"
  obtains pk where "marshalStorageWorkerFrame (status_frame op rid (storageWorkerStatusForError e)) = Inr pk"
proof (rule marshal_valid)
  show "validStorageWorkerFrameHeader (status_frame op rid (storageWorkerStatusForError e))"
    using assms status_for_error(3) [of e]
    by (auto simp: validStorageWorkerFrameHeader_def status_frame_def opcode_defs)
qed (simp add: status_frame_def)

lemma marshal_entries_nonempty: "marshal_entries es \<noteq> []"
  by (simp add: marshal_entries_def bytes_of_string_def)

lemma worker_serves_list:
  assumes dc: "directory_contract K" and rid: "requestID fr \<noteq> 0"
    and rq: "unmarshalStorageWorkerJSON list_of_json (payload fr) = Inr rq"
    and n: "1 \<le> MaxEntries rq" "MaxEntries rq \<le> 1000"
    and p: "validateRelativePath (ListPath rq) True = Inr (ListPath rq)"
    and l: "local_list K root (ListPath rq) (nat (MaxEntries rq)) (qw_kernel w) = (res, k2)"
  shows "serve_list (queue_ipc K pread) fr root w =
    (None, w\<lparr>qw_kernel := k2, outbox := outbox w @ list_answer (requestID fr) res\<rparr>)"
proof -
  have q: "ipc_kernel (queue_ipc K pread) = queue_kernel K" by (simp add: queue_ipc_def)
  note l' = l [unfolded local_list_def]
  have g: "\<not> (MaxEntries rq < 1 \<or> DefaultMaxDirectoryEntries < MaxEntries rq
      \<or> validateRelativePath (ListPath rq) True \<noteq> Inr (ListPath rq))"
    using n p by (simp add: DefaultMaxDirectoryEntries_def)
  show ?thesis
  proof (cases res)
    case (Inl e)
    obtain pk where pk: "marshalStorageWorkerFrame
        (status_frame storageWorkerListResponse (requestID fr) (storageWorkerStatusForError e)) = Inr pk"
      using marshal_status_frame [OF rid] by blast
    show ?thesis
      unfolding serve_list_def rq q using g by (simp add: l' Inl list_answer_def packet_of_def pk queue_send_error [OF pk])
  next
    case (Inr es)
    have "\<forall>e\<in>set es. acceptable_entry e \<and> length (EntryName e) \<le> 255" "length es \<le> nat (MaxEntries rq)"
      using listing_acceptable [OF dc] l Inr by (auto simp: local_list_def)
    then have "length (marshal_entries es) \<le> storageWorkerMaxListPayload"
      using n(2) by (intro marshal_entries_length) auto
    then show ?thesis
      unfolding serve_list_def rq q using g
      by (simp add: l' Inr list_answer_def chunks_queued [OF rid] marshal_entries_nonempty Let_def not_less [symmetric])
  qed
qed

lemma answer_received:
  assumes dc: "directory_contract K" and rid: "rid \<noteq> 0" and n: "n \<le> 1000"
    and l: "local_list K root path n k = (res, k2)"
    and v: "outbox (sv_worker v) = list_answer rid res" "sv_phase v = WorkerExited True"
  shows "receive_listing (served_session euid K pread) rid t n v =
    (reported res, v\<lparr>sv_worker := (sv_worker v)\<lparr>outbox := []\<rparr>\<rparr>)"
proof -
  let ?S = "served_session euid K pread"
  have fin: "finishNormally ?S t u = (None, u)" if "sv_phase u = WorkerExited True" for t u
    using that by (simp add: finishNormally_def served_session_def)
  show ?thesis
  proof (cases res)
    case (Inl e)
    let ?fr = "status_frame storageWorkerListResponse rid (storageWorkerStatusForError e)"
    obtain pk where pk: "marshalStorageWorkerFrame ?fr = Inr pk" using marshal_status_frame [OF rid] by blast
    have "receiveStorageWorkerFrame (ses_ipc ?S) t v = (Inr (?fr, []), v\<lparr>sv_worker := (sv_worker v)\<lparr>outbox := []\<rparr>\<rparr>)"
      by (rule served_receive_queued [OF pk]) (use v(1) in \<open>simp add: list_answer_def Inl packet_of_def pk\<close>)
    then have "list_step ?S rid t [] v =
        (Inl (storageWorkerError (storageWorkerStatusForError e)), v\<lparr>sv_worker := (sv_worker v)\<lparr>outbox := []\<rparr>\<rparr>)"
      using status_for_error [of e] v(2) by (simp add: list_step_def status_frame_def fin)
    then show ?thesis by (simp add: receive_listing_def list_receive.simps reported_def Inl)
  next
    case (Inr es)
    note acc = listing_acceptable [OF dc l [unfolded local_list_def Inr]]
    then have len: "length (marshal_entries es) \<le> storageWorkerMaxListPayload"
      using n by (intro marshal_entries_length) auto
    have "list_receive ?S rid t (take 0 (marshal_entries es)) v =
        (Inr (marshal_entries es), v\<lparr>sv_worker := (sv_worker v)\<lparr>outbox := []\<rparr>\<rparr>)"
      by (rule frames_received [OF rid len])
         (use v(1) len marshal_entries_nonempty in \<open>auto simp: list_answer_def Inr\<close>)
    moreover have "decodeStorageWorkerEntries (marshal_entries es) n = Inr es"
      using acc len by (intro decode_marshal_entries) (auto simp: list_all_iff)
    ultimately show ?thesis using v(2) by (simp add: receive_listing_def reported_def Inr fin)
  qed
qed

lemma next_request_id:
  obtains rid m1 where "nextRequestID m = (rid, m1)" "rid \<noteq> 0" "mgr_root m1 = mgr_root m" "mgr_closed m1 = mgr_closed m"
    "mgr_mountID m1 = mgr_mountID m" "mgr_filesystemType m1 = mgr_filesystemType m"
  by (cases "nextRequestID m") (auto simp: nextRequestID_def Let_def split: if_splits)

text \<open>A request frame that carries a marshalled request.\<close>

abbreviation request_frame :: "u16 \<Rightarrow> u64 \<Rightarrow> bytes \<Rightarrow> storageWorkerFrame" where
  "request_frame op rid pl \<equiv>
     \<lparr> opcode = op, requestID = rid, status = storageWorkerStatusOK, flags = 0, payload = pl \<rparr>"

lemma marshal_request_frame:
  assumes "marshalStorageWorkerJSON j = Inr pl" "rid \<noteq> 0" "op = storageWorkerListRequest \<or> op = storageWorkerOpenRequest"
  obtains pk where "marshalStorageWorkerFrame (request_frame op rid pl) = Inr pk"
proof (rule marshal_valid)
  show "validStorageWorkerFrameHeader (request_frame op rid pl)"
    using assms by (auto simp: validStorageWorkerFrameHeader_def opcode_defs status_defs)
  show "length (payload (request_frame op rid pl)) \<le> storageWorkerMaxFramePayload"
    using assms(1) by (auto simp: marshalStorageWorkerJSON_def Let_def split: if_splits)
qed

lemma manager_list_served:
  assumes dc: "directory_contract K" and n: "1 \<le> n" "n \<le> 1000"
    and path: "validateRelativePath path True = Inr path"
    and m: "\<not> mgr_closed m" "mgr_root m = Some fd" "0 \<le> fd" "fd < 2 ^ 31"
    and root: "secureRootFromWorkerFD K fd (mgr_mountID m) (mgr_filesystemType m) (qw_kernel (sv_worker v)) = (Inr root, k1)"
    and l: "local_list K root path n k1 = (res, k2)"
  shows "manager_list (served_session euid K pread) m path n v =
    (reported res, snd (nextRequestID m),
     \<lparr> sv_worker = \<lparr> qw_kernel = snd (local_close K root k2), inbox = [], outbox = [] \<rparr>, sv_phase = WorkerExited True \<rparr>)"
proof -
  let ?S = "served_session euid K pread" and ?I = "queue_ipc K pread"
  obtain rid m1 where id: "nextRequestID m = (rid, m1)" "rid \<noteq> 0" "mgr_root m1 = mgr_root m" "mgr_closed m1 = mgr_closed m"
    "mgr_mountID m1 = mgr_mountID m" "mgr_filesystemType m1 = mgr_filesystemType m" by (rule next_request_id)
  define rq where "rq = \<lparr> ListPath = path, MaxEntries = int n, ListMountID = mgr_mountID m, ListFilesystemType = mgr_filesystemType m \<rparr>"
  obtain pl where pl: "marshalStorageWorkerJSON (list_json rq) = Inr pl" "unmarshalStorageWorkerJSON list_of_json pl = Inr rq"
    by (rule list_request_crosses [OF path, of rq]) (use n in \<open>auto simp: rq_def\<close>)
  let ?fr = "request_frame storageWorkerListRequest rid pl"
  obtain pk where pk: "marshalStorageWorkerFrame ?fr = Inr pk" by (rule marshal_request_frame [OF pl(1) id(2)]) auto
  define q0 where "q0 = \<lparr> qw_kernel = qw_kernel (sv_worker v), inbox = [(pk, [fd])], outbox = [] \<rparr>"
  define v1 where "v1 = \<lparr> sv_worker = q0, sv_phase = AwaitList \<rparr>"
  define v2 where "v2 = \<lparr> sv_worker = \<lparr> qw_kernel = snd (local_close K root k2), inbox = [], outbox = list_answer rid res \<rparr>,
                          sv_phase = WorkerExited True \<rparr>"
  have "receiveStorageRootRequest ?I storageWorkerListRequest q0 = (Inr (?fr, root), q0\<lparr>inbox := [], qw_kernel := k1\<rparr>)"
    using worker_root_request [OF pk _ m(3, 4), of q0 storageWorkerListRequest "mgr_mountID m" "mgr_filesystemType m" K pread]
      root pl(2) id(2) by (simp add: q0_def validStorageWorkerRequestFrame_def request_identity_def rq_def)
  moreover have "serve_list ?I ?fr root (q0\<lparr>inbox := [], qw_kernel := k1\<rparr>) =
      (None, (q0\<lparr>inbox := [], qw_kernel := k1\<rparr>)\<lparr>qw_kernel := k2, outbox := [] @ list_answer rid res\<rparr>)"
    by (subst worker_serves_list [OF dc, where rq = rq and res = res and ?k2.0 = k2])
       (use pl id n path l in \<open>simp_all add: rq_def q0_def\<close>)
  ultimately have turn: "worker_turn euid K pread v1 = v2"
    by (simp add: worker_turn_def v1_def v2_def runStorageListWorker_def local_close_def q0_def on_kernel_def)
  have ans: "list_answer rid res \<noteq> []"
    by (auto simp: list_answer_def list_frames.simps marshal_entries_nonempty Let_def split: sum.split)
  have rcv: "receiveStorageWorkerFrame (ses_ipc ?S) t v1 = receiveStorageWorkerFrame (ses_ipc ?S) t v2" for t
    using served_receive_turn [of v1 euid K pread t] ans by (simp add: turn) (simp add: v1_def v2_def q0_def)
  have "receive_listing ?S rid t n v1 = receive_listing ?S rid t n v2" for t
    by (simp add: receive_listing_def list_receive.simps [of ?S rid t "[]"] list_step_def rcv)
  also have "receive_listing ?S rid t n v2 = (reported res, v2\<lparr>sv_worker := (sv_worker v2)\<lparr>outbox := []\<rparr>\<rparr>)" for t
    by (rule answer_received [OF dc id(2) n(2) l]) (simp_all add: v2_def)
  finally have rl: "receive_listing ?S rid t n v1 = (reported res, v2\<lparr>sv_worker := (sv_worker v2)\<lparr>outbox := []\<rparr>\<rparr>)" for t .
  have st: "ses_start ?S storageWorkerModeList v =
      (None, \<lparr> sv_worker = \<lparr> qw_kernel = qw_kernel (sv_worker v), inbox = [], outbox = [] \<rparr>, sv_phase = AwaitList \<rparr>)"
    by (simp add: served_session_def start_phase_def storageWorkerModeList_def storageWorkerModeBootstrap_def)
  have "sendRootRequest ?S m1 ?fr t \<lparr> sv_worker = \<lparr> qw_kernel = qw_kernel (sv_worker v), inbox = [], outbox = [] \<rparr>, sv_phase = AwaitList \<rparr>
      = (None, v1)" for t
    using m id by (simp add: sendRootRequest_def served_send_root [OF pk m(3, 4)] v1_def q0_def)
  moreover have "ses_stopContext ?S = (\<lambda>v. v)" by (simp add: served_session_def)
  ultimately show ?thesis using pl(1) id
    by (simp add: manager_list_def st rl Let_def rq_def) (simp add: v2_def)
qed

section \<open>Opening through a worker\<close>

definition open_answer :: "u64 \<Rightarrow> storage_error + int \<times> stat \<Rightarrow> storageWorkerFrame" where
  "open_answer rid res =
     (case res of
        Inl e \<Rightarrow> status_frame storageWorkerOpenResponse rid (storageWorkerStatusForError e)
      | Inr (fd, info) \<Rightarrow>
          request_frame storageWorkerOpenResponse rid
            (marshalStorageOpenResponse \<lparr> Size = st_size info, ModTimeUnixNano = UnixNano (st_mtim info) \<rparr>))"

definition opened_file :: "u64 \<Rightarrow> string \<Rightarrow> stat \<Rightarrow> isolatedStorageFile" where
  "opened_file rid path info =
     \<lparr> file_name = path_Base path, file_size = st_size info, file_modTime = UnixNano (st_mtim info),
       file_nextID = rid + 1, file_offset = 0, file_closed = False, file_sourceErr = None \<rparr>"

definition open_phase :: "u64 \<Rightarrow> storage_error + int \<times> stat \<Rightarrow> worker_phase" where
  "open_phase rid res = (case res of Inl _ \<Rightarrow> WorkerExited True | Inr (fd, _) \<Rightarrow> Serving fd (rid + 1))"

lemma marshal_open_answer:
  assumes "rid \<noteq> 0" obtains pk where "marshalStorageWorkerFrame (open_answer rid res) = Inr pk"
proof (rule marshal_valid)
  show "validStorageWorkerFrameHeader (open_answer rid res)"
    using assms status_for_error(3)
    by (auto simp: open_answer_def validStorageWorkerFrameHeader_def status_frame_def opcode_defs status_defs split: sum.split)
  show "length (payload (open_answer rid res)) \<le> storageWorkerMaxFramePayload"
    by (auto simp: open_answer_def status_frame_def marshalStorageOpenResponse_def storageWorkerMaxFramePayload_def split: sum.split)
qed

lemma worker_opens:
  assumes pk: "marshalStorageWorkerFrame (open_answer (requestID fr) res) = Inr pk"
    and rq: "unmarshalStorageWorkerJSON open_of_json (payload fr) = Inr rq"
    and p: "validateRelativePath (OpenPath rq) False = Inr (OpenPath rq)"
    and l: "local_openRegular K root (OpenPath rq) (qw_kernel w) = (res, k2)"
  shows "open_reply (queue_ipc K pread) fr root w =
    (case res of Inl _ \<Rightarrow> Inl None | Inr (fd, _) \<Rightarrow> Inr fd,
     w\<lparr>qw_kernel := snd (local_close K root k2), outbox := outbox w @ [(pk, [])]\<rparr>)"
proof (cases res)
  case (Inl e)
  then show ?thesis using p l pk
    by (simp add: open_reply_def rq Let_def local_openRegular_def local_close_def on_kernel_def open_answer_def queue_send_error)
next
  case (Inr a)
  obtain fd info where a: "a = (fd, info)" by (cases a)
  show ?thesis using p l queue_send [OF pk, of K pread]
    by (simp add: open_reply_def rq Let_def local_openRegular_def local_close_def on_kernel_def open_answer_def Inr a)
qed

lemma opened_size:
  assumes "directory_contract K" "local_openRegular K root path k = (Inr (fd, info), k')"
  shows "0 \<le> sint (st_size info)"
  using openRegular_Inr [OF assms(2) [unfolded local_openRegular_def]] assms(1) unfolding directory_contract_def by blast

lemma open_answer_accepted:
  assumes "case res of Inl _ \<Rightarrow> sv_phase v = WorkerExited True | Inr (fd, info) \<Rightarrow> 0 \<le> sint (st_size info)"
  shows "accept_open (served_session euid K pread) rid path (open_answer rid res) [] v =
    (reported (map_sum id (\<lambda>(fd, info). opened_file rid path info) res), v)"
proof (cases res)
  case (Inl e)
  then show ?thesis using assms status_for_error [of e]
    by (simp add: accept_open_def open_answer_def status_frame_def reported_def finishNormally_def served_session_def)
next
  case (Inr a)
  then show ?thesis using assms
    by (cases a) (simp add: accept_open_def open_answer_def reported_def opened_file_def open_codec.get_put)
qed

lemma open_turn_served:
  assumes pk: "marshalStorageWorkerFrame (request_frame storageWorkerOpenRequest rid pl) = Inr pk" "rid \<noteq> 0"
    and rq: "unmarshalStorageWorkerJSON open_of_json pl = Inr rq"
    and p: "validateRelativePath (OpenPath rq) False = Inr (OpenPath rq)" and fd: "0 \<le> fd" "fd < 2 ^ 31"
    and root: "secureRootFromWorkerFD K fd (OpenMountID rq) (OpenFilesystemType rq) k = (Inr root, k1)"
    and l: "local_openRegular K root (OpenPath rq) k1 = (res, k2)"
    and ans: "marshalStorageWorkerFrame (open_answer rid res) = Inr pk2"
  shows "worker_turn euid K pread
      \<lparr> sv_worker = \<lparr> qw_kernel = k, inbox = [(pk, [fd])], outbox = [] \<rparr>, sv_phase = AwaitOpen \<rparr> =
    \<lparr> sv_worker = \<lparr> qw_kernel = snd (local_close K root k2), inbox = [], outbox = [(pk2, [])] \<rparr>,
      sv_phase = open_phase rid res \<rparr>"
proof -
  let ?fr = "request_frame storageWorkerOpenRequest rid pl" and ?q = "\<lparr> qw_kernel = k1, inbox = [], outbox = [] \<rparr>"
  have "storageWorkerOpenRequest \<noteq> storageWorkerListRequest" by (simp add: opcode_defs)
  then have "receiveStorageRootRequest (queue_ipc K pread) storageWorkerOpenRequest
      \<lparr> qw_kernel = k, inbox = [(pk, [fd])], outbox = [] \<rparr> = (Inr (?fr, root), ?q)"
    using worker_root_request [OF pk(1) _ fd, of "\<lparr> qw_kernel = k, inbox = [(pk, [fd])], outbox = [] \<rparr>"
        storageWorkerOpenRequest "OpenMountID rq" "OpenFilesystemType rq" K pread] root rq pk(2)
    by (simp add: validStorageWorkerRequestFrame_def request_identity_def)
  moreover have "open_reply (queue_ipc K pread) ?fr root ?q =
      (case res of Inl _ \<Rightarrow> Inl None | Inr (fd, _) \<Rightarrow> Inr fd,
       \<lparr> qw_kernel = snd (local_close K root k2), inbox = [], outbox = [(pk2, [])] \<rparr>)"
    using worker_opens [of ?fr res pk2 rq K root ?q k2] ans rq p l by simp
  ultimately show ?thesis by (auto simp: worker_turn_def open_turn_def open_phase_def split: sum.split)
qed

lemma manager_open_served:
  assumes dc: "directory_contract K" and path: "validateRelativePath path False = Inr path"
    and m: "\<not> mgr_closed m" "mgr_root m = Some fd" "0 \<le> fd" "fd < 2 ^ 31" "nextRequestID m = (rid, m1)"
    and root: "secureRootFromWorkerFD K fd (mgr_mountID m) (mgr_filesystemType m) (qw_kernel (sv_worker v)) = (Inr root, k1)"
    and l: "local_openRegular K root path k1 = (res, k2)"
  shows "manager_openRegular (served_session euid K pread) m path v =
    (reported (map_sum id (\<lambda>(fd, info). opened_file rid path info) res), m1,
     \<lparr> sv_worker = \<lparr> qw_kernel = snd (local_close K root k2), inbox = [], outbox = [] \<rparr>, sv_phase = open_phase rid res \<rparr>)"
proof -
  let ?S = "served_session euid K pread" and ?w = "\<lambda>ib. \<lparr> qw_kernel = qw_kernel (sv_worker v), inbox = ib, outbox = [] \<rparr>"
  have id: "rid \<noteq> 0" "mgr_root m1 = mgr_root m" "mgr_closed m1 = mgr_closed m"
    "mgr_mountID m1 = mgr_mountID m" "mgr_filesystemType m1 = mgr_filesystemType m"
    using m(5) next_request_id [of m] by (metis prod.inject)+
  define rq where "rq = \<lparr> OpenPath = path, OpenMountID = mgr_mountID m, OpenFilesystemType = mgr_filesystemType m \<rparr>"
  obtain pl where pl: "marshalStorageWorkerJSON (open_json rq) = Inr pl" "unmarshalStorageWorkerJSON open_of_json pl = Inr rq"
    by (rule open_request_crosses [OF path, of rq]) (auto simp: rq_def)
  let ?fr = "request_frame storageWorkerOpenRequest rid pl"
  obtain pk where pk: "marshalStorageWorkerFrame ?fr = Inr pk" by (rule marshal_request_frame [OF pl(1) id(1), of storageWorkerOpenRequest]) auto
  obtain pk2 where pk2: "marshalStorageWorkerFrame (open_answer rid res) = Inr pk2" by (rule marshal_open_answer [OF id(1)])
  define v1 where "v1 = \<lparr> sv_worker = ?w [(pk, [fd])], sv_phase = AwaitOpen \<rparr>"
  define v2 where "v2 = \<lparr> sv_worker = \<lparr> qw_kernel = snd (local_close K root k2), inbox = [], outbox = [] \<rparr>, sv_phase = open_phase rid res \<rparr>"
  have turn: "worker_turn euid K pread v1 = v2\<lparr>sv_worker := (sv_worker v2)\<lparr>outbox := [(pk2, [])]\<rparr>\<rparr>"
    unfolding v1_def v2_def
    by (subst open_turn_served [OF pk id(1) pl(2) _ m(3, 4) _ _ pk2]) (use path root l in \<open>simp_all add: rq_def\<close>)
  have "receiveStorageWorkerFrame (ses_ipc ?S) t v1 = (Inr (open_answer rid res, []), v2)" for t
    using served_receive_turn [of v1 euid K pread t] turn
      served_receive_queued [OF pk2, of "worker_turn euid K pread v1" "[]" euid K pread t] by (simp add: v1_def v2_def)
  moreover have "accept_open ?S rid path (open_answer rid res) [] v2 =
      (reported (map_sum id (\<lambda>(fd, info). opened_file rid path info) res), v2)"
    by (rule open_answer_accepted) (use opened_size [OF dc] l in \<open>auto simp: v2_def open_phase_def split: sum.split\<close>)
  moreover have "sendRootRequest ?S m1 ?fr t \<lparr> sv_worker = ?w [], sv_phase = AwaitOpen \<rparr> = (None, v1)" for t
    using m id by (simp add: sendRootRequest_def served_send_root [OF pk m(3, 4)] v1_def)
  moreover have "ses_start ?S storageWorkerModeFile v = (None, \<lparr> sv_worker = ?w [], sv_phase = AwaitOpen \<rparr>)"
    by (simp add: served_session_def start_phase_def storageWorkerModeList_def storageWorkerModeBootstrap_def storageWorkerModeFile_def)
  ultimately show ?thesis using pl(1) id m(5)
    by (simp add: manager_openRegular_def Let_def rq_def) (simp add: v2_def)
qed

lemma opened_in_step:
  assumes "reads_file pread ofd d I" "I k" "length d < 2 ^ 63" "st_size info = of_nat (length d)" "unat rid + q < 2 ^ 64"
  shows "served_at pread q d 0 (opened_file rid path info)
    \<lparr> sv_worker = \<lparr> qw_kernel = k, inbox = [], outbox = [] \<rparr>, sv_phase = Serving ofd (rid + 1) \<rparr>"
proof -
  have "q = 0 \<or> rid + 1 \<noteq> 0 \<and> unat (rid + 1) + q \<le> 2 ^ 64"
  proof (cases q)
    case (Suc n)
    then have "unat rid + 1 < 2 ^ 64" using assms(5) by simp
    then have "unat (rid + 1) = unat rid + 1" by (simp add: unat_word_ariths)
    then show ?thesis using assms(5) by auto
  qed simp
  then show ?thesis using assms(1-4) by (auto simp: served_at_def opened_file_def)
qed

section \<open>The isolated backend refines the local one\<close>

text \<open>C14. Listing through a disposable worker is listing directly: over a kernel whose directory names and
  sizes are legal, the portal receives exactly the entries the local backend returns, however many
  frames they take, or the protocol's class of the same error; the receiving loop ends, the worker has
  exited cleanly and the kernel is in the state the direct call leaves after closing the root.\<close>

theorem isolated_listing_is_local:
  assumes "directory_contract K" and "1 \<le> n" "n \<le> 1000"
    and "validateRelativePath path True = Inr path"
    and "\<not> mgr_closed m" "mgr_root m = Some fd" "0 \<le> fd" "fd < 2 ^ 31"
    and "secureRootFromWorkerFD K fd (mgr_mountID m) (mgr_filesystemType m) (qw_kernel (sv_worker v)) = (Inr root, k1)"
    and "local_list K root path n k1 = (res, k2)"
    and "manager_list (served_session euid K pread) m path n v = (out, m', v')"
  shows "out = (case res of Inl e \<Rightarrow> Inl (storageWorkerError (storageWorkerStatusForError e)) | Inr es \<Rightarrow> Inr es) \<and>
    sv_phase v' = WorkerExited True \<and> qw_kernel (sv_worker v') = snd (local_close K root k2)"
  using manager_list_served [OF assms(1-10), of euid pread] assms(11) by (auto simp: reported_def)

text \<open>C15. Opening through a disposable worker is opening directly: the portal's file has the size and
  modification time the local backend reports, and when positional reads of the worker's descriptor
  deliver the bytes of the file, portal and worker stand in step at its beginning, for every number of
  reads up to the wrap of the request id; an error arrives as its class and the worker has exited.\<close>

theorem isolated_open_is_local:
  assumes "directory_contract K" and "validateRelativePath path False = Inr path"
    and "\<not> mgr_closed m" "mgr_root m = Some fd" "0 \<le> fd" "fd < 2 ^ 31" "nextRequestID m = (rid, m1)"
    and "secureRootFromWorkerFD K fd (mgr_mountID m) (mgr_filesystemType m) (qw_kernel (sv_worker v)) = (Inr root, k1)"
    and "local_openRegular K root path k1 = (res, k2)"
    and "manager_openRegular (served_session euid K pread) m path v = (out, m', v')"
  shows "qw_kernel (sv_worker v') = snd (local_close K root k2) \<and>
    (case res of
       Inl e \<Rightarrow> out = Inl (storageWorkerError (storageWorkerStatusForError e)) \<and> sv_phase v' = WorkerExited True
     | Inr (ofd, info) \<Rightarrow>
         \<exists>f. out = Inr f \<and> file_size f = st_size info \<and> file_modTime f = UnixNano (st_mtim info) \<and>
           (\<forall>d q I. reads_file pread ofd d I \<and> I (snd (local_close K root k2)) \<and> length d < 2 ^ 63 \<and>
              st_size info = of_nat (length d) \<and> unat rid + q < 2 ^ 64 \<longrightarrow> served_at pread q d 0 f v'))"
proof -
  have o: "out = reported (map_sum id (\<lambda>(fd, info). opened_file rid path info) res)" "m' = m1"
    "v' = \<lparr> sv_worker = \<lparr> qw_kernel = snd (local_close K root k2), inbox = [], outbox = [] \<rparr>, sv_phase = open_phase rid res \<rparr>"
    using manager_open_served [OF assms(1-9), of euid pread] assms(10) by auto
  show ?thesis
  proof (cases res)
    case (Inl e)
    then show ?thesis using o by (simp add: reported_def open_phase_def)
  next
    case (Inr a)
    then show ?thesis using o opened_in_step by (cases a) (auto simp: reported_def open_phase_def, auto simp: opened_file_def)
  qed
qed
text \<open>A share whose root is descriptor 1, for the evaluations.\<close>

definition demo_share :: "string list \<Rightarrow> demo_state kernel" where
  "demo_share names = (demo_kernel S_IFREG names)\<lparr>sys_fstat := (\<lambda>fd s.
     (Inr \<lparr> st_mode = (if fd = 1 then S_IFDIR else S_IFREG), st_nlink = 1, st_dev = 1, st_ino = 2,
            st_size = (if fd = 1 then 4096 else 3), st_uid = 0, st_gid = 0, st_mtim = (0, 0), st_ctim = (0, 0) \<rparr>, s))\<rparr>"

definition demo_root :: secureRoot where
  "demo_root = \<lparr> root_file = Some 1, root_mountID = 7, root_filesystemType = 0xEF53, root_closed = False \<rparr>"

definition demo_manager :: manager where
  "demo_manager = \<lparr> mgr_root = Some 1, mgr_mountID = 7, mgr_filesystemType = 0xEF53, mgr_closed = False, mgr_requestID = 4 \<rparr>"

definition demo_session :: "demo_state served" where
  "demo_session = \<lparr> sv_worker = \<lparr> qw_kernel = (3, {1}), inbox = [], outbox = [] \<rparr>, sv_phase = WorkerExited True \<rparr>"

lemma demo_share_contract: "directory_contract (demo_share [''a'', ''c''])"
  by (auto simp: directory_contract_def demo_share_def demo_kernel_def Let_def)

lemma demo_share_root:
  "secureRootFromWorkerFD (demo_share names) 1 (mgr_mountID demo_manager) (mgr_filesystemType demo_manager)
     (qw_kernel (sv_worker demo_session)) = (Inr demo_root, (3, {1}))"
  by (simp add: secureRootFromWorkerFD_def demo_share_def demo_kernel_def demo_manager_def demo_session_def demo_root_def
      inspectPublicRootFilesystem_def publicRootMountID_def publicRootFilesystemName_def S_IFDIR_def S_IFMT_def
      EXT4_SUPER_MAGIC_def XFS_SUPER_MAGIC_def BTRFS_SUPER_MAGIC_def TMPFS_MAGIC_def F2FS_SUPER_MAGIC_def Let_def)

lemma demo_share_list:
  "local_list (demo_share [''a'', ''c'']) demo_root [] 5 (3, {1}) =
   (Inr [\<lparr> EntryName = ''a'', EntryType = ''file'', EntrySize = 3 \<rparr>,
         \<lparr> EntryName = ''c'', EntryType = ''file'', EntrySize = 3 \<rparr>], (6, {1}))"
  by (simp add: local_list_def secureRoot_list_def secureRoot_open_def publicRootMountID_def demo_share_def demo_kernel_def
      demo_root_def visible_name_def stat_entry_def S_IFREG_def S_IFDIR_def S_IFMT_def isSafeVisibleName_def text_eval Let_def)

lemma demo_share_open:
  "local_openRegular (demo_share names) demo_root ''a'' (3, {1}) =
   (Inr (4, \<lparr> st_mode = S_IFREG, st_nlink = 1, st_dev = 1, st_ino = 2, st_size = 3, st_uid = 0, st_gid = 0,
              st_mtim = (0, 0), st_ctim = (0, 0) \<rparr>), (5, {1, 4}))"
  by (simp add: local_openRegular_def secureRoot_openRegular_def secureRoot_openRegularWith_def secureRoot_open_def
      openPinnedRegularValidated_def pinned_body_def check_reopened_def reopenPinnedRegular_def publicRootMountID_def
      demo_share_def demo_kernel_def demo_root_def isSingleLinkRegular_def S_IFREG_def S_IFMT_def Let_def) auto

theorem isolated_listing_is_local_witness:
  "\<exists>m' v'. manager_list (served_session 0 (demo_share [''a'', ''c'']) memory_pread) demo_manager [] 5 demo_session =
     (Inr [\<lparr> EntryName = ''a'', EntryType = ''file'', EntrySize = 3 \<rparr>,
           \<lparr> EntryName = ''c'', EntryType = ''file'', EntrySize = 3 \<rparr>], m', v') \<and> sv_phase v' = WorkerExited True"
proof -
  obtain out m' v' where o: "manager_list (served_session 0 (demo_share [''a'', ''c'']) memory_pread) demo_manager [] 5
      demo_session = (out, m', v')" by (metis prod.exhaust)
  have "\<not> mgr_closed demo_manager" "mgr_root demo_manager = Some 1" by (simp_all add: demo_manager_def)
  moreover have "validateRelativePath [] True = Inr []" by (simp add: validateRelativePath_def)
  ultimately show ?thesis
    using isolated_listing_is_local [OF demo_share_contract _ _ _ _ _ _ _ demo_share_root demo_share_list o] o by simp
qed

theorem isolated_open_is_local_witness:
  "\<exists>f m' v'. manager_openRegular (served_session 0 (demo_share [''a'', ''c'']) memory_pread) demo_manager ''a'' demo_session =
     (Inr f, m', v') \<and> file_size f = 3 \<and> served_at memory_pread 9 [10, 20, 30] 0 f v'"
proof -
  obtain out m' v' where o: "manager_openRegular (served_session 0 (demo_share [''a'', ''c'']) memory_pread) demo_manager ''a''
      demo_session = (out, m', v')" by (metis prod.exhaust)
  have "\<not> mgr_closed demo_manager" "mgr_root demo_manager = Some 1"
    "nextRequestID demo_manager = (5, demo_manager\<lparr>mgr_requestID := 5\<rparr>)"
    by (simp_all add: demo_manager_def nextRequestID_def)
  moreover have "validateRelativePath ''a'' False = Inr ''a''"
    by (simp add: validateRelativePath_def forbidden_component_def isSafeVisibleName_def text_eval)
  ultimately obtain f where f: "out = Inr f" "file_size f = 3"
    "\<And>d q I. reads_file memory_pread 4 d I \<and> I (snd (local_close (demo_share [''a'', ''c'']) demo_root (5, {1, 4}))) \<and>
       length d < 2 ^ 63 \<and> (3 :: i64) = of_nat (length d) \<and> unat (5 :: u64) + q < 2 ^ 64 \<Longrightarrow> served_at memory_pread q d 0 f v'"
    using isolated_open_is_local [OF demo_share_contract _ _ _ _ _ _ demo_share_root demo_share_open o]
    by (auto simp: o)
  have "served_at memory_pread 9 [10, 20, 30] 0 f v'"
    by (rule f(3) [where I = "\<lambda>k. True"]) (simp add: memory_reads)
  then show ?thesis using o f by blast
qed

end
