(* ===== verification/Serve_Content.thy ===== *)
theory Serve_Content
  imports Go_Http Isolated_Storage
begin

text \<open>
  \<open>http.ServeContent\<close> as the portal calls it, with a zero modification time, over the file interface
  of \<open>pkg/publicfiles/storage.go\<close>: conditional requests, one byte range, and the copy loop of
  \<open>io.CopyN\<close>. A file whose reads and seeks follow its content is served completely: the body is the
  requested slice and the copy loop ends.
\<close>

section \<open>Files and backends\<close>

text \<open>\<open>storageFile\<close> with the optional \<open>sourceError\<close>; \<open>'x\<close> is the open file with the world around it and
  \<open>'s\<close> the storage it returns to when closed.\<close>

record ('x, 's) storageFile =
  sf_Read :: "nat \<Rightarrow> 'x \<Rightarrow> (bytes \<times> storage_error option) \<times> 'x"
  sf_Seek :: "i64 \<Rightarrow> whence \<Rightarrow> 'x \<Rightarrow> (storage_error + i64) \<times> 'x"
  sf_Close :: "'x \<Rightarrow> 's"
  sf_sourceError :: "'x \<Rightarrow> storage_error option"

record ('x, 's) storageBackend =
  be_list :: "string \<Rightarrow> nat \<Rightarrow> 's \<Rightarrow> (storage_error + Entry list) \<times> 's"
  be_openRegular :: "string \<Rightarrow> 's \<Rightarrow> storage_error \<times> 's + i64 \<times> 'x"
  be_file :: "('x, 's) storageFile"

section \<open>Conditional requests\<close>

datatype condResult = condNone | condTrue | condFalse

definition header_space :: "char \<Rightarrow> bool" where
  "header_space c \<longleftrightarrow> c \<in> {CHR '' '', CHR 0x09, CHR 0x0A, CHR 0x0D}"

definition TrimString :: "string \<Rightarrow> string" where
  "TrimString s = rev (dropWhile header_space (rev (dropWhile header_space s)))"

lemma TrimString_length: "length (TrimString s) \<le> length s"
  using length_dropWhile_le [of header_space "rev (dropWhile header_space s)"] length_dropWhile_le [of header_space s]
  by (simp add: TrimString_def)

definition etag_char :: "char \<Rightarrow> bool" where
  "etag_char c \<longleftrightarrow>
     (let n = of_char c :: nat in n = 0x21 \<or> 0x23 \<le> n \<and> n \<le> 0x7E \<or> 0x80 \<le> n)"

text \<open>The entity tag at the start of the text and what follows it; an empty tag when there is none.\<close>

definition scanETag :: "string \<Rightarrow> string \<times> string" where
  "scanETag s0 =
     (let s = TrimString s0; start = (if prefix ''W/'' s then 2 else 0); t = drop start s in
      if length t < 2 \<or> hd t \<noteq> CHR 0x22 then ([], [])
      else let inner = takeWhile etag_char (tl t); r = drop (length inner) (tl t) in
        if r \<noteq> [] \<and> hd r = CHR 0x22 then (take start s @ [CHR 0x22] @ inner @ [CHR 0x22], tl r) else ([], []))"

lemma scanETag_shorter:
  assumes "scanETag s = (e, r)" "e \<noteq> []" shows "length r < length s"
proof -
  let ?s = "TrimString s"
  let ?t = "drop (if prefix ''W/'' ?s then 2 else 0) ?s"
  let ?r = "drop (length (takeWhile etag_char (tl ?t))) (tl ?t)"
  have "r = tl ?r" "?r \<noteq> []" using assms by (auto simp: scanETag_def Let_def split: if_splits)
  then have "length r < length ?r" by simp
  also have "\<dots> \<le> length ?s" by simp
  finally show ?thesis using TrimString_length [of s] by simp
qed

definition etagStrongMatch :: "string \<Rightarrow> string \<Rightarrow> bool" where
  "etagStrongMatch a b \<longleftrightarrow> a = b \<and> a \<noteq> [] \<and> hd a = CHR 0x22"

definition etagWeakMatch :: "string \<Rightarrow> string \<Rightarrow> bool" where
  "etagWeakMatch a b \<longleftrightarrow> strings_TrimPrefix a ''W/'' = strings_TrimPrefix b ''W/''"

text \<open>Whether a list of entity tags holds the wildcard or a tag that matches.\<close>

function etag_list_matches :: "(string \<Rightarrow> bool) \<Rightarrow> string \<Rightarrow> bool" where
  "etag_list_matches m buf0 =
     (let buf = TrimString buf0 in
      if buf = [] then False
      else if hd buf = CHR '','' then etag_list_matches m (tl buf)
      else if hd buf = CHR ''*'' then True
      else let (e, r) = scanETag buf in
        if e = [] then False else if m e then True else etag_list_matches m r)"
  by pat_completeness auto
termination
proof (relation "measure (length \<circ> snd)", goal_cases)
  case (2 m buf0 buf)
  then have "0 < length (TrimString buf0)" by simp
  then show ?case using TrimString_length [of buf0] 2 by (simp del: length_greater_0_conv)
next
  case (3 m buf0 buf x e r)
  then have "length r < length buf" using scanETag_shorter [of buf e r] by simp
  then show ?case using 3 TrimString_length [of buf0] by simp
qed simp

declare etag_list_matches.simps [simp del]

definition checkIfMatch :: "header \<Rightarrow> request \<Rightarrow> condResult" where
  "checkIfMatch h r =
     (let im = header_Get (req_Header r) ''If-Match'' in
      if im = [] then condNone
      else if etag_list_matches (\<lambda>e. etagStrongMatch e (header_Get h ''Etag'')) im then condTrue else condFalse)"

definition checkIfNoneMatch :: "header \<Rightarrow> request \<Rightarrow> condResult" where
  "checkIfNoneMatch h r =
     (let inm = header_Get (req_Header r) ''If-None-Match'' in
      if inm = [] then condNone
      else if etag_list_matches (\<lambda>e. etagWeakMatch e (header_Get h ''Etag'')) inm then condFalse else condTrue)"

text \<open>With a zero modification time the date conditions are absent and a date in \<open>If-Range\<close> fails.\<close>

definition checkIfRange :: "header \<Rightarrow> request \<Rightarrow> condResult" where
  "checkIfRange h r =
     (if req_Method r \<noteq> ''GET'' \<and> req_Method r \<noteq> ''HEAD'' then condNone
      else let ir = header_Get (req_Header r) ''If-Range'' in
        if ir = [] then condNone
        else let e = fst (scanETag ir) in
          if e \<noteq> [] then (if etagStrongMatch e (header_Get h ''Etag'') then condTrue else condFalse)
          else condFalse)"

definition writeNotModified :: "'c responseWriter \<Rightarrow> 'c \<Rightarrow> 'c" where
  "writeNotModified W c =
     (let c1 = rw_Del W ''Content-Encoding'' (rw_Del W ''Content-Length'' (rw_Del W ''Content-Type'' c));
          c2 = (if header_Get (rw_Header W c1) ''Etag'' \<noteq> [] then rw_Del W ''Last-Modified'' c1 else c1)
      in rw_WriteHeader W StatusNotModified c2)"

text \<open>The writer when the request is answered already, or the range the body must honour.\<close>

definition checkPreconditions :: "'c responseWriter \<Rightarrow> request \<Rightarrow> 'c \<Rightarrow> 'c + string" where
  "checkPreconditions W r c =
     (if checkIfMatch (rw_Header W c) r = condFalse then Inl (rw_WriteHeader W StatusPreconditionFailed c)
      else if checkIfNoneMatch (rw_Header W c) r = condFalse
      then Inl (if req_Method r = ''GET'' \<or> req_Method r = ''HEAD'' then writeNotModified W c
                else rw_WriteHeader W StatusPreconditionFailed c)
      else let rangeHeader = header_Get (req_Header r) ''Range'' in
        Inr (if rangeHeader \<noteq> [] \<and> checkIfRange (rw_Header W c) r = condFalse then [] else rangeHeader))"

section \<open>Byte ranges\<close>

datatype range_error = errNoOverlap | invalidRange

text \<open>One range specification: nothing (blank), a specification past the end, or a start and a length.\<close>

datatype range_spec = Blank | PastEnd | Range int int

definition parse_range_spec :: "string \<Rightarrow> int \<Rightarrow> range_error + range_spec" where
  "parse_range_spec ra0 fsize =
     (let ra = TrimString ra0 in
      if ra = [] then Inr Blank
      else case strings_Cut (CHR ''-'') ra of
        None \<Rightarrow> Inl invalidRange
      | Some (a, b) \<Rightarrow>
          let start = TrimString a; stop = TrimString b in
          if start = []
          then (if stop = [] \<or> hd stop = CHR ''-'' then Inl invalidRange
                else case strconv_ParseInt stop 64 of
                  None \<Rightarrow> Inl invalidRange
                | Some i \<Rightarrow>
                    if i < 0 then Inl invalidRange
                    else let n = (if fsize < i then fsize else i) in Inr (Range (fsize - n) (fsize - (fsize - n))))
          else (case strconv_ParseInt start 64 of
                  None \<Rightarrow> Inl invalidRange
                | Some i \<Rightarrow>
                    if i < 0 then Inl invalidRange
                    else if fsize \<le> i then Inr PastEnd
                    else if stop = [] then Inr (Range i (fsize - i))
                    else (case strconv_ParseInt stop 64 of
                            None \<Rightarrow> Inl invalidRange
                          | Some j \<Rightarrow>
                              if j < i then Inl invalidRange
                              else let k = (if fsize \<le> j then fsize - 1 else j) in Inr (Range i (k - i + 1)))))"

fun parse_range_specs :: "string list \<Rightarrow> int \<Rightarrow> range_error + range_spec list" where
  "parse_range_specs [] fsize = Inr []"
| "parse_range_specs (ra # ras) fsize =
     (case parse_range_spec ra fsize of
        Inl e \<Rightarrow> Inl e
      | Inr sp \<Rightarrow> (case parse_range_specs ras fsize of Inl e \<Rightarrow> Inl e | Inr sps \<Rightarrow> Inr (sp # sps)))"

definition parseRange :: "string \<Rightarrow> int \<Rightarrow> range_error + (int \<times> int) list" where
  "parseRange s fsize =
     (if s = [] then Inr []
      else if \<not> prefix ''bytes='' s then Inl invalidRange
      else case parse_range_specs (splitOn (CHR '','') (drop 6 s)) fsize of
        Inl e \<Rightarrow> Inl e
      | Inr sps \<Rightarrow>
          let ranges = List.map_filter (\<lambda>sp. case sp of Range a b \<Rightarrow> Some (a, b) | _ \<Rightarrow> None) sps in
          if PastEnd \<in> set sps \<and> ranges = [] then Inl errNoOverlap else Inr ranges)"

section \<open>Serving\<close>

definition range_error_text :: "range_error \<Rightarrow> string" where
  "range_error_text e =
     (case e of errNoOverlap \<Rightarrow> ''invalid range: failed to overlap'' | invalidRange \<Rightarrow> ''invalid range'')"

text \<open>\<open>serveError\<close>: the representation headers go, \<open>http.Error\<close> writes the text.\<close>

definition serveError :: "'c responseWriter \<Rightarrow> string \<Rightarrow> nat \<Rightarrow> 'c \<Rightarrow> 'c" where
  "serveError W msg code c =
     (let c1 = rw_Del W ''Last-Modified'' (rw_Del W ''Etag'' (rw_Del W ''Content-Encoding'' (rw_Del W ''Cache-Control'' c)));
          c2 = rw_Set W ''X-Content-Type-Options'' ''nosniff''
                 (rw_Set W ''Content-Type'' ''text/plain; charset=utf-8'' (rw_Del W ''Content-Length'' c1))
      in snd (rw_Write W (bytes_of_string (msg @ [CHR 0x0A])) (rw_WriteHeader W code c2)))"

text \<open>\<open>io.CopyN\<close> through the copy buffer: \<open>n\<close> bytes are still wanted.\<close>

partial_function (option) copy_loop ::
    "'c responseWriter \<Rightarrow> ('x, 's) storageFile \<Rightarrow> nat \<Rightarrow> nat \<Rightarrow> 'c \<Rightarrow> 'x \<Rightarrow> ('c \<times> 'x) option" where
  "copy_loop W F buf n c x =
     (if n = 0 then Some (c, x)
      else case sf_Read F (min buf n) x of
        ((data, e), x1) \<Rightarrow>
          if data \<noteq> []
          then (case rw_Write W data c of
                  ((nw, ew), c1) \<Rightarrow>
                    if ew \<noteq> None \<or> nw \<noteq> length data \<or> e \<noteq> None then Some (c1, x1)
                    else copy_loop W F buf (n - length data) c1 x1)
          else if e \<noteq> None then Some (c, x1)
          else copy_loop W F buf n c x1)"

definition copy_buffer_size :: "nat \<Rightarrow> nat" where
  "copy_buffer_size n = (if n < 32 * 1024 then (if n < 1 then 1 else n) else 32 * 1024)"

definition content_range :: "int \<Rightarrow> int \<Rightarrow> int \<Rightarrow> string" where
  "content_range start len fsize =
     ''bytes '' @ strconv_FormatInt start @ ''-'' @ strconv_FormatInt (start + len - 1) @ ''/'' @ strconv_FormatInt fsize"

text \<open>The end of \<open>serveContent\<close>: the headers of the representation, then the body.\<close>

definition send_content ::
    "'c responseWriter \<Rightarrow> ('x, 's) storageFile \<Rightarrow> request \<Rightarrow> nat \<Rightarrow> bool \<Rightarrow> int \<Rightarrow> 'c \<Rightarrow> 'x \<Rightarrow> ('c \<times> 'x) option" where
  "send_content W F r code ranged sendSize c x =
     (let c1 = rw_Set W ''Accept-Ranges'' ''bytes'' c;
          c2 = (if ranged \<or> header_Get (rw_Header W c1) ''Content-Encoding'' = []
                then rw_Set W ''Content-Length'' (strconv_FormatInt sendSize) c1 else c1);
          c3 = rw_WriteHeader W code c2
      in if req_Method r = ''HEAD'' then Some (c3, x)
         else copy_loop W F (copy_buffer_size (nat sendSize)) (nat sendSize) c3 x)"

definition seek_size :: "('x, 's) storageFile \<Rightarrow> 'x \<Rightarrow> i64 option \<times> 'x" where
  "seek_size F x =
     (case sf_Seek F 0 SeekEnd x of
        (Inl _, x1) \<Rightarrow> (None, x1)
      | (Inr fsize, x1) \<Rightarrow> (case sf_Seek F 0 SeekStart x1 of (Inl _, x2) \<Rightarrow> (None, x2) | (Inr _, x2) \<Rightarrow> (Some fsize, x2)))"

text \<open>The portal refuses several ranges before it calls \<open>ServeContent\<close>, so the multipart answer is not
  modelled: it is the value \<open>None\<close>, and the theorems about the portal show that it is never taken.\<close>

definition serve_ranges ::
    "'c responseWriter \<Rightarrow> ('x, 's) storageFile \<Rightarrow> (storage_error \<Rightarrow> string) \<Rightarrow> request \<Rightarrow> (int \<times> int) list \<Rightarrow> int \<Rightarrow>
     'c \<Rightarrow> 'x \<Rightarrow> ('c \<times> 'x) option" where
  "serve_ranges W F errText r ranges0 fsize c x =
     (let ranges = (if fsize < sum_list (map snd ranges0) then [] else ranges0) in
      case ranges of
        [(start, len)] \<Rightarrow>
          (case sf_Seek F (word_of_int start) SeekStart x of
             (Inl e, x1) \<Rightarrow> Some (serveError W (errText e) StatusRequestedRangeNotSatisfiable c, x1)
           | (Inr _, x1) \<Rightarrow>
               send_content W F r StatusPartialContent True len
                 (rw_Set W ''Content-Range'' (content_range start len fsize) c) x1)
      | [] \<Rightarrow> send_content W F r StatusOK False fsize c x
      | _ \<Rightarrow> None)"

definition ServeContent ::
    "'c responseWriter \<Rightarrow> ('x, 's) storageFile \<Rightarrow> (storage_error \<Rightarrow> string) \<Rightarrow> request \<Rightarrow> 'c \<Rightarrow> 'x \<Rightarrow> ('c \<times> 'x) option" where
  "ServeContent W F errText r c x =
     (case checkPreconditions W r c of
        Inl c1 \<Rightarrow> Some (c1, x)
      | Inr rangeReq \<Rightarrow>
          (case seek_size F x of
             (None, x1) \<Rightarrow> Some (serveError W ''seeker can't seek'' StatusInternalServerError c, x1)
           | (Some sz, x1) \<Rightarrow>
               let fsize = sint sz in
               if fsize < 0 then Some (serveError W ''negative content size computed'' StatusInternalServerError c, x1)
               else (case parseRange rangeReq fsize of
                       Inr ranges \<Rightarrow> serve_ranges W F errText r ranges fsize c x1
                     | Inl e \<Rightarrow>
                         if e = errNoOverlap \<and> fsize = 0 then serve_ranges W F errText r [] fsize c x1
                         else let c1 = (if e = errNoOverlap
                                        then rw_Set W ''Content-Range'' (''bytes */'' @ strconv_FormatInt fsize) c else c)
                           in Some (serveError W (range_error_text e) StatusRequestedRangeNotSatisfiable c1, x1))))"

section \<open>The copy loop\<close>

text \<open>What every read and write keeps holds when the loop ends.\<close>

lemma copy_loop_invariant:
  assumes "copy_loop W F b n c x = Some (c', x')" and "Q c x"
    and step: "\<And>m c x data e x1. Q c x \<Longrightarrow> sf_Read F m x = ((data, e), x1) \<Longrightarrow>
      (if data = [] then Q c x1 else Q (snd (rw_Write W data c)) x1)"
  shows "Q c' x'"
proof -
  have *: "V = W \<and> G = F \<longrightarrow> Q c x \<longrightarrow> Q (fst y) (snd y)" if "copy_loop V G b n c x = Some y" for V G b n c x y
  proof (rule copy_loop.raw_induct [of "\<lambda>V G b n c x y. V = W \<and> G = F \<longrightarrow> Q c x \<longrightarrow> Q (fst y) (snd y)"
        "(((((V, G), b), n), c), x)" y, simplified prod.case], goal_cases)
    case (1 rec V G b n c x y)
    show ?case
    proof (intro impI, elim conjE)
      assume g: "Q c x" "V = W" "G = F"
      obtain data e x1 where r: "sf_Read F (min b n) x = ((data, e), x1)" by (metis prod.exhaust)
      obtain nw ew c1 where w: "rw_Write W data c = ((nw, ew), c1)" by (metis prod.exhaust)
      have s: "if data = [] then Q c x1 else Q c1 x1" using step [OF g(1) r] w by (simp split: if_splits)
      show "Q (fst y) (snd y)" using 1 g r w s by (auto split: if_splits)
    qed
  qed (use that in simp)
  then show ?thesis using assms(1, 2) by force
qed

section \<open>The isolated backend\<close>

text \<open>The storage manager of the standalone service as a backend: a file carries the manager and the world
  of its session.\<close>

definition isolated_file ::
    "'w session \<Rightarrow> (isolatedStorageFile \<times> manager \<times> 'w, manager \<times> 'w) storageFile" where
  "isolated_file S =
     \<lparr> sf_Read = (\<lambda>n (f, m, w). case file_Read S n f w of (r, f1, w1) \<Rightarrow> (r, f1, m, w1)),
       sf_Seek = (\<lambda>off wh (f, m, w). case file_Seek off wh f of (r, f1) \<Rightarrow> (r, f1, m, w)),
       sf_Close = (\<lambda>(f, m, w). case file_Close S f w of (r, f1, w1) \<Rightarrow> (m, w1)),
       sf_sourceError = (\<lambda>(f, m, w). file_sourceErr f) \<rparr>"

definition isolated_backend ::
    "'w session \<Rightarrow> (isolatedStorageFile \<times> manager \<times> 'w, manager \<times> 'w) storageBackend" where
  "isolated_backend S =
     \<lparr> be_list = (\<lambda>path n (m, w). case manager_list S m path n w of (r, m1, w1) \<Rightarrow> (r, m1, w1)),
       be_openRegular = (\<lambda>path (m, w). case manager_openRegular S m path w of
          (Inl e, m1, w1) \<Rightarrow> Inl (e, m1, w1) | (Inr f, m1, w1) \<Rightarrow> Inr (file_size f, f, m1, w1)),
       be_file = isolated_file S \<rparr>"

section \<open>Serving a file completely\<close>

text \<open>A file that stands at a position of its content and allows \<open>q\<close> more reads: reads deliver the bytes at
  the position, seeks move it, and no source error is recorded.\<close>

locale content_file =
  fixes F :: "('x, 's) storageFile" and at :: "nat \<Rightarrow> bytes \<Rightarrow> nat \<Rightarrow> 'x \<Rightarrow> bool"
  assumes content_bound: "at q d off x \<Longrightarrow> length d < 2 ^ 63"
    and read_at: "at (Suc q) d off x \<Longrightarrow> 0 < n \<Longrightarrow> off < length d \<Longrightarrow>
      \<exists>k x'. sf_Read F n x = ((take k (drop off d), None), x') \<and> 0 < k \<and> k \<le> n \<and> off + k \<le> length d \<and>
        at q d (off + k) x'"
    and seek_end: "at q d off x \<Longrightarrow> \<exists>x'. sf_Seek F 0 SeekEnd x = (Inr (of_nat (length d)), x') \<and> at q d (length d) x'"
    and seek_start: "at q d off x \<Longrightarrow> i \<le> length d \<Longrightarrow>
      \<exists>x'. sf_Seek F (of_nat i) SeekStart x = (Inr (of_nat i), x') \<and> at q d i x'"
    and no_source_error: "at q d off x \<Longrightarrow> sf_sourceError F x = None"
    and fewer_reads: "at (Suc q) d off x \<Longrightarrow> at q d off x"

context content_file
begin

lemma fewer: "at (q + k) d off x \<Longrightarrow> at q d off x"
  by (induction k) (auto dest: fewer_reads)

end

text \<open>A writer that takes \<open>m\<close> more body bytes after \<open>b\<close>.\<close>

locale body_writer =
  fixes W :: "'c responseWriter" and open_body :: "nat \<Rightarrow> bytes \<Rightarrow> 'c \<Rightarrow> bool"
  assumes write_body: "open_body m b c \<Longrightarrow> data \<noteq> [] \<Longrightarrow> length data \<le> m \<Longrightarrow>
    \<exists>c'. rw_Write W data c = ((length data, None), c') \<and> open_body (m - length data) (b @ data) c'"

locale content_copy = content_file F at + body_writer W open_body
  for F :: "('x, 's) storageFile" and at :: "nat \<Rightarrow> bytes \<Rightarrow> nat \<Rightarrow> 'x \<Rightarrow> bool"
    and W :: "'c responseWriter" and open_body :: "nat \<Rightarrow> bytes \<Rightarrow> 'c \<Rightarrow> bool"
begin

text \<open>The copy loop ends and has copied exactly the bytes asked for.\<close>

lemma copy_complete:
  "at (n + q) d off x \<Longrightarrow> off + n \<le> length d \<Longrightarrow> 0 < buf \<Longrightarrow> n \<le> m \<Longrightarrow> open_body m b c \<Longrightarrow>
   \<exists>c' x'. copy_loop W F buf n c x = Some (c', x') \<and> at q d (off + n) x' \<and>
     open_body (m - n) (b @ take n (drop off d)) c'"
proof (induction n arbitrary: off x m b c rule: less_induct)
  case (less n)
  show ?case
  proof (cases "n = 0")
    case True
    then show ?thesis using less.prems by (auto simp: copy_loop.simps)
  next
    case False
    then have "at (Suc (n - 1 + q)) d off x" "0 < min buf n" "off < length d" using less.prems by auto
    from read_at [OF this] obtain k x1 where r: "sf_Read F (min buf n) x = ((take k (drop off d), None), x1)"
      "0 < k" "k \<le> min buf n" "off + k \<le> length d" "at (n - 1 + q) d (off + k) x1" by blast
    have lk: "length (take k (drop off d)) = k" using r(4) by simp
    then have ne: "take k (drop off d) \<noteq> []" using r(2) by auto
    obtain c1 where w: "rw_Write W (take k (drop off d)) c = ((k, None), c1)"
      "open_body (m - k) (b @ take k (drop off d)) c1"
      using write_body [OF less.prems(5) ne] less.prems(4) r(3) unfolding lk by auto
    have at': "at (n - k + q) d (off + k) x1" by (rule fewer [where k = "k - 1"]) (use r(2, 3, 5) in auto)
    have n': "n - k < n" "off + k + (n - k) \<le> length d" "n - k \<le> m - k"
      using False r(2, 3) less.prems(2, 4) by auto
    obtain c' x' where rec: "copy_loop W F buf (n - k) c1 x1 = Some (c', x')" "at q d (off + k + (n - k)) x'"
      "open_body (m - k - (n - k)) ((b @ take k (drop off d)) @ take (n - k) (drop (off + k) d)) c'"
      using less.IH [OF n'(1) at' n'(2) less.prems(3) n'(3) w(2)] by blast
    have "take n (drop off d) = take k (drop off d) @ take (n - k) (drop (off + k) d)"
      using r(3) take_add [of k "n - k" "drop off d"] by (simp add: add.commute)
    moreover have "copy_loop W F buf n c x = copy_loop W F buf (n - k) c1 x1"
      by (subst copy_loop.simps) (use False r(1) w(1) ne lk in simp)
    ultimately show ?thesis using rec r(3) by (auto simp: add.assoc)
  qed
qed

end

definition isolated_at ::
    "(int \<Rightarrow> nat \<Rightarrow> i64 \<Rightarrow> 'k \<Rightarrow> (errno + bytes) \<times> 'k) \<Rightarrow> nat \<Rightarrow> bytes \<Rightarrow> nat \<Rightarrow>
     isolatedStorageFile \<times> manager \<times> 'k served \<Rightarrow> bool" where
  "isolated_at pread q d off x \<longleftrightarrow> (case x of (f, m, v) \<Rightarrow> served_at pread q d off f v)"

lemma served_fewer: "served_at pread (Suc q) d off f v \<Longrightarrow> served_at pread q d off f v"
  by (auto simp: served_at_def)

interpretation isolated: content_file "isolated_file (served_session euid K pread)" "isolated_at pread" for euid K pread
proof unfold_locales
  fix q off n :: nat and d x
  assume a: "isolated_at pread (Suc q) d off x" "0 < n" "off < length d"
  obtain f m v where x: "x = (f, m, v)" by (metis prod.exhaust)
  obtain k f' v' where "file_Read (served_session euid K pread) n f v = ((take k (drop off d), None), f', v')"
    "0 < k" "k \<le> n" "off + k \<le> length d" "served_at pread q d (off + k) f' v'"
    by (rule served_Read [of pread q d off f v n euid K]) (use a in \<open>auto simp: isolated_at_def x\<close>)
  then show "\<exists>k x'. sf_Read (isolated_file (served_session euid K pread)) n x = ((take k (drop off d), None), x') \<and>
      0 < k \<and> k \<le> n \<and> off + k \<le> length d \<and> isolated_at pread q d (off + k) x'"
    by (intro exI [of _ k] exI [of _ "(f', m, v')"]) (simp add: isolated_file_def x isolated_at_def)
next
  fix q off :: nat and d x
  assume "isolated_at pread q d off x"
  then show "\<exists>x'. sf_Seek (isolated_file (served_session euid K pread)) 0 SeekEnd x = (Inr (of_nat (length d)), x') \<and>
      isolated_at pread q d (length d) x'"
    using served_Seek by (cases x) (fastforce simp: isolated_file_def isolated_at_def)
next
  fix q off i :: nat and d x
  assume "isolated_at pread q d off x" "i \<le> length d"
  then show "\<exists>x'. sf_Seek (isolated_file (served_session euid K pread)) (of_nat i) SeekStart x = (Inr (of_nat i), x') \<and>
      isolated_at pread q d i x'"
    using served_Seek by (cases x) (fastforce simp: isolated_file_def isolated_at_def)
qed (auto simp: isolated_at_def isolated_file_def served_fewer, auto simp: served_at_def)

end
