(* ===== verification/Download_Server.thy ===== *)
theory Download_Server
  imports Go_Http
begin

text \<open>
  The HTTP server around the portal (\<open>pkg/publicfiles/server.go\<close>): its configuration, the handler that
  gives downloads their own writer, and that writer, which replaces the absolute write timeout by an
  idle deadline and a cumulative minimum rate. Instants are nanoseconds since Go's zero time, durations
  nanoseconds; byte counts and rates are 64-bit words. The allowance of the rate budget is characterised
  exactly, and every deadline in the history of a download is shown to obey the idle and the rate limit.
\<close>

section \<open>Rate budget\<close>

definition time_Second :: u64 where "time_Second = 1000000000"

definition MaxInt64 :: u64 where "MaxInt64 = 0x7FFFFFFFFFFFFFFF"

text \<open>\<open>math/bits\<close>: the high and low words of a product, and the quotient and remainder of a double word,
  which Go defines only when the divisor exceeds the high word.\<close>

definition bits_Mul64 :: "u64 \<Rightarrow> u64 \<Rightarrow> u64 \<times> u64" where
  "bits_Mul64 x y = (of_nat (unat x * unat y div 2 ^ 64), x * y)"

definition bits_Div64 :: "u64 \<Rightarrow> u64 \<Rightarrow> u64 \<Rightarrow> u64 \<times> u64" where
  "bits_Div64 hi lo y =
     (let n = unat hi * 2 ^ 64 + unat lo in (of_nat (n div unat y), of_nat (n mod unat y)))"

definition rateAllowance :: "i64 \<Rightarrow> i64 \<Rightarrow> i64" where
  "rateAllowance byteCount bytesPerSecond =
     (if sint byteCount \<le> 0 \<or> sint bytesPerSecond \<le> 0 then 0
      else let (high, low) = bits_Mul64 byteCount time_Second; divisor = bytesPerSecond in
        if divisor \<le> high then MaxInt64
        else let (quotient, remainder) = bits_Div64 high low divisor in
          if remainder \<noteq> 0 \<and> quotient = MaxInt64 then MaxInt64
          else let quotient' = (if remainder \<noteq> 0 then quotient + 1 else quotient) in
            if MaxInt64 < quotient' then MaxInt64 else quotient')"

section \<open>Configuration\<close>

definition BasePath :: string where "BasePath = ''/public-files''"

record 'c clock =
  clk_now :: "'c \<Rightarrow> int \<times> 'c"
  clk_SetWriteDeadline :: "int \<Rightarrow> 'c \<Rightarrow> bool \<times> 'c"   \<comment> \<open>of the response controller; \<open>False\<close> is an error\<close>

record 'c httpServerConfig =
  readHeaderTimeout :: int
  readTimeout :: int
  baseWriteTimeout :: int
  connectionIdleTimeout :: int
  maxHeaderBytes :: int
  downloadWriteIdleTimeout :: int
  downloadMinimumRateGrace :: int
  downloadMinimumRate :: i64
  cfg_now :: "('c \<Rightarrow> int \<times> 'c) option"

definition DefaultReadHeaderTimeout :: int where "DefaultReadHeaderTimeout = 5 * 10 ^ 9"
definition DefaultReadTimeout :: int where "DefaultReadTimeout = 15 * 10 ^ 9"
definition DefaultDownloadWriteIdleTimeout :: int where "DefaultDownloadWriteIdleTimeout = 30 * 10 ^ 9"
definition DefaultDownloadMinimumRateGrace :: int where "DefaultDownloadMinimumRateGrace = 30 * 10 ^ 9"
definition DefaultDownloadMinimumBytesPerSec :: i64 where "DefaultDownloadMinimumBytesPerSec = 65536"
definition DefaultConnectionIdleTimeout :: int where "DefaultConnectionIdleTimeout = 30 * 10 ^ 9"
definition DefaultMaxHeaderBytes :: int where "DefaultMaxHeaderBytes = 32768"
definition maxDownloadDeadlineCreditBytes :: nat where "maxDownloadDeadlineCreditBytes = 65536"

definition defaultHTTPServerConfig :: "('c \<Rightarrow> int \<times> 'c) \<Rightarrow> 'c httpServerConfig" where
  "defaultHTTPServerConfig now =
     \<lparr> readHeaderTimeout = DefaultReadHeaderTimeout, readTimeout = DefaultReadTimeout,
       baseWriteTimeout = DefaultDownloadWriteIdleTimeout, connectionIdleTimeout = DefaultConnectionIdleTimeout,
       maxHeaderBytes = DefaultMaxHeaderBytes, downloadWriteIdleTimeout = DefaultDownloadWriteIdleTimeout,
       downloadMinimumRateGrace = DefaultDownloadMinimumRateGrace,
       downloadMinimumRate = DefaultDownloadMinimumBytesPerSec, cfg_now = Some now \<rparr>"

section \<open>The progress-bounded writer\<close>

record progressBoundedWriter =
  pw_started :: int
  pw_idleTimeout :: int
  pw_minimumGrace :: int
  pw_minimumRate :: i64
  pw_bodyBytes :: i64
  pw_lastProgress :: int
  pw_wroteHeader :: bool
  pw_writeErr :: "http_error option"

text \<open>Adding a byte count to an account that saturates at the largest \<open>int64\<close>.\<close>

definition saturating_add :: "i64 \<Rightarrow> nat \<Rightarrow> i64" where
  "saturating_add a n = (if sint MaxInt64 - sint a < int n then MaxInt64 else a + of_nat n)"

definition setDeadline ::
    "'c clock \<Rightarrow> nat \<Rightarrow> progressBoundedWriter \<Rightarrow> 'c \<Rightarrow> http_error option \<times> progressBoundedWriter \<times> 'c" where
  "setDeadline C nextBytes w0 c0 =
     (case clk_now C c0 of
        (now, c) \<Rightarrow>
          let w = (if pw_lastProgress w0 = 0 then w0\<lparr>pw_lastProgress := pw_started w0\<rparr> else w0) in
          if \<not> now < pw_lastProgress w + pw_idleTimeout w then (Some errDownloadWriteIdleExceeded, w, c)
          else let deadline = now + pw_idleTimeout w;
                   accounted = (if 0 < nextBytes
                     then saturating_add (pw_bodyBytes w)
                            (if maxDownloadDeadlineCreditBytes < nextBytes then maxDownloadDeadlineCreditBytes
                             else nextBytes)
                     else pw_bodyBytes w);
                   rateDeadline = pw_started w + pw_minimumGrace w + sint (rateAllowance accounted (pw_minimumRate w));
                   deadline' = (if rateDeadline < deadline then rateDeadline else deadline)
            in (case clk_SetWriteDeadline C deadline' c of
                  (ok, c1) \<Rightarrow> (if ok then None else Some errDownloadDeadlineUnavailable, w, c1)))"

definition clearDownloadRepresentationHeaders :: "header \<Rightarrow> header" where
  "clearDownloadRepresentationHeaders h =
     fold header_Del
       [''Accept-Ranges'', ''Content-Disposition'', ''Content-Encoding'', ''Content-Location'', ''Content-Length'',
        ''Content-Range'', ''Content-Type'', ''ETag'', ''Last-Modified'', ''Trailer'', ''Transfer-Encoding''] h"

definition progress_WriteHeader ::
    "'c responseWriter \<Rightarrow> 'c clock \<Rightarrow> nat \<Rightarrow> progressBoundedWriter \<times> 'c \<Rightarrow> progressBoundedWriter \<times> 'c" where
  "progress_WriteHeader W C code st =
     (case st of (w, c) \<Rightarrow>
        if pw_wroteHeader w then (w, c)
        else case setDeadline C 0 (w\<lparr>pw_wroteHeader := True\<rparr>) c of
          (Some e, w1, c1) \<Rightarrow>
            (w1\<lparr>pw_writeErr := Some e\<rparr>,
             rw_WriteHeader W StatusInternalServerError
               (rw_Set W ''Connection'' ''close'' (rw_Set W ''Content-Length'' ''0''
                 (rw_setHeader W (clearDownloadRepresentationHeaders (rw_Header W c1)) c1))))
        | (None, w1, c1) \<Rightarrow> (w1, rw_WriteHeader W code c1))"

definition progress_Write ::
    "'c responseWriter \<Rightarrow> 'c clock \<Rightarrow> bytes \<Rightarrow> progressBoundedWriter \<times> 'c \<Rightarrow>
     (nat \<times> http_error option) \<times> progressBoundedWriter \<times> 'c" where
  "progress_Write W C pl st0 =
     (case (if \<not> pw_wroteHeader (fst st0) then progress_WriteHeader W C StatusOK st0 else st0) of
        (w, c) \<Rightarrow>
          if pw_writeErr w \<noteq> None then ((0, pw_writeErr w), w, c)
          else (case setDeadline C (length pl) w c of
            (Some e, w1, c1) \<Rightarrow> ((0, Some e), w1\<lparr>pw_writeErr := Some e\<rparr>, c1)
          | (None, w1, c1) \<Rightarrow>
              (case rw_Write W pl c1 of
                 ((written, e), c2) \<Rightarrow>
                   (case (if 0 < written
                          then (case clk_now C c2 of
                                  (t, c3) \<Rightarrow> (w1\<lparr>pw_lastProgress := t,
                                                pw_bodyBytes := saturating_add (pw_bodyBytes w1) written\<rparr>, c3))
                          else (w1, c2)) of
                      (w2, c3) \<Rightarrow>
                        ((written, e), if e \<noteq> None then w2\<lparr>pw_writeErr := e\<rparr> else w2, c3)))))"

definition progress_rw :: "'c responseWriter \<Rightarrow> 'c clock \<Rightarrow> (progressBoundedWriter \<times> 'c) responseWriter" where
  "progress_rw W C =
     \<lparr> rw_Header = (\<lambda>st. rw_Header W (snd st)),
       rw_setHeader = (\<lambda>h st. (fst st, rw_setHeader W h (snd st))),
       rw_WriteHeader = progress_WriteHeader W C,
       rw_Write = progress_Write W C \<rparr>"

section \<open>The handler and the server\<close>

definition new_download_writer :: "'c httpServerConfig \<Rightarrow> int \<Rightarrow> progressBoundedWriter" where
  "new_download_writer config t =
     \<lparr> pw_started = t, pw_idleTimeout = downloadWriteIdleTimeout config,
       pw_minimumGrace = downloadMinimumRateGrace config, pw_minimumRate = downloadMinimumRate config,
       pw_bodyBytes = 0, pw_lastProgress = t, pw_wroteHeader = False, pw_writeErr = None \<rparr>"

text \<open>The wrapped handler is given at both writers: the server's own and the progress-bounded one.\<close>

definition progressBoundedDownloadHandler ::
    "(request \<Rightarrow> 'c \<Rightarrow> 'c) \<Rightarrow> (request \<Rightarrow> progressBoundedWriter \<times> 'c \<Rightarrow> progressBoundedWriter \<times> 'c) \<Rightarrow>
     'c httpServerConfig \<Rightarrow> request \<Rightarrow> 'c \<Rightarrow> 'c" where
  "progressBoundedDownloadHandler next_plain next_bounded config r c =
     (if req_Path r \<noteq> BasePath @ ''/api/file'' \<or> (req_Method r \<noteq> ''GET'' \<and> req_Method r \<noteq> ''HEAD'')
      then next_plain r c
      else case the (cfg_now config) c of
        (t, c1) \<Rightarrow> snd (next_bounded r (new_download_writer config t, c1)))"

record 'c http_server =
  srv_Handler :: "request \<Rightarrow> 'c \<Rightarrow> 'c"
  srv_ReadHeaderTimeout :: int
  srv_ReadTimeout :: int
  srv_WriteTimeout :: int
  srv_IdleTimeout :: int
  srv_MaxHeaderBytes :: int

text \<open>\<open>None\<close> is the panic on an invalid configuration. A nil handler is \<open>http.NotFoundHandler\<close>, which the
  caller passes here.\<close>

definition newHTTPServer ::
    "(request \<Rightarrow> 'c \<Rightarrow> 'c) \<Rightarrow> (request \<Rightarrow> progressBoundedWriter \<times> 'c \<Rightarrow> progressBoundedWriter \<times> 'c) \<Rightarrow>
     'c httpServerConfig \<Rightarrow> 'c http_server option" where
  "newHTTPServer next_plain next_bounded config =
     (if readHeaderTimeout config \<le> 0 \<or> readTimeout config \<le> 0 \<or> baseWriteTimeout config \<le> 0
         \<or> connectionIdleTimeout config \<le> 0 \<or> maxHeaderBytes config \<le> 0
         \<or> downloadWriteIdleTimeout config \<le> 0 \<or> downloadMinimumRateGrace config \<le> 0
         \<or> sint (downloadMinimumRate config) \<le> 0 \<or> cfg_now config = None
      then None
      else Some
        \<lparr> srv_Handler = progressBoundedDownloadHandler next_plain next_bounded config,
          srv_ReadHeaderTimeout = readHeaderTimeout config, srv_ReadTimeout = readTimeout config,
          srv_WriteTimeout = baseWriteTimeout config, srv_IdleTimeout = connectionIdleTimeout config,
          srv_MaxHeaderBytes = maxHeaderBytes config \<rparr>)"

definition NewHTTPServer ::
    "(request \<Rightarrow> 'c \<Rightarrow> 'c) \<Rightarrow> (request \<Rightarrow> progressBoundedWriter \<times> 'c \<Rightarrow> progressBoundedWriter \<times> 'c) \<Rightarrow>
     ('c \<Rightarrow> int \<times> 'c) \<Rightarrow> 'c http_server option" where
  "NewHTTPServer next_plain next_bounded now =
     newHTTPServer next_plain next_bounded (defaultHTTPServerConfig now)"

section \<open>The rate budget, exactly\<close>

lemma Mul64_halves:
  fixes b :: u64
  shows "unat (fst (bits_Mul64 b time_Second)) = unat b * 10 ^ 9 div 2 ^ 64"
    and "unat (snd (bits_Mul64 b time_Second)) = unat b * 10 ^ 9 mod 2 ^ 64"
proof -
  have "unat b * 10 ^ 9 div 2 ^ 64 < 2 ^ 64"
    using unsigned_less [of b, where ?'a = nat] by (intro less_mult_imp_div_less) simp
  then show "unat (fst (bits_Mul64 b time_Second)) = unat b * 10 ^ 9 div 2 ^ 64"
    by (simp add: bits_Mul64_def time_Second_def unat_of_nat)
  show "unat (snd (bits_Mul64 b time_Second)) = unat b * 10 ^ 9 mod 2 ^ 64"
    by (simp add: bits_Mul64_def time_Second_def unat_word_ariths)
qed

definition allowance :: "nat \<Rightarrow> nat \<Rightarrow> nat" where
  "allowance n r =
     (if 2 ^ 64 \<le> n div r then 2 ^ 63 - 1
      else if n mod r \<noteq> 0 \<and> n div r = 2 ^ 64 - 1 then 0
      else min (2 ^ 63 - 1) (n div r + (if n mod r = 0 then 0 else 1)))"

lemma unat_MaxInt64: "unat MaxInt64 = 2 ^ 63 - 1"
  by (simp add: MaxInt64_def)

lemma rateAllowance_nat:
  assumes "0 < sint b" "0 < sint r"
  shows "unat (rateAllowance b r) = allowance (unat b * 10 ^ 9) (unat r)"
proof -
  define n where "n = unat b * 10 ^ 9"
  obtain high low where m: "bits_Mul64 b time_Second = (high, low)" by fastforce
  have hl: "unat high = n div 2 ^ 64" "unat low = n mod 2 ^ 64"
    using Mul64_halves [of b] m by (simp_all add: n_def)
  have r: "0 < unat r" using assms(2) by (metis less_irrefl neq0_conv sint_0 unat_eq_zero)
  have le: "r \<le> high \<longleftrightarrow> 2 ^ 64 \<le> n div unat r"
    using r by (simp add: word_le_nat_alt hl less_eq_div_iff_mult_less_eq mult.commute)
  have pos: "\<not> (sint b \<le> 0 \<or> sint r \<le> 0)" using assms by auto
  show ?thesis
  proof (cases "r \<le> high")
    case True
    then have "rateAllowance b r = MaxInt64" using pos by (simp add: rateAllowance_def m)
    moreover have "allowance n (unat r) = 2 ^ 63 - 1" using le True by (simp add: allowance_def)
    ultimately show ?thesis by (simp add: unat_MaxInt64 n_def)
  next
    case False
    define q where "q = n div unat r"
    define d where "d = n mod unat r"
    have q: "q < 2 ^ 64" using le False by (simp add: q_def)
    have d: "d < 2 ^ 64" using r unsigned_less [of r, where ?'a = nat] unfolding d_def by (simp add: order.strict_trans [OF mod_less_divisor])
    have dv: "bits_Div64 high low r = (of_nat q, of_nat d)"
      by (simp add: bits_Div64_def hl q_def d_def mult.commute [of _ "2 ^ 64"] del: of_nat_mod)
    have eqs: "unat (of_nat q :: u64) = q" "unat (of_nat d :: u64) = d"
      using q d by (simp_all add: unat_of_nat)
    have suc: "unat (of_nat q + 1 :: u64) = (if q = 2 ^ 64 - 1 then 0 else q + 1)"
      using q by (auto simp: unat_word_ariths eqs mod_Suc)
    have "unat (rateAllowance b r) =
        (if d \<noteq> 0 \<and> q = 2 ^ 63 - 1 then 2 ^ 63 - 1
         else let q' = (if d \<noteq> 0 then (if q = 2 ^ 64 - 1 then 0 else q + 1) else q) in min (2 ^ 63 - 1) q')"
      using False pos eqs suc
      by (simp add: rateAllowance_def m dv Let_def word_less_nat_alt unat_MaxInt64 word_unat_eq_iff min_def)
    moreover have "allowance n (unat r) =
        (if d \<noteq> 0 \<and> q = 2 ^ 64 - 1 then 0 else min (2 ^ 63 - 1) (q + (if d = 0 then 0 else 1)))"
      using q by (simp add: allowance_def flip: q_def d_def)
    ultimately show ?thesis using q by (simp add: Let_def n_def)
  qed
qed

lemma rateAllowance_sint:
  assumes "0 < sint b" "0 < sint r"
  shows "sint (rateAllowance b r) = int (allowance (unat b * 10 ^ 9) (unat r))"
proof -
  have "allowance n r < 2 ^ 63" for n r by (auto simp: allowance_def min_def)
  then show ?thesis by (simp add: sint_unat rateAllowance_nat [OF assms])
qed

lemma ceiling_div:
  fixes n r :: int
  assumes "0 < r" shows "- ((- n) div r) = n div r + (if n mod r = 0 then 0 else 1)"
  using assms by (simp add: zdiv_zminus1_eq_if)

lemma rateAllowance_int:
  assumes "0 < sint b" "0 < sint r"
  shows "sint (rateAllowance b r) =
    (let n = sint b * 10 ^ 9 in
     if n div sint r = 2 ^ 64 - 1 \<and> n mod sint r \<noteq> 0 then 0 else min (2 ^ 63 - 1) (- ((- n) div sint r)))"
proof -
  have u: "sint b = int (unat b)" "sint r = int (unat r)" using assms unat_sint [of b] unat_sint [of r] by simp_all
  have "0 < int (unat r)" using assms(2) u by simp
  note c = ceiling_div [OF this, of "int (unat b) * 10 ^ 9"]
  have dm: "int (unat b) * 10 ^ 9 div int (unat r) = int (unat b * 10 ^ 9 div unat r)"
    "int (unat b) * 10 ^ 9 mod int (unat r) = int (unat b * 10 ^ 9 mod unat r)"
    by (simp_all add: zdiv_int zmod_int)
  show ?thesis unfolding rateAllowance_sint [OF assms] u c Let_def dm
    by (auto simp: allowance_def min_def)
qed

text \<open>C23. The time a byte count is worth at a minimum rate is the exact quotient in nanoseconds, rounded
  up and limited to the largest duration, for all 64-bit counts and rates but one family: when the
  quotient is the largest 64-bit word and there is a remainder, the increment wraps and the allowance
  is zero.\<close>

theorem rate_allowance_exact:
  assumes "0 < sint b" "0 < sint r"
  shows "sint (rateAllowance b r) =
    (let n = sint b * 10 ^ 9 in
     if n div sint r = 2 ^ 64 - 1 \<and> n mod sint r \<noteq> 0 then 0 else min (2 ^ 63 - 1) (- ((- n) div sint r)))"
  by (rule rateAllowance_int [OF assms])

theorem rate_allowance_exact_witness:
  "sint (rateAllowance 65536 65536) = 10 ^ 9 \<and> sint (rateAllowance 865595018914747 46924) = 0"
  using rate_allowance_exact [of 65536 65536] rate_allowance_exact [of 865595018914747 46924] by simp

text \<open>At the default rate of 64 KiB a second the wrapping quotient does not occur.\<close>

lemma default_allowance:
  assumes "0 < sint b"
  shows "sint (rateAllowance b DefaultDownloadMinimumBytesPerSec) = min (2 ^ 63 - 1) (- ((- (sint b * 10 ^ 9)) div 65536))"
proof -
  have "n * 1000000000 div 65536 \<noteq> 18446744073709551615" for n :: int
  proof -
    have "n \<le> 1208925819614629 \<or> 1208925819614630 \<le> n" by linarith
    then show ?thesis
      using div_mult_mod_eq [of "n * 1000000000" 65536] pos_mod_bound [of 65536 "n * 1000000000"]
        pos_mod_sign [of 65536 "n * 1000000000"] by linarith
  qed
  then have "sint b * 10 ^ 9 div 65536 \<noteq> 2 ^ 64 - 1" by simp
  moreover have r: "sint DefaultDownloadMinimumBytesPerSec = 65536" by (simp add: DefaultDownloadMinimumBytesPerSec_def)
  ultimately show ?thesis using rateAllowance_int [OF assms, of DefaultDownloadMinimumBytesPerSec]
    unfolding r Let_def by (simp only: refl simp_thms if_False zero_less_numeral)
qed

section \<open>Deadlines of a download\<close>

text \<open>What a handler does to the writer of one download, and the calls this makes on the clock and the
  connection, recorded newest first.\<close>

datatype writer_call = CallWriteHeader nat | CallWrite bytes

primrec writer_calls ::
    "'c responseWriter \<Rightarrow> 'c clock \<Rightarrow> writer_call list \<Rightarrow> progressBoundedWriter \<times> 'c \<Rightarrow> progressBoundedWriter \<times> 'c" where
  "writer_calls W C [] st = st"
| "writer_calls W C (k # ks) st =
     writer_calls W C ks
       (case k of CallWriteHeader code \<Rightarrow> progress_WriteHeader W C code st
        | CallWrite p \<Rightarrow> snd (progress_Write W C p st))"

datatype io_event = ClockRead int | DeadlineSet int | Delivered nat

definition logged_rw :: "'c responseWriter \<Rightarrow> ('c \<times> io_event list) responseWriter" where
  "logged_rw W =
     \<lparr> rw_Header = (\<lambda>(c, l). rw_Header W c), rw_setHeader = (\<lambda>h (c, l). (rw_setHeader W h c, l)),
       rw_WriteHeader = (\<lambda>s (c, l). (rw_WriteHeader W s c, l)),
       rw_Write = (\<lambda>p (c, l). case rw_Write W p c of ((n, e), c1) \<Rightarrow> ((n, e), c1, Delivered n # l)) \<rparr>"

definition logged_clock :: "'c clock \<Rightarrow> ('c \<times> io_event list) clock" where
  "logged_clock C =
     \<lparr> clk_now = (\<lambda>(c, l). case clk_now C c of (t, c1) \<Rightarrow> (t, c1, ClockRead t # l)),
       clk_SetWriteDeadline = (\<lambda>d (c, l). case clk_SetWriteDeadline C d c of (ok, c1) \<Rightarrow> (ok, c1, DeadlineSet d # l)) \<rparr>"

lemma logged_ops [simp]:
  "clk_now (logged_clock C) (c, l) = (case clk_now C c of (t, c1) \<Rightarrow> (t, c1, ClockRead t # l))"
  "clk_SetWriteDeadline (logged_clock C) d (c, l) =
     (case clk_SetWriteDeadline C d c of (ok, c1) \<Rightarrow> (ok, c1, DeadlineSet d # l))"
  "rw_Header (logged_rw W) (c, l) = rw_Header W c"
  "rw_setHeader (logged_rw W) h (c, l) = (rw_setHeader W h c, l)"
  "rw_WriteHeader (logged_rw W) s (c, l) = (rw_WriteHeader W s c, l)"
  "rw_Write (logged_rw W) p (c, l) = (case rw_Write W p c of ((n, e), c1) \<Rightarrow> ((n, e), c1, Delivered n # l))"
  by (simp_all add: logged_clock_def logged_rw_def)

text \<open>The bytes delivered so far, and the instant of the last progress: the clock reading right after
  the last write that delivered something, or the start. Go's zero time counts as the start.\<close>

fun delivered :: "io_event list \<Rightarrow> nat" where
  "delivered [] = 0"
| "delivered (Delivered n # l) = n + delivered l"
| "delivered (_ # l) = delivered l"

fun last_progress :: "int \<Rightarrow> io_event list \<Rightarrow> int" where
  "last_progress t [] = t"
| "last_progress t (ClockRead x # Delivered n # l) =
     (if 0 < n then (if x = 0 then t else x) else last_progress t l)"
| "last_progress t (_ # l) = last_progress t l"

text \<open>Nanoseconds, rounded up, that a byte count takes at a rate.\<close>

definition time_at_rate :: "int \<Rightarrow> i64 \<Rightarrow> int" where
  "time_at_rate n rate = - ((- (n * 10 ^ 9)) div sint rate)"

lemma saturating_add_bounds:
  assumes "0 \<le> sint a"
  shows "sint a \<le> sint (saturating_add a n)" "sint (saturating_add a n) \<le> sint a + int n"
proof -
  have m: "sint MaxInt64 = 2 ^ 63 - 1" by (simp add: MaxInt64_def)
  have a: "sint a < 2 ^ 63" using sint_range_size [of a] by (simp add: word_size)
  have "sint (a + of_nat n) = sint a + int n" if "\<not> 2 ^ 63 - 1 - sint a < int n"
  proof -
    have u: "int (unat a) = sint a" using assms by (rule unat_sint)
    then have "int (unat a + n) < int (2 ^ 63)" using that by simp
    then have lt: "unat a + n < 2 ^ 63" by (simp only: of_nat_less_iff)
    then have "n < 2 ^ 64" by simp
    with lt have "unat (a + of_nat n) = unat a + n" by (simp add: unat_word_ariths unat_of_nat)
    then show ?thesis using lt u by (simp add: sint_unat)
  qed
  then show "sint a \<le> sint (saturating_add a n)" "sint (saturating_add a n) \<le> sint a + int n"
    using a assms by (auto simp: saturating_add_def m)
qed

lemma rateAllowance_le:
  assumes "0 < sint r" "sint b \<le> n" "0 \<le> n"
  shows "sint (rateAllowance b r) \<le> time_at_rate n r"
proof -
  have nonneg: "0 \<le> time_at_rate n r"
    using assms by (simp add: time_at_rate_def div_nonpos_pos_le0)
  show ?thesis
  proof (cases "0 < sint b")
    case True
    have "time_at_rate (sint b) r \<le> time_at_rate n r"
      using assms by (simp add: time_at_rate_def zdiv_mono1)
    with True nonneg rateAllowance_int [OF True assms(1)] show ?thesis
      by (auto simp: time_at_rate_def Let_def)
  qed (use nonneg in \<open>simp add: rateAllowance_def\<close>)
qed

definition deadline_ok :: "'c httpServerConfig \<Rightarrow> int \<Rightarrow> int \<Rightarrow> io_event list \<Rightarrow> bool" where
  "deadline_ok config t d older \<longleftrightarrow>
     (\<exists>now l. older = ClockRead now # l \<and>
        now < last_progress t l + downloadWriteIdleTimeout config \<and>
        d \<le> now + downloadWriteIdleTimeout config \<and>
        d \<le> t + downloadMinimumRateGrace config
              + time_at_rate (int (delivered l + maxDownloadDeadlineCreditBytes)) (downloadMinimumRate config))"

text \<open>The writer agrees with the history of its calls. After a write that delivered something the
  clock has been read, so the next reading is not taken for the instant of progress.\<close>

definition writer_ok :: "'c httpServerConfig \<Rightarrow> int \<Rightarrow> progressBoundedWriter \<Rightarrow> io_event list \<Rightarrow> bool" where
  "writer_ok config t w l \<longleftrightarrow>
     pw_started w = t \<and> pw_idleTimeout w = downloadWriteIdleTimeout config \<and>
     pw_minimumGrace w = downloadMinimumRateGrace config \<and> pw_minimumRate w = downloadMinimumRate config \<and>
     0 \<le> sint (pw_bodyBytes w) \<and> sint (pw_bodyBytes w) \<le> int (delivered l) \<and>
     (if pw_lastProgress w = 0 then t else pw_lastProgress w) = last_progress t l \<and>
     (\<forall>n l'. l = Delivered n # l' \<longrightarrow> n = 0) \<and>
     (\<forall>newer d older. l = newer @ DeadlineSet d # older \<longrightarrow> deadline_ok config t d older)"

lemma writer_ok_flags [simp]:
  "writer_ok config t (w\<lparr>pw_writeErr := e\<rparr>) l = writer_ok config t w l"
  "writer_ok config t (w\<lparr>pw_wroteHeader := h\<rparr>) l = writer_ok config t w l"
  by (simp_all add: writer_ok_def)

lemma last_progress_read:
  "\<forall>n l'. l = Delivered n # l' \<longrightarrow> n = 0 \<Longrightarrow> last_progress t (ClockRead x # l) = last_progress t l"
  by (cases l; cases "hd l") auto

lemma writer_ok_read:
  assumes "writer_ok config t w l"
  shows "writer_ok config t w (ClockRead x # l)"
  using assms last_progress_read [of l t x]
  by (auto simp: writer_ok_def Cons_eq_append_conv)

lemma writer_ok_deadline:
  assumes "writer_ok config t w l" "deadline_ok config t d l"
  shows "writer_ok config t w (DeadlineSet d # l)"
  using assms by (auto simp: writer_ok_def Cons_eq_append_conv)

lemma writer_ok_idle: "writer_ok config t w l \<Longrightarrow> writer_ok config t w (Delivered 0 # l)"
  by (auto simp: writer_ok_def Cons_eq_append_conv)

lemma writer_ok_progress:
  assumes "writer_ok config t w l" "0 < n"
  shows "writer_ok config t (w\<lparr>pw_lastProgress := x, pw_bodyBytes := saturating_add (pw_bodyBytes w) n\<rparr>)
    (ClockRead x # Delivered n # l)"
proof -
  have "0 \<le> sint (pw_bodyBytes w)" using assms(1) by (simp add: writer_ok_def)
  from saturating_add_bounds [OF this, of n] assms show ?thesis
    by (auto simp: writer_ok_def Cons_eq_append_conv)
qed

lemma writer_ok_setDeadline:
  assumes ok: "writer_ok config t w l" and rate: "0 < sint (downloadMinimumRate config)"
    and d: "setDeadline (logged_clock C) n w (c, l) = (e, w1, c1, l1)"
  shows "writer_ok config t w1 l1"
proof -
  define w' where "w' = (if pw_lastProgress w = 0 then w\<lparr>pw_lastProgress := pw_started w\<rparr> else w)"
  define acc where "acc = (if 0 < n then saturating_add (pw_bodyBytes w')
      (if maxDownloadDeadlineCreditBytes < n then maxDownloadDeadlineCreditBytes else n) else pw_bodyBytes w')"
  define rd where "rd = pw_started w' + pw_minimumGrace w' + sint (rateAllowance acc (pw_minimumRate w'))"
  obtain now c2 where nw: "clk_now C c = (now, c2)" by (rule prod.exhaust)
  define dl where "dl = (if rd < now + pw_idleTimeout w' then rd else now + pw_idleTimeout w')"
  obtain k c3 where sd: "clk_SetWriteDeadline C dl c2 = (k, c3)" by (rule prod.exhaust)
  have w': "writer_ok config t w' l" using ok by (auto simp: w'_def writer_ok_def)
  have b: "0 \<le> sint (pw_bodyBytes w')" "sint (pw_bodyBytes w') \<le> int (delivered l)"
    and lp: "pw_lastProgress w' = last_progress t l"
    using ok by (auto simp: w'_def writer_ok_def)
  have "sint acc \<le> int (delivered l + maxDownloadDeadlineCreditBytes)"
    using b saturating_add_bounds(2) [OF b(1), of n] saturating_add_bounds(2) [OF b(1), of maxDownloadDeadlineCreditBytes]
    by (auto simp: acc_def)
  from rateAllowance_le [OF rate this]
  have "deadline_ok config t dl (ClockRead now # l)" if "now < pw_lastProgress w' + pw_idleTimeout w'"
    using that w' lp by (auto simp: deadline_ok_def writer_ok_def dl_def rd_def)
  note kept = writer_ok_read [OF w', of now] writer_ok_deadline [OF writer_ok_read [OF w'] this]
  have "setDeadline (logged_clock C) n w (c, l) =
      (if \<not> now < pw_lastProgress w' + pw_idleTimeout w'
       then (Some errDownloadWriteIdleExceeded, w', c2, ClockRead now # l)
       else (if k then None else Some errDownloadDeadlineUnavailable, w', c3, DeadlineSet dl # ClockRead now # l))"
    using sd by (cases "rd < now + pw_idleTimeout w'")
      (simp_all add: setDeadline_def nw Let_def dl_def flip: w'_def acc_def rd_def)
  then show ?thesis using d kept by (auto split: if_splits)
qed

lemma writer_ok_header:
  assumes "writer_ok config t w l" "0 < sint (downloadMinimumRate config)"
    and "progress_WriteHeader (logged_rw W) (logged_clock C) code (w, c, l) = (w1, c1, l1)"
  shows "writer_ok config t w1 l1"
proof -
  obtain e w2 c2 l2 where d: "setDeadline (logged_clock C) 0 (w\<lparr>pw_wroteHeader := True\<rparr>) (c, l) = (e, w2, c2, l2)"
    by (metis prod.exhaust)
  have "writer_ok config t w2 l2" using writer_ok_setDeadline [OF _ assms(2) d] assms(1) by simp
  then show ?thesis using assms
    by (auto simp: progress_WriteHeader_def d rw_Set_def split: if_splits option.splits)
qed

lemma writer_ok_write:
  assumes "writer_ok config t w l" "0 < sint (downloadMinimumRate config)"
    and "progress_Write (logged_rw W) (logged_clock C) p (w, c, l) = (r, w1, c1, l1)"
  shows "writer_ok config t w1 l1"
proof -
  define st where "st = (if \<not> pw_wroteHeader w then progress_WriteHeader (logged_rw W) (logged_clock C) StatusOK (w, c, l)
      else (w, c, l))"
  obtain w2 c2 l2 where h: "st = (w2, c2, l2)" by (cases st)
  then have i: "writer_ok config t w2 l2"
    using assms(1) writer_ok_header [OF assms(1,2)] by (auto simp: st_def split: if_splits)
  obtain e w3 c3 l3 where d: "setDeadline (logged_clock C) (length p) w2 (c2, l2) = (e, w3, c3, l3)"
    by (metis prod.exhaust)
  note j = writer_ok_setDeadline [OF i assms(2) d]
  obtain n e' c4 where wr: "rw_Write W p c3 = ((n, e'), c4)" by (metis prod.exhaust)
  obtain x c5 where t: "clk_now C c4 = (x, c5)" by (rule prod.exhaust)
  define w4 where "w4 = (if 0 < n then w3\<lparr>pw_lastProgress := x, pw_bodyBytes := saturating_add (pw_bodyBytes w3) n\<rparr> else w3)"
  define l4 where "l4 = (if 0 < n then ClockRead x # Delivered n # l3 else Delivered n # l3)"
  have k: "writer_ok config t w4 l4"
    using writer_ok_progress [OF j] writer_ok_idle [OF j] by (simp add: w4_def l4_def)
  have "progress_Write (logged_rw W) (logged_clock C) p (w, c, l) =
     (if pw_writeErr w2 \<noteq> None then ((0, pw_writeErr w2), w2, c2, l2)
      else case e of Some er \<Rightarrow> ((0, Some er), w3\<lparr>pw_writeErr := Some er\<rparr>, c3, l3)
      | None \<Rightarrow> ((n, e'), if e' \<noteq> None then w4\<lparr>pw_writeErr := e'\<rparr> else w4, if 0 < n then c5 else c4, l4))"
    unfolding progress_Write_def fst_conv st_def [symmetric] h
    by (simp add: d wr t w4_def l4_def split: option.split)
  then show ?thesis using assms(3) i j k by (auto split: if_splits option.splits)
qed

lemma writer_ok_calls:
  "0 < sint (downloadMinimumRate config) \<Longrightarrow> writer_ok config t w l \<Longrightarrow>
   writer_calls (logged_rw W) (logged_clock C) ks (w, c, l) = (w1, c1, l1) \<Longrightarrow> writer_ok config t w1 l1"
proof (induction ks arbitrary: w c l)
  case (Cons k ks)
  define st where "st = (case k of CallWriteHeader code \<Rightarrow> progress_WriteHeader (logged_rw W) (logged_clock C) code (w, c, l)
        | CallWrite p \<Rightarrow> snd (progress_Write (logged_rw W) (logged_clock C) p (w, c, l)))"
  obtain w2 c2 l2 where st: "st = (w2, c2, l2)" by (cases st)
  have "writer_ok config t w2 l2"
  proof (cases k)
    case (CallWriteHeader code)
    with st writer_ok_header [OF Cons.prems(2,1)] show ?thesis by (simp add: st_def)
  next
    case (CallWrite p)
    obtain r where "progress_Write (logged_rw W) (logged_clock C) p (w, c, l) = (r, w2, c2, l2)"
      using st CallWrite by (cases "progress_Write (logged_rw W) (logged_clock C) p (w, c, l)") (simp add: st_def)
    then show ?thesis by (rule writer_ok_write [OF Cons.prems(2,1)])
  qed
  with Cons.IH [OF Cons.prems(1)] Cons.prems(3) st show ?case by (simp add: st_def)
qed simp

text \<open>C22. Whatever a handler does to the writer of a download (explicit \<open>WriteHeader\<close> calls and writes, in
  any order), and however the clock and the connection behave, every write deadline that is set obeys both
  limits of the configuration. It lies within the idle timeout of the clock reading just taken, and that
  reading lies within the idle timeout of the last write that delivered a byte (or of the start). And it lies
  within the grace period plus the time that the bytes delivered before it, and 64 KiB more, take at the
  minimum rate: a connection cannot be kept busy for longer than its progress pays for.\<close>

theorem download_deadlines_bounded:
  assumes "0 < sint (downloadMinimumRate config)"
    and "writer_calls (logged_rw W) (logged_clock C) calls (new_download_writer config t, c, []) =
      (w, c', newer @ DeadlineSet d # older)"
  shows "\<exists>now l. older = ClockRead now # l \<and>
    now < last_progress t l + downloadWriteIdleTimeout config \<and>
    d \<le> now + downloadWriteIdleTimeout config \<and>
    d \<le> t + downloadMinimumRateGrace config
          - ((- ((int (delivered l) + 65536) * 10 ^ 9)) div sint (downloadMinimumRate config))"
proof -
  have "writer_ok config t (new_download_writer config t) []"
    by (simp add: writer_ok_def new_download_writer_def)
  from writer_ok_calls [OF assms(1) this assms(2)]
  have "deadline_ok config t d older" unfolding writer_ok_def by blast
  then show ?thesis
    unfolding deadline_ok_def time_at_rate_def maxDownloadDeadlineCreditBytes_def
    by (simp add: add.commute)
qed

text \<open>A clock that ticks once a second and a connection that accepts everything.\<close>

definition demo_clock :: "int clock" where
  "demo_clock = \<lparr> clk_now = (\<lambda>c. (c, c + 10 ^ 9)), clk_SetWriteDeadline = (\<lambda>d c. (True, c)) \<rparr>"

definition demo_rw :: "int responseWriter" where
  "demo_rw = \<lparr> rw_Header = (\<lambda>c. Map.empty), rw_setHeader = (\<lambda>h c. c), rw_WriteHeader = (\<lambda>s c. c),
               rw_Write = (\<lambda>p c. ((length p, None), c)) \<rparr>"

abbreviation demo_config :: "int httpServerConfig" where
  "demo_config \<equiv> defaultHTTPServerConfig (clk_now demo_clock)"

lemma demo_write:
  "snd (snd (writer_calls (logged_rw demo_rw) (logged_clock demo_clock) [CallWriteHeader 200, CallWrite [1, 2]]
     (new_download_writer demo_config (10 ^ 9), 10 ^ 9, []))) =
   [ClockRead 3000000000, Delivered 2] @ DeadlineSet 31000030518 #
     [ClockRead 2000000000, DeadlineSet 31000000000, ClockRead 1000000000]"
  by (simp add: progress_Write_def progress_WriteHeader_def setDeadline_def logged_rw_def logged_clock_def demo_rw_def
      demo_clock_def new_download_writer_def defaultHTTPServerConfig_def DefaultDownloadMinimumRateGrace_def
      DefaultDownloadWriteIdleTimeout_def maxDownloadDeadlineCreditBytes_def saturating_add_def MaxInt64_def
      rateAllowance_def bits_Mul64_def bits_Div64_def time_Second_def DefaultDownloadMinimumBytesPerSec_def Let_def)

theorem download_deadlines_bounded_witness:
  "(31000030518 :: int) \<le> 2 * 10 ^ 9 + DefaultDownloadWriteIdleTimeout \<and>
   snd (snd (writer_calls (logged_rw demo_rw) (logged_clock demo_clock) [CallWriteHeader 200, CallWrite [1, 2]]
     (new_download_writer demo_config (10 ^ 9), 10 ^ 9, []))) =
   [ClockRead 3000000000, Delivered 2] @ DeadlineSet 31000030518 #
     [ClockRead 2000000000, DeadlineSet 31000000000, ClockRead 1000000000]"
proof -
  obtain w c l where e: "writer_calls (logged_rw demo_rw) (logged_clock demo_clock) [CallWriteHeader 200, CallWrite [1, 2]]
       (new_download_writer demo_config (10 ^ 9), 10 ^ 9, []) = (w, c, l)"
    by (metis prod.exhaust)
  have rate: "0 < sint (downloadMinimumRate demo_config)"
    by (simp add: defaultHTTPServerConfig_def DefaultDownloadMinimumBytesPerSec_def)
  have "l = [ClockRead 3000000000, Delivered 2] @ DeadlineSet 31000030518 #
      [ClockRead 2000000000, DeadlineSet 31000000000, ClockRead 1000000000]"
    using demo_write unfolding e snd_conv .
  from download_deadlines_bounded [OF rate e [unfolded this]]
  have "31000030518 \<le> 2000000000 + downloadWriteIdleTimeout demo_config" by auto
  then show ?thesis using demo_write by (simp add: defaultHTTPServerConfig_def)
qed

end
