(* ===== verification/Portal.thy ===== *)
theory Portal
  imports Serve_Content Download_Server
begin

text \<open>
  The HTTP handler of the public portal (\<open>pkg/publicfiles/portal.go\<close>): its configuration, routing,
  authorization, query checks, the listing and download endpoints and the security headers. The storage
  behind it is the backend interface, the response writer the interface of \<open>net/http\<close>; the text of the
  embedded assets and of error values is a parameter.
\<close>

section \<open>Configuration\<close>

definition DefaultMaxActiveDownloads :: int where "DefaultMaxActiveDownloads = 64"

record Config =
  Root :: string
  VerifierFile :: string
  ConfigMaxEntries :: int
  MaxDownloads :: int

record validatedPortalConfig =
  rootPath :: string
  verifierPath :: string
  maxEntries :: nat
  maxDownloads :: nat

datatype config_error =
    RootInvalid path_error
  | VerifierFileInvalid path_error
  | DirectoryLimitInvalid
  | DownloadLimitInvalid

definition validatePortalConfig :: "Config \<Rightarrow> config_error + validatedPortalConfig" where
  "validatePortalConfig config =
     (case validateAbsoluteConfigPath (Root config) False of
        Inl e \<Rightarrow> Inl (RootInvalid e)
      | Inr root \<Rightarrow>
          (case validateAbsoluteConfigPath (VerifierFile config) True of
             Inl e \<Rightarrow> Inl (VerifierFileInvalid e)
           | Inr verifier \<Rightarrow>
               let entries = (if ConfigMaxEntries config = 0 then DefaultMaxDirectoryEntries
                              else ConfigMaxEntries config) in
               if entries < 1 \<or> DefaultMaxDirectoryEntries < entries then Inl DirectoryLimitInvalid
               else let downloads = (if MaxDownloads config = 0 then DefaultMaxActiveDownloads
                                     else MaxDownloads config) in
                 if downloads < 1 \<or> DefaultMaxActiveDownloads < downloads then Inl DownloadLimitInvalid
                 else Inr \<lparr> rootPath = root, verifierPath = verifier, maxEntries = nat entries,
                            maxDownloads = nat downloads \<rparr>))"

record portal =
  bearerVerifier :: bytes
  portal_maxEntries :: nat
  downloadSlots_cap :: nat

definition newPortalWithStorage :: "validatedPortalConfig \<Rightarrow> bytes \<Rightarrow> portal" where
  "newPortalWithStorage config verifier =
     \<lparr> bearerVerifier = verifier, portal_maxEntries = maxEntries config, downloadSlots_cap = maxDownloads config \<rparr>"

section \<open>Security headers\<close>

definition security_headers :: "(string \<times> string) list" where
  "security_headers =
     [(''Cache-Control'', ''no-store''),
      (''Content-Security-Policy'',
       ''default-src 'none'; script-src 'self'; worker-src 'self'; style-src 'self'; connect-src 'self'; base-uri 'none'; frame-ancestors 'none'; form-action 'self'' @ [CHR 0x27]),
      (''X-Frame-Options'', ''DENY''),
      (''Cross-Origin-Opener-Policy'', ''same-origin''),
      (''Cross-Origin-Resource-Policy'', ''same-origin''),
      (''Permissions-Policy'', ''camera=(), microphone=(), geolocation=(), payment=(), usb=()''),
      (''Referrer-Policy'', ''no-referrer''),
      (''X-Content-Type-Options'', ''nosniff'')]"

definition setSecurityHeaders :: "header \<Rightarrow> header" where
  "setSecurityHeaders h = fold (\<lambda>(k, v). header_Set k v) security_headers h"

text \<open>\<open>securityResponseWriter\<close> reapplies them whenever headers may be committed.\<close>

definition security_apply :: "'c responseWriter \<Rightarrow> 'c \<Rightarrow> 'c" where
  "security_apply W c = rw_setHeader W (setSecurityHeaders (rw_Header W c)) c"

definition security_rw :: "'c responseWriter \<Rightarrow> 'c responseWriter" where
  "security_rw W =
     W\<lparr> rw_WriteHeader := (\<lambda>code c. rw_WriteHeader W code (security_apply W c)),
        rw_Write := (\<lambda>pl c. rw_Write W pl (security_apply W c)) \<rparr>"

section \<open>Writing answers\<close>

definition write_payload :: "'c responseWriter \<Rightarrow> request \<Rightarrow> nat \<Rightarrow> json \<Rightarrow> 'c \<Rightarrow> 'c" where
  "write_payload W r code v c =
     (let pl = bytes_of_string (json_encode v);
          c1 = rw_Set W ''Content-Type'' ''application/json; charset=utf-8'' c;
          c2 = rw_Set W ''Content-Length'' (dec_digits (length pl)) c1;
          c3 = rw_WriteHeader W code c2
      in if req_Method r \<noteq> ''HEAD'' then snd (rw_Write W pl c3) else c3)"

definition writeError :: "'c responseWriter \<Rightarrow> request \<Rightarrow> nat \<Rightarrow> string \<Rightarrow> 'c \<Rightarrow> 'c" where
  "writeError W r code msg c = write_payload W r code (JObj [(''error'', JStr msg)]) c"

text \<open>Marshalling strings and integers cannot fail, so the error branch of \<open>writeJSON\<close> is not taken.\<close>

definition writeJSON :: "'c responseWriter \<Rightarrow> request \<Rightarrow> nat \<Rightarrow> json \<Rightarrow> 'c \<Rightarrow> 'c" where
  "writeJSON W r code v c = write_payload W r code v c"

definition methodNotAllowed :: "'c responseWriter \<Rightarrow> request \<Rightarrow> 'c \<Rightarrow> 'c" where
  "methodNotAllowed W r c = writeError W r StatusMethodNotAllowed ''method not allowed'' (rw_Set W ''Allow'' ''GET, HEAD'' c)"

definition reads_only :: "request \<Rightarrow> bool" where
  "reads_only r \<longleftrightarrow> req_Method r = ''GET'' \<or> req_Method r = ''HEAD''"

text \<open>\<open>http.Redirect\<close> to an absolute path without a query.\<close>

definition html_escape_char :: "char \<Rightarrow> string" where
  "html_escape_char c =
     (if c = CHR ''&'' then ''&amp;'' else if c = CHR ''<'' then ''&lt;'' else if c = CHR ''>'' then ''&gt;''
      else if c = CHR 0x22 then ''&#34;'' else if c = CHR 0x27 then ''&#39;'' else [c])"

definition http_Redirect :: "'c responseWriter \<Rightarrow> request \<Rightarrow> string \<Rightarrow> nat \<Rightarrow> string \<Rightarrow> 'c \<Rightarrow> 'c" where
  "http_Redirect W r url code statusText c =
     (let u0 = path_Clean url;
          u = (if suffix ''/'' url \<and> \<not> suffix ''/'' u0 then u0 @ ''/'' else u0);
          hadCT = (rw_Header W c ''Content-Type'' \<noteq> None);
          c1 = rw_Set W ''Location'' u c;
          c2 = (if \<not> hadCT \<and> reads_only r then rw_Set W ''Content-Type'' ''text/html; charset=utf-8'' c1 else c1);
          c3 = rw_WriteHeader W code c2
      in if \<not> hadCT \<and> req_Method r = ''GET''
         then snd (rw_Write W (bytes_of_string
                (''<a href='' @ [CHR 0x22] @ concat (map html_escape_char u) @ [CHR 0x22] @ ''>'' @ statusText @ ''</a>.''
                 @ [CHR 0x0A, CHR 0x0A])) c3)
         else c3)"

definition serveAsset :: "'c responseWriter \<Rightarrow> request \<Rightarrow> string \<Rightarrow> string \<Rightarrow> 'c \<Rightarrow> 'c" where
  "serveAsset W r contentType content c =
     (if \<not> reads_only r then methodNotAllowed W r c
      else let c1 = rw_Set W ''Content-Type'' contentType c;
               c2 = rw_Set W ''Content-Length'' (dec_digits (length content)) c1;
               c3 = rw_WriteHeader W StatusOK c2
        in if req_Method r = ''GET'' then snd (rw_Write W (bytes_of_string content) c3) else c3)"

section \<open>Authorization and queries\<close>

definition bearer_candidate :: "request \<Rightarrow> string" where
  "bearer_candidate r =
     (case header_Values (req_Header r) ''Authorization'' of
        [v] \<Rightarrow>
          (case strings_Cut (CHR '' '') v of
             Some (scheme, rest) \<Rightarrow> if EqualFold_ascii scheme ''Bearer'' then rest else []
           | None \<Rightarrow> [])
      | _ \<Rightarrow> [])"

definition authorized :: "portal \<Rightarrow> request \<Rightarrow> bool" where
  "authorized p r \<longleftrightarrow>
     (let candidate = bearer_candidate r in
      digestPublicBearer candidate = bearerVerifier p \<and> validPublicBearer candidate)"

datatype query_error = QueryMalformed | QueryCredentials | QueryOnePathOnly

text \<open>\<open>strings.ToLower\<close> as far as comparing with a lower-case ASCII word needs it: besides the ASCII
  letters only the Kelvin sign and the dotted capital I have an ASCII lower case.\<close>

definition lower_rune :: "nat \<Rightarrow> nat" where
  "lower_rune u =
     (if 65 \<le> u \<and> u \<le> 90 then u + 32 else if u = 0x212A then 107 else if u = 0x130 then 105 else u)"

definition lower_equals :: "string \<Rightarrow> string \<Rightarrow> bool" where
  "lower_equals s word \<longleftrightarrow> map_option (map lower_rune) (runes s) = Some (map of_char word)"

definition credential_key :: "string \<Rightarrow> bool" where
  "credential_key key \<longleftrightarrow>
     list_ex (lower_equals key) [''token'', ''access_token'', ''authorization'', ''api_key'', ''apikey'']"

text \<open>The loop over the parameter map, in the order in which the keys first occur. Go's map order is
  unspecified: it can change which of the errors is returned, not whether there is one.\<close>

fun check_query_keys :: "(string \<times> string) list \<Rightarrow> string list \<Rightarrow> query_error option" where
  "check_query_keys q [] = None"
| "check_query_keys q (key # keys) =
     (if credential_key key then Some QueryCredentials
      else if key \<noteq> ''path'' \<or> length (filter (\<lambda>p. fst p = key) q) \<noteq> 1 then Some QueryOnePathOnly
      else check_query_keys q keys)"

definition parseSafeQuery :: "string \<Rightarrow> query_error + (string \<times> string) list" where
  "parseSafeQuery rawQuery =
     (case url_ParseQuery rawQuery of
        Inl _ \<Rightarrow> Inl QueryMalformed
      | Inr q \<Rightarrow> (case check_query_keys q (remdups (map fst q)) of Some e \<Rightarrow> Inl e | None \<Rightarrow> Inr q))"

definition query_Get :: "(string \<times> string) list \<Rightarrow> string \<Rightarrow> string" where
  "query_Get q k = (case map_of q k of None \<Rightarrow> [] | Some v \<Rightarrow> v)"

text \<open>The path of a request, or the message of the 400 answer.\<close>

definition requested_path :: "request \<Rightarrow> bool \<Rightarrow> string + string" where
  "requested_path r allowRoot =
     (case parseSafeQuery (req_RawQuery r) of
        Inl _ \<Rightarrow> Inl ''invalid query''
      | Inr q \<Rightarrow>
          (case validateRelativePath (query_Get q ''path'') allowRoot of
             Inl _ \<Rightarrow> Inl ''invalid relative path''
           | Inr relativePath \<Rightarrow> Inr relativePath))"

definition unauthorized_answer :: "'c responseWriter \<Rightarrow> request \<Rightarrow> 'c \<Rightarrow> 'c" where
  "unauthorized_answer W r c =
     writeError W r StatusUnauthorized ''authorization required''
       (rw_Set W ''WWW-Authenticate'' (''Bearer realm='' @ [CHR 0x22] @ ''ReCasaOS public files'' @ [CHR 0x22]) c)"

definition capacity_answer :: "'c responseWriter \<Rightarrow> request \<Rightarrow> string \<Rightarrow> 'c \<Rightarrow> 'c" where
  "capacity_answer W r msg c = writeError W r StatusServiceUnavailable msg (rw_Set W ''Retry-After'' ''5'' c)"

section \<open>Listing\<close>

fun bytes_less :: "string \<Rightarrow> string \<Rightarrow> bool" where
  "bytes_less _ [] = False"
| "bytes_less [] (_ # _) = True"
| "bytes_less (a # as) (b # bs) =
     ((of_char a :: nat) < of_char b \<or> a = b \<and> bytes_less as bs)"

definition entry_less :: "Entry \<Rightarrow> Entry \<Rightarrow> bool" where
  "entry_less a b =
     (if EntryType a \<noteq> EntryType b then EntryType a = ''directory'' else bytes_less (EntryName a) (EntryName b))"

text \<open>\<open>sort.Slice\<close>, whose result is determined by the order up to elements neither of which is less.\<close>

fun insert_by :: "('a \<Rightarrow> 'a \<Rightarrow> bool) \<Rightarrow> 'a \<Rightarrow> 'a list \<Rightarrow> 'a list" where
  "insert_by lt x [] = [x]"
| "insert_by lt x (y # ys) = (if lt y x then y # insert_by lt x ys else x # y # ys)"

definition sort_Slice :: "('a \<Rightarrow> 'a \<Rightarrow> bool) \<Rightarrow> 'a list \<Rightarrow> 'a list" where
  "sort_Slice lt xs = foldr (insert_by lt) xs []"

definition list_error_answer :: "'c responseWriter \<Rightarrow> request \<Rightarrow> storage_error \<Rightarrow> 'c \<Rightarrow> 'c" where
  "list_error_answer W r e c =
     (if e = errStorageCapacity \<or> e = errStorageTimeout then capacity_answer W r ''storage capacity unavailable'' c
      else if e = errEntryLimit then writeError W r StatusRequestEntityTooLarge ''directory entry limit exceeded'' c
      else if isHiddenFilesystemError e then writeError W r StatusNotFound ''not found'' c
      else writeError W r StatusInternalServerError ''unable to list directory'' c)"

definition listing_json :: "string \<Rightarrow> Entry list \<Rightarrow> json" where
  "listing_json relativePath entries =
     JObj [(''path'', JStr relativePath), (''entries'', JArr (map entry_json entries))]"

definition serveList ::
    "'c responseWriter \<Rightarrow> ('x, 's) storageBackend \<Rightarrow> portal \<Rightarrow> request \<Rightarrow> 'c \<Rightarrow> 's \<Rightarrow> 'c \<times> 's" where
  "serveList W B p r c s =
     (if \<not> reads_only r then (methodNotAllowed W r c, s)
      else if \<not> authorized p r then (unauthorized_answer W r c, s)
      else case requested_path r True of
        Inl msg \<Rightarrow> (writeError W r StatusBadRequest msg c, s)
      | Inr relativePath \<Rightarrow>
          (case be_list B relativePath (portal_maxEntries p) s of
             (Inl e, s1) \<Rightarrow> (list_error_answer W r e c, s1)
           | (Inr entries, s1) \<Rightarrow>
               (writeJSON W r StatusOK (listing_json relativePath (sort_Slice entry_less entries)) c, s1)))"

section \<open>Downloads\<close>

definition isFileNavigation :: "request \<Rightarrow> bool" where
  "isFileNavigation r \<longleftrightarrow>
     (let destination = header_Get (req_Header r) ''Sec-Fetch-Dest'' in
      header_Get (req_Header r) ''Sec-Fetch-Mode'' = ''navigate'' \<and>
      (destination = ''document'' \<or> destination = ''iframe''))"

definition formatDownloadContentDisposition :: "string \<Rightarrow> string" where
  "formatDownloadContentDisposition filename =
     (if \<not> isSafeVisibleName filename then ''attachment''
      else let disposition = FormatMediaType ''attachment'' ''filename'' filename in
        if disposition = [] then ''attachment'' else disposition)"

definition open_error_answer :: "'c responseWriter \<Rightarrow> request \<Rightarrow> storage_error \<Rightarrow> 'c \<Rightarrow> 'c" where
  "open_error_answer W r e c =
     (if e = errStorageCapacity \<or> e = errStorageTimeout then capacity_answer W r ''storage capacity unavailable'' c
      else if isHiddenFilesystemError e then writeError W r StatusNotFound ''not found'' c
      else writeError W r StatusInternalServerError ''unable to open file'' c)"

definition several_ranges :: "request \<Rightarrow> bool" where
  "several_ranges r \<longleftrightarrow>
     (let ranges = header_Values (req_Header r) ''Range'' in
      1 < length ranges \<or> length ranges = 1 \<and> CHR '','' \<in> set (ranges ! 0))"

datatype outcome = Returned | AbortHandler   \<comment> \<open>\<open>panic(http.ErrAbortHandler)\<close>\<close>

text \<open>The part of \<open>serveFile\<close> that holds the open file; \<open>None\<close> when the copy does not end.\<close>

definition serve_opened ::
    "'c responseWriter \<Rightarrow> ('x, 's) storageFile \<Rightarrow> (storage_error \<Rightarrow> string) \<Rightarrow> request \<Rightarrow> string \<Rightarrow> i64 \<Rightarrow>
     'c \<Rightarrow> 'x \<Rightarrow> (outcome \<times> 'c \<times> 'x) option" where
  "serve_opened W F errText r relativePath infoSize c x =
     (if several_ranges r
      then Some (Returned,
        writeError W r StatusRequestedRangeNotSatisfiable ''multiple ranges are not supported''
          (rw_Set W ''Content-Range'' (''bytes */'' @ strconv_FormatInt (sint infoSize)) c), x)
      else let c1 = rw_Set W ''Content-Disposition'' (formatDownloadContentDisposition (path_Base relativePath)) c;
               c2 = rw_Set W ''Content-Type'' ''application/octet-stream'' c1;
               c3 = rw_Set W ''Accept-Ranges'' ''bytes'' c2
        in map_option (\<lambda>(c4, x1). (if sf_sourceError F x1 \<noteq> None then AbortHandler else Returned, c4, x1))
             (ServeContent W F errText r c3 x))"

text \<open>The part of \<open>serveFile\<close> that holds a download slot.\<close>

definition serve_slot ::
    "'c responseWriter \<Rightarrow> ('x, 's) storageBackend \<Rightarrow> (storage_error \<Rightarrow> string) \<Rightarrow> request \<Rightarrow> string \<Rightarrow>
     'c \<Rightarrow> 's \<Rightarrow> (outcome \<times> 'c \<times> 's) option" where
  "serve_slot W B errText r relativePath c s =
     (case be_openRegular B relativePath s of
        Inl (e, s1) \<Rightarrow> Some (Returned, open_error_answer W r e c, s1)
      | Inr (infoSize, x) \<Rightarrow>
          map_option (\<lambda>(out, c1, x1). (out, c1, sf_Close (be_file B) x1))
            (serve_opened W (be_file B) errText r relativePath infoSize c x))"

text \<open>The checks of \<open>serveFile\<close> before a slot is taken: the answer, or the path to open.\<close>

definition file_admission :: "'c responseWriter \<Rightarrow> portal \<Rightarrow> request \<Rightarrow> 'c \<Rightarrow> 'c + string" where
  "file_admission W p r c =
     (if req_Method r = ''POST'' \<and> isFileNavigation r \<and> \<not> authorized p r
      then Inl (rw_WriteHeader W StatusNoContent c)
      else if \<not> reads_only r then Inl (methodNotAllowed W r c)
      else if \<not> authorized p r
      then Inl (if req_Method r = ''GET'' \<and> isFileNavigation r then rw_WriteHeader W StatusNoContent c
                else unauthorized_answer W r c)
      else case requested_path r False of
        Inl msg \<Rightarrow> Inl (writeError W r StatusBadRequest msg c)
      | Inr relativePath \<Rightarrow> Inr relativePath)"

definition serveFile ::
    "'c responseWriter \<Rightarrow> ('x, 's) storageBackend \<Rightarrow> (storage_error \<Rightarrow> string) \<Rightarrow> portal \<Rightarrow> request \<Rightarrow>
     'c \<Rightarrow> nat \<Rightarrow> 's \<Rightarrow> (outcome \<times> 'c \<times> nat \<times> 's) option" where
  "serveFile W B errText p r c taken s =
     (case file_admission W p r c of
        Inl c1 \<Rightarrow> Some (Returned, c1, taken, s)
      | Inr relativePath \<Rightarrow>
          if taken < downloadSlots_cap p
          then map_option (\<lambda>(out, c1, s1). (out, c1, (taken + 1) - 1, s1)) (serve_slot W B errText r relativePath c s)
          else Some (Returned, capacity_answer W r ''download capacity reached'' c, taken, s))"

section \<open>Routing\<close>

definition isStaticEntryPath :: "string \<Rightarrow> bool" where
  "isStaticEntryPath path \<longleftrightarrow>
     path \<in> set [BasePath, BasePath @ ''/'', BasePath @ ''/app.js'', BasePath @ ''/download-worker.js'',
                  BasePath @ ''/style.css'']"

record portal_assets =
  portalHTML :: string
  portalJavaScript :: string
  downloadWorkerJavaScript :: string
  portalCSS :: string

definition ServeHTTP ::
    "'c responseWriter \<Rightarrow> ('x, 's) storageBackend \<Rightarrow> (storage_error \<Rightarrow> string) \<Rightarrow> portal_assets \<Rightarrow> portal \<Rightarrow>
     request \<Rightarrow> 'c \<Rightarrow> nat \<Rightarrow> 's \<Rightarrow> (outcome \<times> 'c \<times> nat \<times> 's) option" where
  "ServeHTTP W0 B errText assets p r c0 taken s =
     (let W = security_rw W0; c = security_apply W0 c0; static = (\<lambda>c1. Some (Returned, c1, taken, s)) in
      if req_RawQuery r \<noteq> [] \<and> isStaticEntryPath (req_Path r)
      then static (writeError W r StatusBadRequest ''invalid query'' c)
      else if req_Path r = BasePath
      then static (if \<not> reads_only r then methodNotAllowed W r c
                   else http_Redirect W r (BasePath @ ''/'') StatusPermanentRedirect ''Permanent Redirect'' c)
      else if req_Path r = BasePath @ ''/''
      then static (serveAsset W r ''text/html; charset=utf-8'' (portalHTML assets) c)
      else if req_Path r = BasePath @ ''/app.js''
      then static (serveAsset W r ''text/javascript; charset=utf-8'' (portalJavaScript assets) c)
      else if req_Path r = BasePath @ ''/download-worker.js''
      then static (serveAsset W r ''text/javascript; charset=utf-8'' (downloadWorkerJavaScript assets)
                     (rw_Set W ''Service-Worker-Allowed'' (BasePath @ ''/'') c))
      else if req_Path r = BasePath @ ''/style.css''
      then static (serveAsset W r ''text/css; charset=utf-8'' (portalCSS assets) c)
      else if req_Path r = BasePath @ ''/api/list''
      then (case serveList W B p r c s of (c1, s1) \<Rightarrow> Some (Returned, c1, taken, s1))
      else if req_Path r = BasePath @ ''/api/file'' then serveFile W B errText p r c taken s
      else static (writeError W r StatusNotFound ''not found'' c))"

section \<open>The header policy reaches the client\<close>

text \<open>What the portal needs of a response writer: before anything is sent the header can be replaced
  freely, and the first \<open>WriteHeader\<close> or \<open>Write\<close> sends a header that satisfies the policy when the
  writer's header does.\<close>

definition carries_policy :: "header \<Rightarrow> bool" where
  "carries_policy h \<longleftrightarrow> (\<forall>(k, v) \<in> set security_headers. header_Get h k = v)"

locale policy_writer =
  fixes W :: "'c responseWriter" and fresh :: "'c \<Rightarrow> bool" and sent :: "'c \<Rightarrow> bool"
  assumes header_replaced: "rw_Header W (rw_setHeader W h c) = h"
    and fresh_set: "fresh c \<Longrightarrow> fresh (rw_setHeader W h c)"
    and sent_set: "sent c \<Longrightarrow> sent (rw_setHeader W h c)"
    and first_WriteHeader: "fresh c \<Longrightarrow> carries_policy (rw_Header W c) \<Longrightarrow> sent (rw_WriteHeader W code c)"
    and later_WriteHeader: "sent c \<Longrightarrow> sent (rw_WriteHeader W code c)"
    and first_Write: "fresh c \<Longrightarrow> carries_policy (rw_Header W c) \<Longrightarrow> sent (snd (rw_Write W pl c))"
    and later_Write: "sent c \<Longrightarrow> sent (snd (rw_Write W pl c))"

lemma canonical_security: "list_all (\<lambda>(k, v). CanonicalHeaderKey k = k) security_headers"
  by code_simp

lemma carries_policy_set: "carries_policy (setSecurityHeaders h)"
  using canonical_security
  by (simp add: carries_policy_def setSecurityHeaders_def security_headers_def)

context policy_writer
begin

definition good :: "'c \<Rightarrow> bool" where "good c \<longleftrightarrow> fresh c \<or> sent c"

lemma good_set [simp]: "good c \<Longrightarrow> good (rw_setHeader (security_rw W) h c)"
  by (auto simp: good_def security_rw_def fresh_set sent_set)

lemma sent_set' [simp]: "sent c \<Longrightarrow> sent (rw_setHeader (security_rw W) h c)"
  by (simp add: security_rw_def sent_set)

lemma good_Set [simp]: "good c \<Longrightarrow> good (rw_Set (security_rw W) k v c)"
  by (simp add: rw_Set_def good_set)

lemma good_Del [simp]: "good c \<Longrightarrow> good (rw_Del (security_rw W) k c)"
  by (simp add: rw_Del_def good_set)

lemma sent_good [simp]: "sent c \<Longrightarrow> good c"
  by (simp add: good_def)

lemma security_WriteHeader [simp]: "good c \<Longrightarrow> sent (rw_WriteHeader (security_rw W) code c)"
  by (auto simp: good_def security_rw_def security_apply_def header_replaced carries_policy_set
      intro: first_WriteHeader later_WriteHeader fresh_set sent_set)

lemma security_Write [simp]: "good c \<Longrightarrow> sent (snd (rw_Write (security_rw W) pl c))"
  by (auto simp: good_def security_rw_def security_apply_def header_replaced carries_policy_set
      intro: first_Write later_Write fresh_set sent_set)

lemma write_payload_sent [simp]: "good c \<Longrightarrow> sent (write_payload (security_rw W) r code v c)"
  by (auto simp: write_payload_def Let_def)

lemma answers_sent [simp]:
  "good c \<Longrightarrow> sent (writeError (security_rw W) r code msg c)"
  "good c \<Longrightarrow> sent (writeJSON (security_rw W) r code v c)"
  "good c \<Longrightarrow> sent (methodNotAllowed (security_rw W) r c)"
  "good c \<Longrightarrow> sent (unauthorized_answer (security_rw W) r c)"
  "good c \<Longrightarrow> sent (capacity_answer (security_rw W) r msg c)"
  "good c \<Longrightarrow> sent (list_error_answer (security_rw W) r e c)"
  "good c \<Longrightarrow> sent (open_error_answer (security_rw W) r e c)"
  "good c \<Longrightarrow> sent (serveAsset (security_rw W) r t txt c)"
  "good c \<Longrightarrow> sent (serveError (security_rw W) msg code c)"
  "good c \<Longrightarrow> sent (writeNotModified (security_rw W) c)"
  by (auto simp: writeError_def writeJSON_def methodNotAllowed_def unauthorized_answer_def capacity_answer_def
      list_error_answer_def open_error_answer_def serveAsset_def serveError_def writeNotModified_def Let_def)

lemma redirect_sent [simp]: "good c \<Longrightarrow> sent (http_Redirect (security_rw W) r url code txt c)"
  by (auto simp: http_Redirect_def Let_def)

lemma copy_loop_sent: "copy_loop (security_rw W) F b n c x = Some (c', x') \<Longrightarrow> sent c \<Longrightarrow> sent c'"
  by (rule copy_loop_invariant [where Q = "\<lambda>c x. sent c"]) auto

lemma send_content_sent:
  "send_content (security_rw W) F r code ranged k c x = Some (c', x') \<Longrightarrow> good c \<Longrightarrow> sent c'"
  by (auto simp: send_content_def Let_def split: if_splits elim!: copy_loop_sent)

lemma ServeContent_sent:
  assumes "ServeContent (security_rw W) F errText r c x = Some (c', x')" "good c"
  shows "sent c'"
proof -
  have p: "sent c1" if "checkPreconditions (security_rw W) r c = Inl c1" for c1
    using that assms(2) by (auto simp: checkPreconditions_def Let_def split: if_splits)
  have s: "sent c'" if "serve_ranges (security_rw W) F errText r rs k c x1 = Some (c', x')" for rs k x1
    using that assms(2)
    by (auto simp: serve_ranges_def Let_def split: list.splits sum.splits prod.splits if_splits
        elim!: send_content_sent)
  show ?thesis using assms p s
    by (auto simp: ServeContent_def Let_def split: sum.splits prod.splits option.splits if_splits)
qed

lemma serveFile_sent:
  assumes "serveFile (security_rw W) B errText p r c taken s = Some (out, c', taken', s')" "good c"
  shows "sent c'"
proof -
  have a: "sent c1" if "file_admission (security_rw W) p r c = Inl c1" for c1
    using that assms(2) by (auto simp: file_admission_def split: if_splits sum.splits)
  have o: "sent c1" if "serve_opened (security_rw W) F errText r rel sz c x = Some (out, c1, x1)" for F rel sz x c1 x1
    using that assms(2)
    by (auto simp: serve_opened_def Let_def split: if_splits elim!: ServeContent_sent)
  show ?thesis using assms a o
    by (auto simp: serveFile_def serve_slot_def split: sum.splits if_splits prod.splits)
qed

lemma ServeHTTP_sent:
  assumes "ServeHTTP W B errText assets p r c taken s = Some (out, c', taken', s')" "fresh c"
  shows "sent c'"
proof -
  have g: "good (security_apply W c)"
    using assms(2) by (simp add: security_apply_def good_def fresh_set)
  have l: "sent (fst (serveList (security_rw W) B p r (security_apply W c) s))"
    using g by (auto simp: serveList_def split: sum.split prod.split)
  show ?thesis using assms(1) g l
    by (auto simp: ServeHTTP_def Let_def split: if_splits prod.splits elim!: serveFile_sent)
qed

end

subsection \<open>The server's writers\<close>

definition sent_response :: "'n response \<Rightarrow> bool" where
  "sent_response c \<longleftrightarrow> (\<exists>code h. rsp_committed c = Some (code, h) \<and> carries_policy h)"

definition fresh_response :: "'n response \<Rightarrow> bool" where
  "fresh_response c \<longleftrightarrow> rsp_committed c = None"

lemma response_Write_committed:
  "rsp_committed (snd (response_Write isHead conn pl w)) = rsp_committed (response_WriteHeader StatusOK w)"
  by (simp add: response_Write_def Let_def split: prod.split)

lemma response_rw_sel [simp]:
  "rw_Header (response_rw isHead conn) = rsp_header"
  "rw_setHeader (response_rw isHead conn) = (\<lambda>h w. w\<lparr>rsp_header := h\<rparr>)"
  "rw_WriteHeader (response_rw isHead conn) = response_WriteHeader"
  "rw_Write (response_rw isHead conn) = response_Write isHead conn"
  by (simp_all add: response_rw_def)

interpretation plain: policy_writer "response_rw isHead conn" fresh_response sent_response for isHead conn
  by unfold_locales
    (auto simp: fresh_response_def sent_response_def response_WriteHeader_def response_Write_committed)

text \<open>The clock and the deadline of a connection.\<close>

definition response_clock :: "'n clock \<Rightarrow> 'n response clock" where
  "response_clock C =
     \<lparr> clk_now = (\<lambda>w. case clk_now C (rsp_net w) of (t, n) \<Rightarrow> (t, w\<lparr>rsp_net := n\<rparr>)),
       clk_SetWriteDeadline =
         (\<lambda>d w. case clk_SetWriteDeadline C d (rsp_net w) of (ok, n) \<Rightarrow> (ok, w\<lparr>rsp_net := n\<rparr>)) \<rparr>"

lemma response_clock_now: "clk_now (response_clock C) w = (case clk_now C (rsp_net w) of (t, n) \<Rightarrow> (t, w\<lparr>rsp_net := n\<rparr>))"
  by (simp add: response_clock_def)

lemma setDeadline_response:
  "setDeadline (response_clock C) n w c = (e, w1, c1) \<Longrightarrow>
   rsp_header c1 = rsp_header c \<and> rsp_committed c1 = rsp_committed c \<and> pw_wroteHeader w1 = pw_wroteHeader w"
  by (auto simp: setDeadline_def response_clock_def Let_def split: prod.splits if_splits)

definition other_key :: "string \<Rightarrow> bool" where
  "other_key k \<longleftrightarrow> list_all (\<lambda>(k', v). CanonicalHeaderKey k' \<noteq> CanonicalHeaderKey k) security_headers"

lemma carries_policy_other:
  assumes "other_key k"
  shows "carries_policy (header_Del k h) = carries_policy h" "carries_policy (header_Set k v h) = carries_policy h"
proof -
  have k: "CanonicalHeaderKey k' \<noteq> CanonicalHeaderKey k" if "(k', v) \<in> set security_headers" for k' v
    using assms that by (auto simp: other_key_def list_all_iff)
  show "carries_policy (header_Del k h) = carries_policy h" "carries_policy (header_Set k v h) = carries_policy h"
    unfolding carries_policy_def by (rule ball_cong; use k in auto)+
qed

lemma carries_policy_fold_Del: "list_all other_key ks \<Longrightarrow> carries_policy (fold header_Del ks h) = carries_policy h"
  by (induction ks arbitrary: h) (simp_all add: carries_policy_other)

lemma other_keys:
  "list_all other_key
     [''Accept-Ranges'', ''Content-Disposition'', ''Content-Encoding'', ''Content-Location'', ''Content-Length'',
      ''Content-Range'', ''Content-Type'', ''ETag'', ''Last-Modified'', ''Trailer'', ''Transfer-Encoding'']"
  "other_key ''Content-Length''" "other_key ''Connection''"
  by (simp_all add: other_key_def security_headers_def CanonicalHeaderKey_def token_byte_def ascii_upper_def
      ascii_lower_def Let_def)

lemma carries_policy_cleared:
  "carries_policy (clearDownloadRepresentationHeaders h) = carries_policy h"
  "carries_policy (header_Set ''Content-Length'' v h) = carries_policy h"
  "carries_policy (header_Set ''Connection'' v h) = carries_policy h"
  unfolding clearDownloadRepresentationHeaders_def
  by (rule carries_policy_fold_Del [OF other_keys(1)] carries_policy_other(2) [OF other_keys(2)]
      carries_policy_other(2) [OF other_keys(3)])+

definition sent_bounded :: "progressBoundedWriter \<times> 'n response \<Rightarrow> bool" where
  "sent_bounded st \<longleftrightarrow> pw_wroteHeader (fst st) \<and> sent_response (snd st)"

definition fresh_bounded :: "progressBoundedWriter \<times> 'n response \<Rightarrow> bool" where
  "fresh_bounded st \<longleftrightarrow> \<not> pw_wroteHeader (fst st) \<and> fresh_response (snd st)"

abbreviation bounded_rw ::
    "bool \<Rightarrow> (bytes \<Rightarrow> 'n \<Rightarrow> (nat \<times> http_error option) \<times> 'n) \<Rightarrow> 'n clock \<Rightarrow>
     (progressBoundedWriter \<times> 'n response) responseWriter" where
  "bounded_rw isHead conn C \<equiv> progress_rw (response_rw isHead conn) (response_clock C)"

lemma bounded_WriteHeader_first:
  assumes "fresh_bounded st" "carries_policy (rsp_header (snd st))"
  shows "sent_bounded (progress_WriteHeader (response_rw isHead conn) (response_clock C) code st)"
proof -
  obtain w c where st: "st = (w, c)" by (rule prod.exhaust)
  obtain e w1 c1 where d: "setDeadline (response_clock C) 0 (w\<lparr>pw_wroteHeader := True\<rparr>) c = (e, w1, c1)"
    by (metis prod.exhaust)
  show ?thesis using assms setDeadline_response [OF d]
    by (auto simp: st progress_WriteHeader_def d fresh_bounded_def sent_bounded_def fresh_response_def sent_response_def
        rw_Set_def response_WriteHeader_def carries_policy_cleared split: option.split)
qed

lemma bounded_WriteHeader_later:
  "sent_bounded st \<Longrightarrow> progress_WriteHeader W C code st = st"
  by (auto simp: progress_WriteHeader_def sent_bounded_def split: prod.split)

lemma bounded_Write_later:
  assumes "sent_bounded st"
  shows "sent_bounded (snd (progress_Write (response_rw isHead conn) (response_clock C) pl st))"
proof -
  obtain w c where st: "st = (w, c)" by (rule prod.exhaust)
  obtain e w1 c1 where d: "setDeadline (response_clock C) (length pl) w c = (e, w1, c1)" by (metis prod.exhaust)
  obtain n er c2 where r: "response_Write isHead conn pl c1 = ((n, er), c2)" by (metis prod.exhaust)
  obtain x m where t: "clk_now C (rsp_net c2) = (x, m)" by (rule prod.exhaust)
  have h: "pw_wroteHeader w" "sent_response c" using assms by (simp_all add: st sent_bounded_def)
  have k: "pw_wroteHeader w1" "sent_response c1" using h setDeadline_response [OF d] by (auto simp: sent_response_def)
  then have "sent_response c2" using response_Write_committed [of isHead conn pl c1] r
    by (auto simp: sent_response_def response_WriteHeader_def)
  then have "sent_response c2" "sent_response (c2\<lparr>rsp_net := m\<rparr>)" by (auto simp: sent_response_def)
  with h k show ?thesis
    by (simp add: st progress_Write_def d r t sent_bounded_def response_clock_now split: option.split)
qed

lemma bounded_Write_first:
  assumes "fresh_bounded st" "carries_policy (rsp_header (snd st))"
  shows "sent_bounded (snd (progress_Write (response_rw isHead conn) (response_clock C) pl st))"
proof -
  let ?st = "progress_WriteHeader (response_rw isHead conn) (response_clock C) StatusOK st"
  have s: "sent_bounded ?st" by (rule bounded_WriteHeader_first [OF assms])
  have "progress_Write (response_rw isHead conn) (response_clock C) pl st =
      progress_Write (response_rw isHead conn) (response_clock C) pl ?st"
    using assms(1) s by (simp add: progress_Write_def fresh_bounded_def sent_bounded_def)
  then show ?thesis using bounded_Write_later [OF s] by simp
qed

interpretation bounded: policy_writer "bounded_rw isHead conn C" fresh_bounded sent_bounded for isHead conn C
  by unfold_locales
    (simp_all add: progress_rw_def bounded_WriteHeader_first bounded_WriteHeader_later bounded_Write_first
      bounded_Write_later, simp_all add: fresh_bounded_def sent_bounded_def fresh_response_def sent_response_def)

text \<open>C21. Every answer of the portal that is sent at all carries the complete header policy (no caching,
  content security policy, framing, opener, resource, permissions, referrer and sniffing rules),
  whatever the route, the method, the storage result or the connection, both through the server's own
  writer and through the progress-bounded writer of downloads, which replaces the answer when it
  cannot set a deadline.\<close>

theorem every_answer_carries_the_policy:
  assumes "ServeHTTP (response_rw isHead conn) B errText assets p r (new_response n) taken s = Some (out, c, taken', s')"
    and "ServeHTTP (bounded_rw isHead conn C) B' errText' assets' p' r'
           (new_download_writer config t, new_response n) u s1 = Some (out', (w, c'), u', s1')"
  shows "(\<exists>code h. rsp_committed c = Some (code, h) \<and> (\<forall>(k, v) \<in> set security_headers. header_Get h k = v)) \<and>
    (\<exists>code h. rsp_committed c' = Some (code, h) \<and> (\<forall>(k, v) \<in> set security_headers. header_Get h k = v))"
proof -
  have "sent_response c" using plain.ServeHTTP_sent [OF assms(1)] by (simp add: fresh_response_def new_response_def)
  moreover have "sent_bounded (w, c')"
    using bounded.ServeHTTP_sent [OF assms(2)]
    by (simp add: fresh_bounded_def fresh_response_def new_response_def new_download_writer_def)
  ultimately show ?thesis by (simp add: sent_bounded_def sent_response_def carries_policy_def)
qed

definition demo_request :: request where
  "demo_request = \<lparr> req_Method = ''GET'', req_Path = ''/x'', req_RawQuery = [], req_Header = Map.empty \<rparr>"

lemma demo_not_found:
  "\<exists>c. ServeHTTP W B errText assets p demo_request c0 taken s = Some (Returned, c, taken, s)"
  by (simp add: ServeHTTP_def demo_request_def isStaticEntryPath_def BasePath_def Let_def)

theorem every_answer_carries_the_policy_witness:
  "\<exists>c code h. ServeHTTP (response_rw False (\<lambda>d n. ((length d, None), n)))
       (undefined :: (unit, unit) storageBackend) (\<lambda>e. []) \<lparr> portalHTML = [], portalJavaScript = [],
         downloadWorkerJavaScript = [], portalCSS = [] \<rparr>
       \<lparr> bearerVerifier = [], portal_maxEntries = 1, downloadSlots_cap = 1 \<rparr> demo_request (new_response ()) 0 () =
       Some (Returned, c, 0, ()) \<and> rsp_committed c = Some (code, h) \<and> header_Get h ''X-Frame-Options'' = ''DENY''"
  (is "\<exists>c code h. ServeHTTP (response_rw False ?conn) ?B ?et ?as ?p _ _ 0 () = _ \<and> _")
proof -
  obtain c where c: "ServeHTTP (response_rw False ?conn) ?B ?et ?as ?p demo_request (new_response ()) 0 () =
      Some (Returned, c, 0, ())" by (rule exE [OF demo_not_found])
  obtain st where st: "ServeHTTP (bounded_rw False ?conn \<lparr> clk_now = Pair 0, clk_SetWriteDeadline = (\<lambda>d n. (True, n)) \<rparr>)
      ?B ?et ?as ?p demo_request
      (new_download_writer (defaultHTTPServerConfig (Pair (0 :: int) :: unit \<Rightarrow> int \<times> unit)) 0, new_response ()) 0 () =
      Some (Returned, st, 0, ())" by (rule exE [OF demo_not_found])
  obtain w c' where "st = (w, c')" by (rule prod.exhaust)
  note c' = st [unfolded this]
  have "(''X-Frame-Options'', ''DENY'') \<in> set security_headers" by (simp add: security_headers_def)
  moreover obtain code h where "rsp_committed c = Some (code, h)"
      "\<forall>(k, v) \<in> set security_headers. header_Get h k = v"
    using every_answer_carries_the_policy [OF c c'] by (elim conjE exE)
  ultimately show ?thesis using c by (intro exI [of _ c] exI [of _ code] exI [of _ h] conjI) auto
qed

end
