(* ===== verification/Portal_Downloads.thy ===== *)
theory Portal_Downloads
  imports Portal
begin

text \<open>
  A download from the request to the last byte: the copy loop of \<open>http.ServeContent\<close> over the isolated
  storage file and the security writer, the byte range a request asks for, and the handler of
  \<open>pkg/publicfiles/portal.go\<close> around them.
\<close>

section \<open>Downloads deliver the file\<close>

text \<open>A connection that accepts every write.\<close>

definition accepting :: "(bytes \<Rightarrow> 'n \<Rightarrow> (nat \<times> http_error option) \<times> 'n) \<Rightarrow> bool" where
  "accepting conn \<longleftrightarrow> (\<forall>data n. fst (conn data n) = (length data, None))"

definition open_body ::
    "(bytes \<Rightarrow> 'n \<Rightarrow> (nat \<times> http_error option) \<times> 'n) \<Rightarrow> nat \<Rightarrow> header \<Rightarrow> nat \<Rightarrow> bytes \<Rightarrow> 'n response \<Rightarrow> bool" where
  "open_body conn code h m b c \<longleftrightarrow>
     accepting conn \<and> rsp_committed c = Some (code, h) \<and> bodyAllowedForStatus code \<and>
     rsp_contentLength c = Some (rsp_written c + m) \<and> rsp_body c = b"

abbreviation secured_rw ::
    "(bytes \<Rightarrow> 'n \<Rightarrow> (nat \<times> http_error option) \<times> 'n) \<Rightarrow> 'n response responseWriter" where
  "secured_rw conn \<equiv> security_rw (response_rw False conn)"

interpretation secured: body_writer "secured_rw conn" "open_body conn code h" for conn code h
proof unfold_locales
  fix m b c and data :: bytes
  assume o: "open_body conn code h m b c" "data \<noteq> []" "length data \<le> m"
  obtain n' where k: "conn data (rsp_net c) = ((length data, None), n')"
    using o(1) by (metis accepting_def open_body_def prod.collapse)
  show "\<exists>c'. rw_Write (secured_rw conn) data c = ((length data, None), c') \<and>
      open_body conn code h (m - length data) (b @ data) c'"
    using o k by (auto simp: security_rw_def security_apply_def response_Write_def response_WriteHeader_def open_body_def)
qed

interpretation isolated_download:
  content_copy "isolated_file (served_session euid K pread)" "isolated_at pread" "secured_rw conn" "open_body conn code h"
  for euid K pread conn code h
  by (intro content_copy.intro isolated.content_file_axioms secured.body_writer_axioms)

lemma security_keeps_other:
  assumes "other_key k"
  shows "header_Get (setSecurityHeaders h) k = header_Get h k"
proof -
  have "header_Get (fold (\<lambda>(k, v). header_Set k v) kvs h) k = header_Get h k"
    if "list_all (\<lambda>(k', v). CanonicalHeaderKey k' \<noteq> CanonicalHeaderKey k) kvs" for kvs h
    using that by (induction kvs arbitrary: h) auto
  then show ?thesis using assms by (simp add: setSecurityHeaders_def other_key_def)
qed

lemma file_keys:
  "other_key ''Content-Range'' \<and> other_key ''Content-Disposition''"
  "CanonicalHeaderKey ''Content-Range'' = ''Content-Range''"
  "CanonicalHeaderKey ''Content-Disposition'' = ''Content-Disposition''"
  "CanonicalHeaderKey ''Content-Encoding'' = ''Content-Encoding''"
  "CanonicalHeaderKey ''Content-Type'' = ''Content-Type''"
  "CanonicalHeaderKey ''Accept-Ranges'' = ''Accept-Ranges''"
  "CanonicalHeaderKey ''Content-Length'' = ''Content-Length''"
  "CanonicalHeaderKey ''Etag'' = ''Etag''"
  using other_keys(1)
  by (simp, simp_all add: CanonicalHeaderKey_def token_byte_def ascii_upper_def ascii_lower_def Let_def)

lemma send_content_response:
  assumes F: "content_file F at" and conn: "accepting conn"
    and x: "at (k + q) d off x" "off + k \<le> length d"
    and c: "rsp_committed c = None" "rsp_written c = 0" "rsp_body c = []"
      "header_Get (rsp_header c) ''Content-Encoding'' = []"
    and r: "req_Method r \<noteq> ''HEAD''" "bodyAllowedForStatus code"
  shows "\<exists>c' x' h. send_content (secured_rw conn) F r code ranged (int k) c x = Some (c', x') \<and> at q d (off + k) x' \<and>
    rsp_committed c' = Some (code, h) \<and> rsp_body c' = take k (drop off d) \<and>
    header_Get h ''Content-Range'' = header_Get (rsp_header c) ''Content-Range'' \<and>
    header_Get h ''Content-Disposition'' = header_Get (rsp_header c) ''Content-Disposition''"
proof -
  let ?V = "secured_rw conn"
  define h0 where "h0 = header_Set ''Content-Length'' (strconv_FormatInt (int k)) (header_Set ''Accept-Ranges'' ''bytes'' (rsp_header c))"
  define h where "h = setSecurityHeaders h0"
  define c1 where "c1 = response_WriteHeader code (c\<lparr>rsp_header := h\<rparr>)"
  have "k < 2 ^ 63" using content_file.content_bound [OF F x(1)] x(2) by simp
  then have "strconv_ParseInt (header_Get h ''Content-Length'') 64 = Some (int k)"
    by (simp add: h_def security_keeps_other [OF other_keys(2)] h0_def ParseInt_FormatInt)
  then have o: "open_body conn code h k [] c1"
    using conn c r(2) by (simp add: open_body_def c1_def response_WriteHeader_def)
  have cc: "content_copy F at ?V (open_body conn code h)"
    by (intro content_copy.intro F secured.body_writer_axioms)
  have "0 < copy_buffer_size k" by (simp add: copy_buffer_size_def)
  then obtain c' x' where s: "copy_loop ?V F (copy_buffer_size k) k c1 x = Some (c', x')" "at q d (off + k) x'"
    "open_body conn code h (k - k) ([] @ take k (drop off d)) c'"
    using content_copy.copy_complete [OF cc x(1, 2) _ le_refl o] by blast
  have "send_content ?V F r code ranged (int k) c x = copy_loop ?V F (copy_buffer_size k) k c1 x"
    using r(1) c(4)
    by (simp add: send_content_def Let_def rw_Set_def security_rw_def security_apply_def c1_def h_def h0_def file_keys)
  moreover have "header_Get h key = header_Get (rsp_header c) key"
    if "other_key key" "CanonicalHeaderKey key \<notin> {''Content-Length'', ''Accept-Ranges''}" for key
    using that by (simp add: h_def security_keeps_other h0_def file_keys)
  ultimately show ?thesis using s file_keys by (simp add: open_body_def)
qed

lemma parse_range_spec_bounds:
  assumes "parse_range_spec s n = Inr (Range a k)" "0 \<le> n" shows "0 \<le> a \<and> 0 \<le> k \<and> a + k \<le> n"
  using assms by (auto simp: parse_range_spec_def Let_def split: if_splits option.splits prod.splits)

lemma parseRange_single:
  assumes "CHR '','' \<notin> set s" "parseRange s n = Inr ranges" "0 \<le> n"
  shows "ranges = [] \<or> (\<exists>a k. ranges = [(a, k)] \<and> 0 \<le> a \<and> 0 \<le> k \<and> a + k \<le> n)"
proof (cases "s = []")
  case False
  have "CHR '','' \<notin> set (drop 6 s)" using assms(1) by (meson in_set_dropD)
  then have so: "splitOn (CHR '','') (drop 6 s) = [drop 6 s]" by (rule splitOn_free)
  obtain sp where ps: "parse_range_spec (drop 6 s) n = Inr sp"
    using assms(2) False by (cases "parse_range_spec (drop 6 s) n") (auto simp: parseRange_def so split: if_splits)
  then have "ranges = (case sp of Range a k \<Rightarrow> [(a, k)] | _ \<Rightarrow> [])"
    using assms(2) False by (cases sp) (auto simp: parseRange_def so List.map_filter_simps split: if_splits)
  then show ?thesis using parse_range_spec_bounds [of "drop 6 s" n] ps assms(3) by (cases sp) auto
qed (use assms in \<open>simp add: parseRange_def\<close>)

text \<open>The range a request asks for: none when it carries a condition on the range, which a file without
  validator never meets.\<close>

definition honoured_range :: "request \<Rightarrow> string" where
  "honoured_range r =
     (if header_Get (req_Header r) ''If-Range'' = [] then header_Get (req_Header r) ''Range'' else [])"

definition unconditional :: "request \<Rightarrow> bool" where
  "unconditional r \<longleftrightarrow> header_Get (req_Header r) ''If-Match'' = [] \<and> header_Get (req_Header r) ''If-None-Match'' = []"

lemma preconditions_pass:
  assumes "unconditional r" "req_Method r = ''GET''" "header_Get (rsp_header c) ''Etag'' = []"
  shows "checkPreconditions (secured_rw conn) r c = Inr (honoured_range r)"
  using assms
  by (auto simp: checkPreconditions_def checkIfMatch_def checkIfNoneMatch_def checkIfRange_def unconditional_def
      honoured_range_def etagStrongMatch_def security_rw_def Let_def)

text \<open>What the answer to a download must be: status, range header and body.\<close>

definition delivers :: "bytes \<Rightarrow> (int \<times> int) list \<Rightarrow> nat \<Rightarrow> header \<Rightarrow> bytes \<Rightarrow> bool" where
  "delivers d ranges code h body \<longleftrightarrow>
     (case ranges of
        (a, k) # _ \<Rightarrow> code = StatusPartialContent \<and> body = take (nat k) (drop (nat a) d) \<and>
          header_Get h ''Content-Range'' = content_range a k (int (length d))
      | [] \<Rightarrow> code = StatusOK \<and> body = d)"

lemma serve_ranges_response:
  assumes F: "content_file F at" and conn: "accepting conn"
    and x: "at (length d + q) d 0 x"
    and c: "rsp_committed c = None" "rsp_written c = 0" "rsp_body c = []"
      "header_Get (rsp_header c) ''Content-Encoding'' = []"
    and r: "req_Method r = ''GET''"
    and rs: "ranges = [] \<or> (\<exists>a k. ranges = [(a, k)] \<and> 0 \<le> a \<and> 0 \<le> k \<and> a + k \<le> int (length d))"
  shows "\<exists>c' x' h code off. serve_ranges (secured_rw conn) F errText r ranges (int (length d)) c x = Some (c', x') \<and>
    at q d off x' \<and> rsp_committed c' = Some (code, h) \<and> delivers d ranges code h (rsp_body c') \<and>
    header_Get h ''Content-Disposition'' = header_Get (rsp_header c) ''Content-Disposition''"
proof -
  have nget: "req_Method r \<noteq> ''HEAD''" using r by simp
  have ok: "bodyAllowedForStatus StatusOK" and part: "bodyAllowedForStatus StatusPartialContent"
    by (simp_all add: bodyAllowedForStatus_def status_codes)
  show ?thesis using rs
  proof
    assume e: "ranges = []"
    have le: "0 + length d \<le> length d" by simp
    obtain c' x' h where "send_content (secured_rw conn) F r StatusOK False (int (length d)) c x = Some (c', x')"
      "at q d (0 + length d) x'" "rsp_committed c' = Some (StatusOK, h)" "rsp_body c' = take (length d) (drop 0 d)"
      "header_Get h ''Content-Disposition'' = header_Get (rsp_header c) ''Content-Disposition''"
      using send_content_response [OF F conn x le c nget ok, of False] by blast
    then show ?thesis
      by (intro exI [of _ c'] exI [of _ x'] exI [of _ h] exI [of _ StatusOK] exI [of _ "length d"])
         (simp add: serve_ranges_def delivers_def e)
  next
    assume "\<exists>a k. ranges = [(a, k)] \<and> 0 \<le> a \<and> 0 \<le> k \<and> a + k \<le> int (length d)"
    then obtain a0 k0 where rk: "ranges = [(a0, k0)]" "0 \<le> a0" "0 \<le> k0" "a0 + k0 \<le> int (length d)" by blast
    define a where "a = nat a0"
    define k where "k = nat k0"
    have e: "ranges = [(int a, int k)]" "a + k \<le> length d" using rk by (simp_all add: a_def k_def)
    define c1 where "c1 = rw_Set (secured_rw conn) ''Content-Range'' (content_range (int a) (int k) (int (length d))) c"
    have c1: "rsp_header c1 = header_Set ''Content-Range'' (content_range (int a) (int k) (int (length d))) (rsp_header c)"
      "rsp_committed c1 = None" "rsp_written c1 = 0" "rsp_body c1 = []"
      using c by (simp_all add: c1_def rw_Set_def security_rw_def)
    obtain x1 where s: "sf_Seek F (of_nat a) SeekStart x = (Inr (of_nat a), x1)" "at (length d + q) d a x1"
      using content_file.seek_start [OF F x, of a] e(2) by auto
    have at': "at (k + q) d a x1"
      using content_file.fewer [OF F, of "k + q" "length d - k" d a x1] s(2) e(2) by (simp add: add.commute add.left_commute)
    have ce: "header_Get (rsp_header c1) ''Content-Encoding'' = []" using c(4) by (simp add: c1(1) file_keys)
    obtain c' x' h where "send_content (secured_rw conn) F r StatusPartialContent True (int k) c1 x1 = Some (c', x')"
      "at q d (a + k) x'" "rsp_committed c' = Some (StatusPartialContent, h)" "rsp_body c' = take k (drop a d)"
      "header_Get h ''Content-Range'' = header_Get (rsp_header c1) ''Content-Range''"
      "header_Get h ''Content-Disposition'' = header_Get (rsp_header c1) ''Content-Disposition''"
      using send_content_response [OF F conn at' e(2) c1(2-4) ce nget part, of True] by blast
    moreover have "\<not> int (length d) < int k" using e(2) by simp
    ultimately show ?thesis using s(1)
      by (intro exI [of _ c'] exI [of _ x'] exI [of _ h] exI [of _ StatusPartialContent] exI [of _ "a + k"])
         (simp add: serve_ranges_def delivers_def e(1) c1(1) file_keys flip: c1_def)
  qed
qed

lemma ServeContent_response:
  assumes F: "content_file F at" and conn: "accepting conn" and x: "at (length d + q) d 0 x"
    and c: "rsp_committed c = None" "rsp_written c = 0" "rsp_body c = []"
      "header_Get (rsp_header c) ''Content-Encoding'' = []" "header_Get (rsp_header c) ''Etag'' = []"
    and r: "req_Method r = ''GET''" "unconditional r" "CHR '','' \<notin> set (honoured_range r)"
      "parseRange (honoured_range r) (int (length d)) = Inr ranges"
  shows "\<exists>c' x' h code off. ServeContent (secured_rw conn) F errText r c x = Some (c', x') \<and>
    at q d off x' \<and> rsp_committed c' = Some (code, h) \<and> delivers d ranges code h (rsp_body c') \<and>
    header_Get h ''Content-Disposition'' = header_Get (rsp_header c) ''Content-Disposition''"
proof -
  obtain x1 where s1: "sf_Seek F 0 SeekEnd x = (Inr (of_nat (length d)), x1)" "at (length d + q) d (length d) x1"
    using content_file.seek_end [OF F x] by blast
  obtain x2 where s2: "sf_Seek F (of_nat 0) SeekStart x1 = (Inr (of_nat 0), x2)" "at (length d + q) d 0 x2"
    using content_file.seek_start [OF F s1(2), of 0] by auto
  have sz: "seek_size F x = (Some (of_nat (length d)), x2)" using s1(1) s2(1) by (simp add: seek_size_def)
  have len: "sint (of_nat (length d) :: i64) = int (length d)"
    by (rule sint_of_nat_i64) (rule content_file.content_bound [OF F x])
  have "ServeContent (secured_rw conn) F errText r c x = serve_ranges (secured_rw conn) F errText r ranges (int (length d)) c x2"
    using r(4) by (simp add: ServeContent_def preconditions_pass [OF r(2) r(1) c(5)] sz len)
  then show ?thesis
    using serve_ranges_response [OF F conn s2(2) c(1-4) r(1) parseRange_single [OF r(3, 4)], of errText] by simp
qed

lemma one_range: "\<not> several_ranges r \<Longrightarrow> CHR '','' \<notin> set (honoured_range r)"
  by (cases "header_Values (req_Header r) ''Range''") (auto simp: several_ranges_def honoured_range_def header_Get_def Let_def)

lemma unset_keys: "other_key ''Content-Encoding''" "other_key ''Etag''"
  by (simp_all add: other_key_def security_headers_def CanonicalHeaderKey_def token_byte_def ascii_upper_def ascii_lower_def Let_def)

lemma serve_opened_response:
  assumes F: "content_file F at" and conn: "accepting conn" and x: "at (length d + q) d 0 x"
    and r: "req_Method r = ''GET''" "unconditional r" "\<not> several_ranges r"
      "parseRange (honoured_range r) (int (length d)) = Inr ranges"
  shows "\<exists>c x' code h. serve_opened (secured_rw conn) F errText r path sz (security_apply (response_rw False conn) (new_response n)) x =
      Some (Returned, c, x') \<and> rsp_committed c = Some (code, h) \<and> delivers d ranges code h (rsp_body c) \<and>
      header_Get h ''Content-Disposition'' = formatDownloadContentDisposition (path_Base path)"
proof -
  let ?V = "secured_rw conn"
  define c where "c = rw_Set ?V ''Accept-Ranges'' ''bytes'' (rw_Set ?V ''Content-Type'' ''application/octet-stream''
    (rw_Set ?V ''Content-Disposition'' (formatDownloadContentDisposition (path_Base path))
      (security_apply (response_rw False conn) (new_response n))))"
  have c: "rsp_committed c = None" "rsp_written c = 0" "rsp_body c = []"
    "header_Get (rsp_header c) ''Content-Encoding'' = []" "header_Get (rsp_header c) ''Etag'' = []"
    "header_Get (rsp_header c) ''Content-Disposition'' = formatDownloadContentDisposition (path_Base path)"
    by (simp_all add: c_def rw_Set_def security_rw_def security_apply_def response_rw_def new_response_def file_keys
        security_keeps_other unset_keys) (simp_all add: header_Get_def header_Values_def)
  obtain c' x' h code off where s: "ServeContent ?V F errText r c x = Some (c', x')" "at q d off x'"
    "rsp_committed c' = Some (code, h)" "delivers d ranges code h (rsp_body c')"
    "header_Get h ''Content-Disposition'' = header_Get (rsp_header c) ''Content-Disposition''"
    using ServeContent_response [OF F conn x c(1-5) r(1, 2) one_range [OF r(3)] r(4), of errText] by blast
  have "serve_opened ?V F errText r path sz (security_apply (response_rw False conn) (new_response n)) x = Some (Returned, c', x')"
    using r(3) s(1) content_file.no_source_error [OF F s(2)] by (simp add: serve_opened_def Let_def flip: c_def)
  then show ?thesis using s c(6) by auto
qed
lemma requested_path_valid: "requested_path r allowRoot = Inr path \<Longrightarrow> validateRelativePath path allowRoot = Inr path"
  by (auto simp: requested_path_def validateRelativePath_iff split: sum.splits)

lemma download_response:
  assumes conn: "accepting conn" and dc: "directory_contract K"
    and r: "req_Method r = ''GET''" "req_Path r = BasePath @ ''/api/file''" "authorized p r"
      "requested_path r False = Inr path" "unconditional r"
      "\<not> several_ranges r" "parseRange (honoured_range r) (int (length d)) = Inr ranges"
    and slot: "taken < downloadSlots_cap p"
    and m: "\<not> mgr_closed m" "mgr_root m = Some fd" "0 \<le> fd" "fd < 2 ^ 31" "nextRequestID m = (rid, m1)"
    and root: "secureRootFromWorkerFD K fd (mgr_mountID m) (mgr_filesystemType m) (qw_kernel (sv_worker v)) = (Inr root, k1)"
    and opn: "local_openRegular K root path k1 = (Inr (ofd, info), k2)"
    and data: "reads_file pread ofd d I" "I (snd (local_close K root k2))" "length d < 2 ^ 63"
      "st_size info = of_nat (length d)" "unat rid + length d < 2 ^ 64"
  shows "\<exists>c s code h.
    ServeHTTP (response_rw False conn) (isolated_backend (served_session euid K pread)) errText assets p r
      (new_response n) taken (m, v) = Some (Returned, c, taken, s) \<and>
    rsp_committed c = Some (code, h) \<and>
    header_Get h ''Content-Disposition'' = formatDownloadContentDisposition (path_Base path) \<and>
    delivers d ranges code h (rsp_body c)"
proof -
  let ?S = "served_session euid K pread"
  define v' where "v' = \<lparr> sv_worker = \<lparr> qw_kernel = snd (local_close K root k2), inbox = [], outbox = [] \<rparr>,
    sv_phase = Serving ofd (rid + 1) \<rparr>"
  let ?f = "opened_file rid path info"
  have o: "be_openRegular (isolated_backend ?S) path (m, v) = Inr (file_size ?f, ?f, m1, v')"
    using manager_open_served [OF dc requested_path_valid [OF r(4)] m root opn, of euid pread]
    by (simp add: isolated_backend_def reported_def open_phase_def v'_def)
  have "isolated_at pread (length d + 0) d 0 (?f, m1, v')"
    using opened_in_step [OF data] by (simp add: isolated_at_def v'_def)
  then obtain c x' code h where s: "serve_opened (secured_rw conn) (isolated_file ?S) errText r path (file_size ?f)
        (security_apply (response_rw False conn) (new_response n)) (?f, m1, v') = Some (Returned, c, x')"
      "rsp_committed c = Some (code, h)" "delivers d ranges code h (rsp_body c)"
      "header_Get h ''Content-Disposition'' = formatDownloadContentDisposition (path_Base path)"
    using serve_opened_response [OF isolated.content_file_axioms conn _ r(1, 5-7)] by blast
  have "file_admission (secured_rw conn) p r c0 = Inr path" for c0
    using r by (simp add: file_admission_def reads_only_def)
  moreover have "serve_slot (secured_rw conn) (isolated_backend ?S) errText r path
      (security_apply (response_rw False conn) (new_response n)) (m, v) = Some (Returned, c, sf_Close (isolated_file ?S) x')"
    using s(1) by (cases x') (simp add: serve_slot_def o, simp add: isolated_backend_def)
  ultimately have "ServeHTTP (response_rw False conn) (isolated_backend ?S) errText assets p r (new_response n) taken (m, v) =
      Some (Returned, c, taken, sf_Close (isolated_file ?S) x')"
    using slot r(2) by (cases "sf_Close (isolated_file ?S) x'")
      (simp add: ServeHTTP_def isStaticEntryPath_def BasePath_def Let_def serveFile_def)
  then show ?thesis using s(2-4) by blast
qed
text \<open>C11. An authorised download delivers the file. When the file the path names opens beneath the share
  and its descriptor reads the bytes \<open>d\<close>, the portal answers a GET with status 200 and exactly \<open>d\<close>, or
  with status 206, the exact slice and its \<open>Content-Range\<close> when one satisfiable range is asked for; the
  bytes pass through the frames of the worker protocol, the copy loop and the security writer, the
  file name is in \<open>Content-Disposition\<close>, and the download slot is free again. The connection accepts
  every write, no condition other than on the range is made, and the request id does not wrap.\<close>

theorem download_delivers_the_file:
  assumes conn: "accepting conn" and dc: "directory_contract K"
    and r: "req_Method r = ''GET''" "req_Path r = BasePath @ ''/api/file''" "authorized p r"
      "requested_path r False = Inr path" "unconditional r"
      "\<not> several_ranges r" "parseRange (honoured_range r) (int (length d)) = Inr ranges"
    and slot: "taken < downloadSlots_cap p"
    and m: "\<not> mgr_closed m" "mgr_root m = Some fd" "0 \<le> fd" "fd < 2 ^ 31" "nextRequestID m = (rid, m1)"
    and root: "secureRootFromWorkerFD K fd (mgr_mountID m) (mgr_filesystemType m) (qw_kernel (sv_worker v)) = (Inr root, k1)"
    and opn: "local_openRegular K root path k1 = (Inr (ofd, info), k2)"
    and data: "reads_file pread ofd d I" "I (snd (local_close K root k2))" "length d < 2 ^ 63"
      "st_size info = of_nat (length d)" "unat rid + length d < 2 ^ 64"
  shows "\<exists>c s code h.
    ServeHTTP (response_rw False conn) (isolated_backend (served_session euid K pread)) errText assets p r
      (new_response n) taken (m, v) = Some (Returned, c, taken, s) \<and>
    rsp_committed c = Some (code, h) \<and>
    header_Get h ''Content-Disposition'' = formatDownloadContentDisposition (path_Base path) \<and>
    (case ranges of
       [] \<Rightarrow> code = StatusOK \<and> rsp_body c = d
     | (a, k) # _ \<Rightarrow> code = StatusPartialContent \<and> rsp_body c = take (nat k) (drop (nat a) d) \<and>
         header_Get h ''Content-Range'' = content_range a k (int (length d)))"
  using download_response [OF assms, of euid errText assets n] by (auto simp: delivers_def split: list.splits)

text \<open>A bearer of 32 different bytes and requests that carry it.\<close>

definition demo_bearer :: string where
  "demo_bearer = publicBearerPrefix @ RawURLEncoding_EncodeToString (map of_nat [0..<32])"

definition demo_portal :: portal where
  "demo_portal = \<lparr> bearerVerifier = digestPublicBearer demo_bearer, portal_maxEntries = 5, downloadSlots_cap = 1 \<rparr>"

definition demo_get :: "string \<Rightarrow> string \<Rightarrow> header \<Rightarrow> request" where
  "demo_get path query h = \<lparr> req_Method = ''GET'', req_Path = path, req_RawQuery = query,
     req_Header = h(''Authorization'' \<mapsto> [''Bearer '' @ demo_bearer]) \<rparr>"

lemma demo_authorized: "authorized demo_portal (demo_get path query h)"
proof -
  have k: "CanonicalHeaderKey ''Authorization'' = ''Authorization''"
    by (simp add: CanonicalHeaderKey_def token_byte_def ascii_upper_def ascii_lower_def Let_def)
  have "inj_on (of_nat :: nat \<Rightarrow> byte) {0..<32}"
    by (rule inj_onI) (simp add: word_of_nat_eq_iff take_bit_eq_mod)
  then have "card (set (map (of_nat :: nat \<Rightarrow> byte) [0..<32])) = 32" by (simp add: card_image)
  then have "validPublicBearer demo_bearer" unfolding demo_bearer_def by (intro encoded_bearer_valid) simp_all
  moreover have "bearer_candidate (demo_get path query h) = demo_bearer"
    by (simp add: bearer_candidate_def demo_get_def header_Values_def k strings_Cut_def EqualFold_ascii_def ascii_lower_def)
  ultimately show ?thesis by (simp add: authorized_def demo_portal_def Let_def)
qed

abbreviation demo_download_request :: request where
  "demo_download_request \<equiv> demo_get (BasePath @ ''/api/file'') ''path=a'' [''Range'' \<mapsto> [''bytes=1-'']]"

lemma demo_download_accepted:
  "accepting (\<lambda>d (n :: unit). ((length d, None), n))"
  "req_Method demo_download_request = ''GET''" "req_Path demo_download_request = BasePath @ ''/api/file''"
  "requested_path demo_download_request False = Inr ''a''"
  "unconditional demo_download_request" "\<not> several_ranges demo_download_request"
  "parseRange (honoured_range demo_download_request) (int (length [10, 20, 30 :: byte])) = Inr [(1, 2)]"
  "0 < downloadSlots_cap demo_portal"
proof -
  have keys: "CanonicalHeaderKey ''Range'' = ''Range''" "CanonicalHeaderKey ''If-Range'' = ''If-Range''"
    "CanonicalHeaderKey ''If-Match'' = ''If-Match''" "CanonicalHeaderKey ''If-None-Match'' = ''If-None-Match''"
    by (simp_all add: CanonicalHeaderKey_def token_byte_def ascii_upper_def ascii_lower_def Let_def)
  show "accepting (\<lambda>d (n :: unit). ((length d, None), n))" by (simp add: accepting_def)
  show "req_Method demo_download_request = ''GET''" "req_Path demo_download_request = BasePath @ ''/api/file''"
    "0 < downloadSlots_cap demo_portal" by (simp_all add: demo_get_def demo_portal_def)
  show "requested_path demo_download_request False = Inr ''a''"
    by (simp add: requested_path_def demo_get_def parseSafeQuery_def url_ParseQuery_def query_piece_def cut_or_all_def
        strings_Cut_def credential_key_def lower_equals_def lower_rune_def query_Get_def validateRelativePath_def
        forbidden_component_def isSafeVisibleName_def text_eval)
  show "unconditional demo_download_request" "\<not> several_ranges demo_download_request"
    by (simp_all add: unconditional_def several_ranges_def demo_get_def header_Get_def header_Values_def keys)
  have "honoured_range demo_download_request = ''bytes=1-''"
    by (simp add: honoured_range_def demo_get_def header_Get_def header_Values_def keys)
  then show "parseRange (honoured_range demo_download_request) (int (length [10, 20, 30 :: byte])) = Inr [(1, 2)]"
    by (simp add: parseRange_def parse_range_spec_def TrimString_def header_space_def strings_Cut_def strconv_ParseInt_def
        strconv_ParseUint_def dec_val_def digit_val_def is_digit_def List.map_filter_def Let_def)
qed

lemma demo_manager_ready:
  "\<not> mgr_closed demo_manager" "mgr_root demo_manager = Some 1" "(0 :: int) \<le> 1" "(1 :: int) < 2 ^ 31"
  "nextRequestID demo_manager = (5, demo_manager\<lparr>mgr_requestID := 5\<rparr>)"
  by (simp_all add: demo_manager_def nextRequestID_def)

lemmas demo_download_facts =
  demo_download_accepted(1) demo_share_contract demo_download_accepted(2, 3) demo_authorized demo_download_accepted(4-8)
  demo_manager_ready demo_share_root demo_share_open memory_reads

abbreviation demo_answer :: "outcome \<Rightarrow> unit response \<Rightarrow> nat \<Rightarrow> manager \<times> demo_state served \<Rightarrow> bool" where
  "demo_answer out c taken s \<equiv>
     ServeHTTP (response_rw False (\<lambda>d n. ((length d, None), n)))
       (isolated_backend (served_session 0 (demo_share [''a'', ''c'']) memory_pread)) (\<lambda>e. [])
       \<lparr> portalHTML = [], portalJavaScript = [], downloadWorkerJavaScript = [], portalCSS = [] \<rparr> demo_portal
       demo_download_request (new_response ()) 0 (demo_manager, demo_session) = Some (out, c, taken, s)"

theorem download_delivers_the_file_witness:
  "\<exists>c s h. demo_answer Returned c 0 s \<and> rsp_committed c = Some (206, h) \<and> rsp_body c = [20, 30] \<and>
     header_Get h ''Content-Range'' = ''bytes 1-2/3''"
proof -
  have "content_range 1 2 (int (length [10, 20, 30 :: byte])) = ''bytes 1-2/3''" by code_simp
  then show ?thesis
    using download_delivers_the_file [OF demo_download_facts, of 0 "\<lambda>e. []"
        "\<lparr> portalHTML = [], portalJavaScript = [], downloadWorkerJavaScript = [], portalCSS = [] \<rparr>" "()"]
    by (simp add: StatusPartialContent_def) blast
qed

end
