(* ===== verification/Portal_Safety.thy ===== *)
theory Portal_Safety
  imports Portal_Downloads
begin

text \<open>
  What the portal promises whatever its storage worker does: every request is answered, and a truncated file is
  never sent as a complete one.
\<close>

section \<open>Files that fail loudly\<close>

text \<open>A file of known size behind a worker that may misbehave: a read before the end either advances or
  fails, and a failed read leaves a source error.\<close>

locale guarded_file =
  fixes F :: "('x, 's) storageFile" and at :: "nat \<Rightarrow> nat \<Rightarrow> 'x \<Rightarrow> bool"
  assumes size_bound: "at sz off x \<Longrightarrow> sz < 2 ^ 63"
    and read_guarded: "at sz off x \<Longrightarrow> 0 < n \<Longrightarrow> off + n \<le> sz \<Longrightarrow> sf_Read F n x = ((data, e), x') \<Longrightarrow>
      (if e = None then data \<noteq> [] \<and> length data \<le> n \<and> at sz (off + length data) x'
       else data = [] \<and> sf_sourceError F x' \<noteq> None)"
    and guarded_end: "at sz off x \<Longrightarrow> \<exists>x'. sf_Seek F 0 SeekEnd x = (Inr (of_nat sz), x') \<and> at sz sz x'"
    and guarded_start: "at sz off x \<Longrightarrow> i \<le> sz \<Longrightarrow> \<exists>x'. sf_Seek F (of_nat i) SeekStart x = (Inr (of_nat i), x') \<and> at sz i x'"
begin

text \<open>The copy loop ends over every writer.\<close>

lemma copy_ends: "at sz off x \<Longrightarrow> off + n \<le> sz \<Longrightarrow> 0 < buf \<Longrightarrow> \<exists>y. copy_loop W F buf n c x = Some y"
proof (induction n arbitrary: off x c rule: less_induct)
  case (less n)
  obtain data e x1 where r: "sf_Read F (min buf n) x = ((data, e), x1)" by (metis prod.exhaust)
  obtain nw ew c1 where w: "rw_Write W data c = ((nw, ew), c1)" by (metis prod.exhaust)
  show ?case
  proof (cases "n = 0 \<or> e \<noteq> None")
    case True
    then show ?thesis using r w by (subst copy_loop.simps) auto
  next
    case False
    then have d: "data \<noteq> []" "length data \<le> min buf n" "at sz (off + length data) x1"
      using read_guarded [OF less.prems(1) _ _ r] less.prems by auto
    then have "\<exists>y. copy_loop W F buf (n - length data) c1 x1 = Some y"
      using less.prems False by (intro less.IH [OF _ d(3)]) (auto simp: le_diff_conv)
    then show ?thesis using False d(1) r w by (subst copy_loop.simps) simp
  qed
qed

end

locale guarded_copy = guarded_file F at + body_writer W open_body
  for F :: "('x, 's) storageFile" and at :: "nat \<Rightarrow> nat \<Rightarrow> 'x \<Rightarrow> bool"
    and W :: "'c responseWriter" and open_body :: "nat \<Rightarrow> bytes \<Rightarrow> 'c \<Rightarrow> bool"
begin

text \<open>It copies every byte asked for unless it leaves a source error.\<close>

lemma copy_all_or_error:
  "at sz off x \<Longrightarrow> off + n \<le> sz \<Longrightarrow> 0 < buf \<Longrightarrow> n \<le> m \<Longrightarrow> open_body m b c \<Longrightarrow>
   copy_loop W F buf n c x = Some (c', x') \<Longrightarrow>
   sf_sourceError F x' \<noteq> None \<or> (\<exists>data off'. length data = n \<and> open_body (m - n) (b @ data) c' \<and> at sz off' x')"
proof (induction n arbitrary: off x m b c rule: less_induct)
  case (less n)
  obtain data e x1 where r: "sf_Read F (min buf n) x = ((data, e), x1)" by (metis prod.exhaust)
  consider "n = 0" | "n \<noteq> 0" "e \<noteq> None" | "n \<noteq> 0" "e = None" by blast
  then show ?case
  proof cases
    case 1
    then show ?thesis using less.prems by (auto simp: copy_loop.simps)
  next
    case 2
    then have "data = []" "sf_sourceError F x1 \<noteq> None" using read_guarded [OF less.prems(1) _ _ r] less.prems by auto
    then show ?thesis using 2 less.prems(6) r by (subst (asm) copy_loop.simps) simp
  next
    case 3
    then have d: "data \<noteq> []" "length data \<le> min buf n" "at sz (off + length data) x1"
      using read_guarded [OF less.prems(1) _ _ r] less.prems by auto
    then obtain c1 where w: "rw_Write W data c = ((length data, None), c1)" "open_body (m - length data) (b @ data) c1"
      using write_body [OF less.prems(5) d(1)] less.prems(4) by auto
    have "copy_loop W F buf (n - length data) c1 x1 = Some (c', x')"
      using less.prems(6) 3 d(1) r w(1) by (subst (asm) copy_loop.simps) simp
    then have "sf_sourceError F x' \<noteq> None \<or> (\<exists>data' off'. length data' = n - length data \<and>
        open_body (m - length data - (n - length data)) ((b @ data) @ data') c' \<and> at sz off' x')"
      using less.prems 3 d by (intro less.IH [OF _ d(3) _ _ _ w(2)]) auto
    then show ?thesis
    proof (elim disjE exE conjE)
      fix data' off'
      assume a: "length data' = n - length data" "open_body (m - length data - (n - length data)) ((b @ data) @ data') c'"
        "at sz off' x'"
      have "m - length data - (n - length data) = m - n" "length (data @ data') = n" using d(2) a(1) by auto
      then show ?thesis using a by (intro disjI2 exI [of _ "data @ data'"] exI [of _ off']) simp
    qed simp
  qed
qed

end

text \<open>The file of the isolated storage manager is one, over every session.\<close>

definition guarded_at :: "nat \<Rightarrow> nat \<Rightarrow> isolatedStorageFile \<times> manager \<times> 'w \<Rightarrow> bool" where
  "guarded_at sz off x \<longleftrightarrow>
     (case x of (f, m, w) \<Rightarrow> sz < 2 ^ 63 \<and> off \<le> sz \<and> file_size f = of_nat sz \<and> file_offset f = of_nat off \<and>
        \<not> file_closed f \<and> file_sourceErr f = None)"

lemma fail_read_loud: "fail_read S e f w = ((data, e'), f', w') \<Longrightarrow> data = [] \<and> e' \<noteq> None \<and> file_sourceErr f' \<noteq> None"
  by (auto simp: fail_read_def Let_def)

lemma file_Read_guarded:
  assumes at: "guarded_at sz off (f, m, w)" and n: "0 < n" "off + n \<le> sz"
    and rd: "file_Read S n f w = ((data, e), f', w')"
  shows "if e = None then data \<noteq> [] \<and> length data \<le> n \<and> guarded_at sz (off + length data) (f', m, w')
    else data = [] \<and> file_sourceErr f' \<noteq> None"
proof -
  have a: "sz < 2 ^ 63" "off < sz" "file_size f = of_nat sz" "file_offset f = of_nat off" "\<not> file_closed f"
    "file_sourceErr f = None" using at n by (auto simp: guarded_at_def)
  have len: "read_length n f \<le> n" "\<not> sint (file_size f) \<le> sint (file_offset f)"
    using read_length_at [OF a(1-4) n(1)] by auto
  have acc: "if e = None then data \<noteq> [] \<and> length data \<le> n \<and> guarded_at sz (off + length data) (f', m, w')
      else data = [] \<and> file_sourceErr f' \<noteq> None"
    if r: "accept_read S rid (read_length n f) frame rights (f\<lparr>file_nextID := i\<rparr>) w2 = ((data, e), f', w')" for rid frame rights i w2
  proof (cases e)
    case None
    then have "data = payload frame" "data \<noteq> []" "length data \<le> read_length n f"
      "f' = f\<lparr>file_nextID := i, file_offset := file_offset f + of_nat (length (payload frame))\<rparr>"
      using r by (auto simp: accept_read_def fail_read_def Let_def not_less split: if_splits)
    then show ?thesis using None a len(1) n(2) by (auto simp: guarded_at_def)
  next
    case (Some x)
    then show ?thesis using r by (auto simp: accept_read_def fail_read_def Let_def split: if_splits)
  qed
  show ?thesis
  proof (cases "\<exists>e0 g w0. fail_read S e0 g w0 = ((data, e), f', w')")
    case True
    then show ?thesis by (auto dest: fail_read_loud)
  next
    case False
    then obtain rid frame rights i w2 where
      "accept_read S rid (read_length n f) frame rights (f\<lparr>file_nextID := i\<rparr>) w2 = ((data, e), f', w')"
      using rd a n(1) len(2) by (auto simp: file_Read_def Let_def split: if_splits sum.splits option.splits prod.splits)
    then show ?thesis by (rule acc)
  qed
qed

lemma guarded_Seek:
  assumes "guarded_at sz off (f, m, w)"
  shows "\<exists>f'. file_Seek 0 SeekEnd f = (Inr (of_nat sz), f') \<and> guarded_at sz sz (f', m, w)"
    and "i \<le> sz \<Longrightarrow> \<exists>f'. file_Seek (of_nat i) SeekStart f = (Inr (of_nat i), f') \<and> guarded_at sz i (f', m, w)"
proof -
  have a: "sz < 2 ^ 63" "file_size f = of_nat sz" "\<not> file_closed f" "file_sourceErr f = None"
    using assms by (auto simp: guarded_at_def)
  show "\<exists>f'. file_Seek 0 SeekEnd f = (Inr (of_nat sz), f') \<and> guarded_at sz sz (f', m, w)"
    using file_Seek_iff [OF a(3, 4), of SeekEnd "file_size f" 0] a sint_of_nat_i64 [OF a(1)]
    by (simp add: seek_base_def guarded_at_def)
  show "\<exists>f'. file_Seek (of_nat i) SeekStart f = (Inr (of_nat i), f') \<and> guarded_at sz i (f', m, w)" if "i \<le> sz"
    using file_Seek_iff [OF a(3, 4), of SeekStart 0 "of_nat i"] a that sint_of_nat_i64 [of i]
    by (simp add: seek_base_def guarded_at_def)
qed

interpretation guarded: guarded_file "isolated_file S" guarded_at for S
proof unfold_locales
  fix sz off n data e and x x' :: "isolatedStorageFile \<times> manager \<times> 'a"
  assume a: "guarded_at sz off x" "0 < n" "off + n \<le> sz" "sf_Read (isolated_file S) n x = ((data, e), x')"
  obtain f m w where x: "x = (f, m, w)" by (metis prod.exhaust)
  obtain d e' f' w' where r: "file_Read S n f w = ((d, e'), f', w')" by (metis prod.exhaust)
  show "if e = None then data \<noteq> [] \<and> length data \<le> n \<and> guarded_at sz (off + length data) x'
      else data = [] \<and> sf_sourceError (isolated_file S) x' \<noteq> None"
    using file_Read_guarded [OF a(1) [unfolded x] a(2, 3) r] a(4) r by (auto simp: x isolated_file_def)
next
  fix sz off and x :: "isolatedStorageFile \<times> manager \<times> 'a"
  assume "guarded_at sz off x"
  then show "\<exists>x'. sf_Seek (isolated_file S) 0 SeekEnd x = (Inr (of_nat sz), x') \<and> guarded_at sz sz x'"
    using guarded_Seek(1) by (cases x) (fastforce simp: isolated_file_def)
next
  fix sz off i and x :: "isolatedStorageFile \<times> manager \<times> 'a"
  assume "guarded_at sz off x" "i \<le> sz"
  then show "\<exists>x'. sf_Seek (isolated_file S) (of_nat i) SeekStart x = (Inr (of_nat i), x') \<and> guarded_at sz i x'"
    using guarded_Seek(2) by (cases x) (fastforce simp: isolated_file_def)
qed (auto simp: guarded_at_def)

interpretation guarded_download:
  guarded_copy "isolated_file S" guarded_at "secured_rw conn" "open_body conn code h" for S conn code h
  by (intro guarded_copy.intro guarded.guarded_file_axioms secured.body_writer_axioms)

lemma manager_open_guarded:
  assumes "manager_openRegular S m path w = (Inr f, m', w')"
  shows "\<exists>sz. file_size f = of_nat sz \<and> guarded_at sz 0 (f, m', w')"
proof -
  obtain rid frame rights w2 where "accept_open S rid path frame rights w2 = (Inr f, w')"
    using assms by (auto simp: manager_openRegular_def Let_def split: prod.splits sum.splits option.splits)
  then obtain response where r: "parseStorageOpenResponse (payload frame) = Inr response"
    "f = \<lparr> file_name = path_Base path, file_size = Size response, file_modTime = ModTimeUnixNano response,
           file_nextID = rid + 1, file_offset = 0, file_closed = False, file_sourceErr = None \<rparr>"
    by (auto simp: accept_open_def split: if_splits sum.splits prod.splits option.splits)
  then have "0 \<le> sint (Size response)" using open_codec.get_iff by blast
  from unat_sint [OF this] have "int (unat (Size response)) < int (2 ^ 63)"
    using sint_i64_range [of "Size response"] by simp
  then have "unat (Size response) < 2 ^ 63" by (simp only: of_nat_less_iff)
  then show ?thesis using r(2) by (intro exI [of _ "unat (Size response)"]) (simp add: guarded_at_def)
qed

section \<open>Every request is answered\<close>

context guarded_file
begin

lemma send_content_ends:
  assumes "at sz off x" "off + k \<le> sz"
  shows "\<exists>y. send_content W F r code ranged (int k) c x = Some y"
proof -
  have "0 < copy_buffer_size k" by (simp add: copy_buffer_size_def)
  then have "\<exists>y. copy_loop W F (copy_buffer_size k) k c x = Some y" for c by (rule copy_ends [OF assms])
  then show ?thesis by (simp add: send_content_def Let_def)
qed

lemma serve_ranges_ends:
  assumes "at sz 0 x" "ranges = [] \<or> (\<exists>a k. ranges = [(a, k)] \<and> 0 \<le> a \<and> 0 \<le> k \<and> a + k \<le> int sz)"
  shows "\<exists>y. serve_ranges W F errText r ranges (int sz) c x = Some y"
  using assms(2)
proof
  assume "ranges = []"
  then have "serve_ranges W F errText r ranges (int sz) c x = send_content W F r StatusOK False (int sz) c x"
    by (simp add: serve_ranges_def)
  then show ?thesis using send_content_ends [OF assms(1), of sz W r StatusOK False c] by (simp only: add_0 order_refl)
next
  assume "\<exists>a k. ranges = [(a, k)] \<and> 0 \<le> a \<and> 0 \<le> k \<and> a + k \<le> int sz"
  then obtain a0 k0 where rk: "ranges = [(a0, k0)]" "0 \<le> a0" "0 \<le> k0" "a0 + k0 \<le> int sz" by blast
  define a where "a = nat a0"
  define k where "k = nat k0"
  have e: "ranges = [(int a, int k)]" "a + k \<le> sz" using rk by (simp_all add: a_def k_def)
  obtain x1 where s: "sf_Seek F (of_nat a) SeekStart x = (Inr (of_nat a), x1)" "at sz a x1"
    using guarded_start [OF assms(1), of a] e(2) by auto
  have "serve_ranges W F errText r ranges (int sz) c x = send_content W F r StatusPartialContent True (int k)
      (rw_Set W ''Content-Range'' (content_range (int a) (int k) (int sz)) c) x1"
    using s(1) e by (simp add: serve_ranges_def)
  then show ?thesis by (simp only:) (rule send_content_ends [OF s(2) e(2)])
qed

lemma seek_size_guarded:
  assumes "at sz off x"
  obtains x' where "seek_size F x = (Some (of_nat sz), x')" "at sz 0 x'"
proof -
  obtain x1 where x1: "sf_Seek F 0 SeekEnd x = (Inr (of_nat sz), x1)" "at sz sz x1" using guarded_end [OF assms] by blast
  obtain x2 where "sf_Seek F (of_nat 0) SeekStart x1 = (Inr (of_nat 0), x2)" "at sz 0 x2"
    using guarded_start [OF x1(2) le0] by blast
  then show thesis using x1(1) by (intro that [of x2]) (simp_all add: seek_size_def)
qed

lemma ServeContent_ends:
  assumes "at sz off x" "CHR '','' \<notin> set (header_Get (req_Header r) ''Range'')"
  shows "\<exists>y. ServeContent W F errText r c x = Some y"
proof -
  obtain x1 where s: "seek_size F x = (Some (of_nat sz), x1)" "at sz 0 x1" by (rule seek_size_guarded [OF assms(1)])
  have z: "sint (of_nat sz :: i64) = int sz" using size_bound [OF assms(1)] by (rule sint_of_nat_i64)
  show ?thesis
  proof (cases "checkPreconditions W r c")
    case (Inr rangeReq)
    then have "CHR '','' \<notin> set rangeReq" using assms(2) by (auto simp: checkPreconditions_def Let_def split: if_splits)
    then have "\<exists>y. serve_ranges W F errText r ranges (int sz) c x1 = Some y" if "parseRange rangeReq (int sz) = Inr ranges" for ranges
      using serve_ranges_ends [OF s(2) parseRange_single [OF _ that]] by simp
    then show ?thesis using s(1) z Inr serve_ranges_ends [OF s(2), of "[]"]
      by (cases "parseRange rangeReq (int sz)") (auto simp: ServeContent_def Let_def)
  qed (simp add: ServeContent_def)
qed

lemma serve_opened_ends: "at sz off x \<Longrightarrow> \<exists>y. serve_opened W F errText r path infoSize c x = Some y"
  using ServeContent_ends [of sz off x r]
  by (cases "header_Values (req_Header r) ''Range''") (auto simp: serve_opened_def several_ranges_def header_Get_def Let_def)

end

lemma isolated_slot_ends: "serve_slot W (isolated_backend S) errText r path c ms \<noteq> None"
proof -
  obtain m w where ms: "ms = (m, w)" by (rule prod.exhaust)
  obtain res m' w' where o: "manager_openRegular S m path w = (res, m', w')" by (metis prod.exhaust)
  show ?thesis
  proof (cases res)
    case (Inl e)
    then show ?thesis by (simp add: serve_slot_def isolated_backend_def ms o)
  next
    case (Inr f)
    obtain sz where "guarded_at sz 0 (f, m', w')" using manager_open_guarded [OF o [unfolded Inr]] by blast
    from guarded.serve_opened_ends [OF this, of W S errText r path "file_size f" c]
    have "serve_opened W (isolated_file S) errText r path (file_size f) c (f, m', w') \<noteq> None" by (simp only: not_None_eq)
    then show ?thesis by (simp add: serve_slot_def isolated_backend_def ms o Inr)
  qed
qed

text \<open>C13. The portal answers every request. With the isolated storage behind it the handler returns for
  every request, response writer, configuration and behaviour of the worker, the network and the
  clock: the loop that receives a listing ends because it refuses empty frames and texts beyond 2 MiB, the
  copy loop because it always reads on, stops or fails, the answer with several ranges is never produced,
  and the number of download slots taken is as before.\<close>

theorem every_request_is_answered:
  "\<exists>out c' s'. ServeHTTP W (isolated_backend S) errText assets p r c taken s = Some (out, c', taken, s')"
proof -
  have "\<exists>out c' s'. serveFile (security_rw W) (isolated_backend S) errText p r c taken s = Some (out, c', taken, s')" for c
  proof (cases "file_admission (security_rw W) p r c")
    case (Inr path)
    obtain y where "serve_slot (security_rw W) (isolated_backend S) errText r path c s = Some y"
      using isolated_slot_ends [of "security_rw W" S errText r path c s] by (simp only: not_None_eq) (erule exE)
    then show ?thesis by (cases y) (simp add: serveFile_def Inr)
  qed (simp add: serveFile_def)
  then show ?thesis
    by (cases "serveList (security_rw W) (isolated_backend S) p r (security_apply W c) s")
      (simp add: ServeHTTP_def Let_def case_prod_beta)
qed

section \<open>No truncated answer looks complete\<close>

abbreviation code_of :: "'n response \<Rightarrow> nat option" where
  "code_of c \<equiv> map_option fst (rsp_committed c)"

lemma secured_headers [simp]:
  "rsp_committed (rw_Set (security_rw (response_rw isHead conn)) k v c) = rsp_committed c"
  "rsp_committed (rw_Del (security_rw (response_rw isHead conn)) k c) = rsp_committed c"
  by (simp_all add: rw_Set_def rw_Del_def security_rw_def)

lemma secured_WriteHeader: "code_of c = None \<Longrightarrow> code_of (rw_WriteHeader (security_rw (response_rw isHead conn)) code c) = Some code"
  by (simp add: security_rw_def security_apply_def response_WriteHeader_def)

lemma secured_Write: "code_of c = Some code \<Longrightarrow> code_of (snd (rw_Write (security_rw (response_rw isHead conn)) pl c)) = Some code"
  by (auto simp: security_rw_def security_apply_def response_Write_def response_WriteHeader_def Let_def split: prod.split option.split)

lemma answer_codes:
  assumes "code_of c = None"
  shows "code_of (writeError (security_rw (response_rw isHead conn)) r code msg c) = Some code"
    and "code_of (serveError (security_rw (response_rw isHead conn)) txt code c) = Some code"
    and "code_of (writeNotModified (security_rw (response_rw isHead conn)) c) = Some StatusNotModified"
  using assms secured_WriteHeader [of _ isHead conn] secured_Write [of _ _ isHead conn]
  by (auto simp: writeError_def write_payload_def serveError_def writeNotModified_def Let_def)

text \<open>A successful answer is whole: its body has the length the header declares.\<close>

definition whole :: "'n response \<Rightarrow> bool" where
  "whole c \<longleftrightarrow> (\<forall>code h. rsp_committed c = Some (code, h) \<and> code \<in> {StatusOK, StatusPartialContent} \<longrightarrow>
     strconv_ParseInt (header_Get h ''Content-Length'') 64 = Some (int (length (rsp_body c))))"

lemma whole_other: "code_of c = Some code \<Longrightarrow> code \<notin> {StatusOK, StatusPartialContent} \<Longrightarrow> whole c"
  by (auto simp: whole_def)

lemma whole_answers [simp]:
  assumes "rsp_committed c = None" "code \<notin> {StatusOK, StatusPartialContent}"
  shows "whole (rw_WriteHeader (secured_rw conn) code c)"
    and "whole (writeError (secured_rw conn) r code msg c)"
    and "whole (serveError (secured_rw conn) txt code c)"
proof -
  have n: "code_of c = None" using assms(1) by simp
  show "whole (rw_WriteHeader (secured_rw conn) code c)" by (rule whole_other [OF secured_WriteHeader [OF n] assms(2)])
  show "whole (writeError (secured_rw conn) r code msg c)" by (rule whole_other [OF answer_codes(1) [OF n] assms(2)])
  show "whole (serveError (secured_rw conn) txt code c)" by (rule whole_other [OF answer_codes(2) [OF n] assms(2)])
qed

lemma whole_not_modified [simp]: "rsp_committed c = None \<Longrightarrow> whole (writeNotModified (secured_rw conn) c)"
  using answer_codes(3) [of c False conn] by (auto intro!: whole_other simp: status_codes)

lemma send_content_whole:
  assumes F: "guarded_file F at" and conn: "accepting conn" and x: "at sz off x" "off + k \<le> sz"
    and c: "rsp_committed c = None" "rsp_written c = 0" "rsp_body c = []"
      "header_Get (rsp_header c) ''Content-Encoding'' = []"
    and r: "req_Method r \<noteq> ''HEAD''" "bodyAllowedForStatus code"
    and s: "send_content (secured_rw conn) F r code ranged (int k) c x = Some (c', x')"
  shows "sf_sourceError F x' \<noteq> None \<or> whole c'"
proof -
  let ?V = "secured_rw conn"
  define h0 where "h0 = header_Set ''Content-Length'' (strconv_FormatInt (int k)) (header_Set ''Accept-Ranges'' ''bytes'' (rsp_header c))"
  define h where "h = setSecurityHeaders h0"
  define c1 where "c1 = response_WriteHeader code (c\<lparr>rsp_header := h\<rparr>)"
  have "k < 2 ^ 63" using guarded_file.size_bound [OF F x(1)] x(2) by simp
  then have cl: "strconv_ParseInt (header_Get h ''Content-Length'') 64 = Some (int k)"
    by (simp add: h_def security_keeps_other [OF other_keys(2)] h0_def ParseInt_FormatInt)
  then have o: "open_body conn code h k [] c1"
    using conn c r(2) by (simp add: open_body_def c1_def response_WriteHeader_def)
  have gc: "guarded_copy F at ?V (open_body conn code h)"
    by (intro guarded_copy.intro F secured.body_writer_axioms)
  have "0 < copy_buffer_size k" by (simp add: copy_buffer_size_def)
  moreover have "copy_loop ?V F (copy_buffer_size k) k c1 x = Some (c', x')"
    using s r(1) c(4)
    by (simp add: send_content_def Let_def rw_Set_def security_rw_def security_apply_def c1_def h_def h0_def file_keys)
  ultimately have "sf_sourceError F x' \<noteq> None \<or> (\<exists>data off'. length data = k \<and> open_body conn code h (k - k) ([] @ data) c' \<and> at sz off' x')"
    by (intro guarded_copy.copy_all_or_error [OF gc x(1, 2) _ le_refl o])
  then show ?thesis using cl by (auto simp: open_body_def whole_def)
qed

lemma serve_ranges_whole:
  assumes F: "guarded_file F at" and conn: "accepting conn" and x: "at sz 0 x"
    and c: "rsp_committed c = None" "rsp_written c = 0" "rsp_body c = []"
      "header_Get (rsp_header c) ''Content-Encoding'' = []"
    and r: "req_Method r \<noteq> ''HEAD''"
    and rs: "ranges = [] \<or> (\<exists>a k. ranges = [(a, k)] \<and> 0 \<le> a \<and> 0 \<le> k \<and> a + k \<le> int sz)"
    and s: "serve_ranges (secured_rw conn) F errText r ranges (int sz) c x = Some (c', x')"
  shows "sf_sourceError F x' \<noteq> None \<or> whole c'"
proof -
  have codes: "bodyAllowedForStatus StatusOK" "bodyAllowedForStatus StatusPartialContent"
    by (simp_all add: bodyAllowedForStatus_def status_codes)
  show ?thesis using rs
  proof
    assume "ranges = []"
    then show ?thesis using s send_content_whole [OF F conn x _ c r codes(1), of sz False c' x'] by (simp add: serve_ranges_def)
  next
    assume "\<exists>a k. ranges = [(a, k)] \<and> 0 \<le> a \<and> 0 \<le> k \<and> a + k \<le> int sz"
    then obtain a0 k0 where rk: "ranges = [(a0, k0)]" "0 \<le> a0" "0 \<le> k0" "a0 + k0 \<le> int sz" by blast
    define a where "a = nat a0"
    define k where "k = nat k0"
    have e: "ranges = [(int a, int k)]" "a + k \<le> sz" using rk by (simp_all add: a_def k_def)
    obtain x1 where x1: "sf_Seek F (of_nat a) SeekStart x = (Inr (of_nat a), x1)" "at sz a x1"
      using guarded_file.guarded_start [OF F x, of a] e(2) by auto
    define c1 where "c1 = rw_Set (secured_rw conn) ''Content-Range'' (content_range (int a) (int k) (int sz)) c"
    have c1: "rsp_committed c1 = None" "rsp_written c1 = 0" "rsp_body c1 = []"
      "header_Get (rsp_header c1) ''Content-Encoding'' = []"
      using c by (simp_all add: c1_def rw_Set_def security_rw_def file_keys)
    have "send_content (secured_rw conn) F r StatusPartialContent True (int k) c1 x1 = Some (c', x')"
      using s x1(1) e by (simp add: serve_ranges_def c1_def)
    then show ?thesis by (rule send_content_whole [OF F conn x1(2) e(2) c1 r codes(2)])
  qed
qed

lemma preconditions_codes:
  assumes "rsp_committed c = None" "checkPreconditions (secured_rw conn) r c = Inl c1" shows "whole c1"
  using assms by (auto simp: checkPreconditions_def Let_def status_codes split: if_splits)

lemma ServeContent_whole:
  assumes F: "guarded_file F at" and conn: "accepting conn" and x: "at sz off x"
    and c: "rsp_committed c = None" "rsp_written c = 0" "rsp_body c = []"
      "header_Get (rsp_header c) ''Content-Encoding'' = []"
    and r: "req_Method r \<noteq> ''HEAD''" "CHR '','' \<notin> set (header_Get (req_Header r) ''Range'')"
    and s: "ServeContent (secured_rw conn) F errText r c x = Some (c', x')"
  shows "sf_sourceError F x' \<noteq> None \<or> whole c'"
proof (cases "checkPreconditions (secured_rw conn) r c")
  case (Inl c1)
  then show ?thesis using s preconditions_codes [of c conn r] c(1) by (simp add: ServeContent_def)
next
  case (Inr rangeReq)
  obtain x1 where x1: "seek_size F x = (Some (of_nat sz), x1)" "at sz 0 x1" by (rule guarded_file.seek_size_guarded [OF F x])
  have z: "sint (of_nat sz :: i64) = int sz" using guarded_file.size_bound [OF F x] by (rule sint_of_nat_i64)
  have cm: "CHR '','' \<notin> set rangeReq" using Inr r(2) by (auto simp: checkPreconditions_def Let_def split: if_splits)
  have err: "whole (serveError (secured_rw conn) msg StatusRequestedRangeNotSatisfiable c2)" if "rsp_committed c2 = None" for msg c2
    using that by (simp add: status_codes)
  show ?thesis
  proof (cases "parseRange rangeReq (int sz)")
    case r1: (Inr ranges)
    have "serve_ranges (secured_rw conn) F errText r ranges (int sz) c x1 = Some (c', x')"
      using s Inr x1(1) z r1 by (simp add: ServeContent_def)
    then show ?thesis
      using serve_ranges_whole [OF F conn x1(2) c r(1) parseRange_single [OF cm r1]] by simp
  next
    case (Inl e)
    show ?thesis
    proof (cases "e = errNoOverlap \<and> sz = 0")
      case True
      then have "serve_ranges (secured_rw conn) F errText r [] (int sz) c x1 = Some (c', x')"
        using s Inr x1(1) Inl by (simp add: ServeContent_def)
      then show ?thesis by (intro serve_ranges_whole [OF F conn x1(2) c r(1)]) simp_all
    next
      case False
      then show ?thesis using s Inr x1(1) z Inl err c(1) by (auto simp: ServeContent_def Let_def split: if_splits)
    qed
  qed
qed

lemma serve_opened_whole:
  assumes F: "guarded_file F at" and conn: "accepting conn" and x: "at sz off x" and r: "req_Method r \<noteq> ''HEAD''"
    and s: "serve_opened (secured_rw conn) F errText r path infoSize (security_apply (response_rw False conn) (new_response n)) x =
      Some (Returned, c', x')"
  shows "whole c'"
proof (cases "several_ranges r")
  case True
  then show ?thesis using s by (auto simp: serve_opened_def security_apply_def new_response_def status_codes)
next
  case False
  let ?V = "secured_rw conn"
  define c where "c = rw_Set ?V ''Accept-Ranges'' ''bytes'' (rw_Set ?V ''Content-Type'' ''application/octet-stream''
    (rw_Set ?V ''Content-Disposition'' (formatDownloadContentDisposition (path_Base path))
      (security_apply (response_rw False conn) (new_response n))))"
  have c: "rsp_committed c = None" "rsp_written c = 0" "rsp_body c = []" "header_Get (rsp_header c) ''Content-Encoding'' = []"
    by (simp_all add: c_def rw_Set_def security_rw_def security_apply_def response_rw_def new_response_def file_keys
        security_keeps_other unset_keys) (simp_all add: header_Get_def header_Values_def)
  have cm: "CHR '','' \<notin> set (header_Get (req_Header r) ''Range'')"
    using False by (cases "header_Values (req_Header r) ''Range''") (auto simp: several_ranges_def header_Get_def Let_def)
  have "ServeContent ?V F errText r c x = Some (c', x')" "sf_sourceError F x' = None"
    using s False by (auto simp: serve_opened_def Let_def split: if_splits simp flip: c_def)
  then show ?thesis using ServeContent_whole [OF F conn x c r cm] by blast
qed

text \<open>C12. A truncated file never looks like a complete one: over a connection that takes every write, when
  the handler of a GET for a file returns normally after a 200 or 206 answer, the body it sent has
  exactly the declared \<open>Content-Length\<close>, however the worker behaves; every failure in the middle of the
  body ends in \<open>http.ErrAbortHandler\<close>, which cuts the connection.\<close>

theorem no_truncated_download:
  assumes "accepting conn" "req_Method r = ''GET''" "req_Path r = BasePath @ ''/api/file''"
    and "ServeHTTP (response_rw False conn) (isolated_backend S) errText assets p r (new_response n) taken s =
      Some (Returned, c, taken', s')"
    and "rsp_committed c = Some (code, h)" "code \<in> {StatusOK, StatusPartialContent}"
  shows "strconv_ParseInt (header_Get h ''Content-Length'') 64 = Some (int (length (rsp_body c)))"
proof -
  define c0 where "c0 = security_apply (response_rw False conn) (new_response n)"
  have c0: "rsp_committed c0 = None" by (simp add: c0_def security_apply_def new_response_def)
  have f: "serveFile (secured_rw conn) (isolated_backend S) errText p r c0 taken s = Some (Returned, c, taken', s')"
    using assms(3, 4) by (simp add: ServeHTTP_def isStaticEntryPath_def BasePath_def Let_def c0_def)
  have head: "req_Method r \<noteq> ''HEAD''" using assms(2) by simp
  have adm: "whole c1" if "file_admission (secured_rw conn) p r c0 = Inl c1" for c1
    using that c0
    by (auto simp: file_admission_def methodNotAllowed_def unauthorized_answer_def status_codes split: if_splits sum.splits)
  have slot: "whole c1" if sl: "serve_slot (secured_rw conn) (isolated_backend S) errText r path c0 s = Some (Returned, c1, s1)" for path c1 s1
  proof -
    obtain m w where ms: "s = (m, w)" by (rule prod.exhaust)
    obtain res m' w' where o: "manager_openRegular S m path w = (res, m', w')" by (metis prod.exhaust)
    show ?thesis
    proof (cases res)
      case (Inl e)
      then have "c1 = open_error_answer (secured_rw conn) r e c0" using sl by (simp add: serve_slot_def isolated_backend_def ms o)
      then show ?thesis using c0 by (auto simp: open_error_answer_def capacity_answer_def status_codes)
    next
      case (Inr f)
      obtain sz where at: "guarded_at sz 0 (f, m', w')" using manager_open_guarded [OF o [unfolded Inr]] by blast
      obtain x1 where "serve_opened (secured_rw conn) (isolated_file S) errText r path (file_size f) c0 (f, m', w') =
          Some (Returned, c1, x1)" using sl by (auto simp: serve_slot_def isolated_backend_def ms o Inr)
      then show ?thesis
        unfolding c0_def by (rule serve_opened_whole [OF guarded.guarded_file_axioms assms(1) at head])
    qed
  qed
  have "whole c" using f adm slot c0
    by (auto simp: serveFile_def capacity_answer_def status_codes split: sum.splits if_splits)
  then show ?thesis using assms(5, 6) by (auto simp: whole_def)
qed

lemma demo_download:
  obtains c s h where "demo_answer Returned c 0 s" "rsp_committed c = Some (StatusPartialContent, h)"
  using download_response [OF demo_download_facts, of 0 "\<lambda>e. []"
        "\<lparr> portalHTML = [], portalJavaScript = [], downloadWorkerJavaScript = [], portalCSS = [] \<rparr>" "()"]
  by (auto simp: delivers_def)

theorem no_truncated_download_witness:
  "\<exists>c s h. demo_answer Returned c 0 s \<and> rsp_committed c = Some (StatusPartialContent, h) \<and>
     strconv_ParseInt (header_Get h ''Content-Length'') 64 = Some (int (length (rsp_body c)))"
proof -
  obtain c s h where d: "demo_answer Returned c 0 s" "rsp_committed c = Some (StatusPartialContent, h)" by (rule demo_download)
  have "StatusPartialContent \<in> {StatusOK, StatusPartialContent}" by simp
  from no_truncated_download [OF demo_download_accepted(1-3) d this] d show ?thesis by blast
qed

end
