(* ===== verification/Portal_Answers.thy ===== *)
theory Portal_Answers
  imports Portal_Safety
begin

text \<open>
  What the answers of the portal contain: the sorted listing from the request to the JSON text, the answers
  to requests without the bearer, the accepted queries, the \<open>Content-Disposition\<close> of a download, and the
  accepted configurations.
\<close>

section \<open>Sorted listings\<close>

text \<open>What \<open>sort.Slice\<close> needs of the order to sort: it is asymmetric, and being not less is transitive.\<close>

locale strict_weak_order =
  fixes lt :: "'a \<Rightarrow> 'a \<Rightarrow> bool" and A :: "'a set"
  assumes asym: "a \<in> A \<Longrightarrow> b \<in> A \<Longrightarrow> lt a b \<Longrightarrow> \<not> lt b a"
    and not_less_trans: "a \<in> A \<Longrightarrow> b \<in> A \<Longrightarrow> c \<in> A \<Longrightarrow> \<not> lt a b \<Longrightarrow> \<not> lt b c \<Longrightarrow> \<not> lt a c"
begin

lemma set_insert_by: "set (insert_by lt x ys) = insert x (set ys)"
  by (induction ys) auto

lemma insert_by_sorted:
  "x \<in> A \<Longrightarrow> set ys \<subseteq> A \<Longrightarrow> sorted_wrt (\<lambda>a b. \<not> lt b a) ys \<Longrightarrow> sorted_wrt (\<lambda>a b. \<not> lt b a) (insert_by lt x ys)"
proof (induction ys)
  case (Cons y ys)
  show ?case
  proof (cases "lt y x")
    case True
    then have "\<not> lt x y" using Cons.prems asym [of y x] by simp
    then show ?thesis using Cons True by (simp add: set_insert_by)
  next
    case False
    have "\<not> lt z x" if "z \<in> set ys" for z
      using that False Cons.prems not_less_trans [of z y x] by (simp add: subset_iff)
    then show ?thesis using Cons.prems False by simp
  qed
qed simp

lemma sort_Slice_sorted: "set xs \<subseteq> A \<Longrightarrow> sorted_wrt (\<lambda>a b. \<not> lt b a) (sort_Slice lt xs)"
proof (induction xs)
  case (Cons x xs)
  have "set (sort_Slice lt xs) = set xs" for xs by (induction xs) (auto simp: sort_Slice_def set_insert_by)
  then show ?case using Cons insert_by_sorted [of x "sort_Slice lt xs"] by (simp add: sort_Slice_def)
qed (simp add: sort_Slice_def)

end

lemma mset_sort_Slice: "mset (sort_Slice lt xs) = mset xs"
proof -
  have "mset (insert_by lt x ys) = add_mset x (mset ys)" for x ys by (induction ys) auto
  then show ?thesis by (induction xs) (auto simp: sort_Slice_def)
qed

lemma bytes_less_asym: "bytes_less s t \<Longrightarrow> \<not> bytes_less t s"
  by (induction s t rule: bytes_less.induct) auto

lemma bytes_less_trans: "bytes_less s t \<Longrightarrow> bytes_less t u \<Longrightarrow> bytes_less s u"
proof (induction s arbitrary: t u)
  case Nil
  then show ?case by (cases t; cases u) auto
next
  case (Cons a s)
  then show ?case by (cases t; cases u) auto
qed

lemma bytes_less_total: "s \<noteq> t \<Longrightarrow> bytes_less s t \<or> bytes_less t s"
proof (induction s arbitrary: t)
  case Nil
  then show ?case by (cases t) auto
next
  case (Cons a s)
  show ?case
  proof (cases t)
    case t: (Cons b u)
    have "(of_char a :: nat) < of_char b \<or> of_char b < (of_char a :: nat) \<or> a = b" by (metis linorder_neqE_nat of_char_eq_iff)
    then show ?thesis using Cons t by auto
  qed simp
qed

lemma bytes_not_less_trans: "\<not> bytes_less s t \<Longrightarrow> \<not> bytes_less t u \<Longrightarrow> \<not> bytes_less s u"
  by (metis bytes_less_total bytes_less_trans)

interpretation listing_order: strict_weak_order entry_less "{e. EntryType e \<in> {''file'', ''directory''}}"
proof unfold_locales
  show "\<not> entry_less b a" if "entry_less a b" "a \<in> {e. EntryType e \<in> {''file'', ''directory''}}"
    "b \<in> {e. EntryType e \<in> {''file'', ''directory''}}" for a b
    using that bytes_less_asym by (auto simp: entry_less_def split: if_splits)
  show "\<not> entry_less a c" if "\<not> entry_less a b" "\<not> entry_less b c" "a \<in> {e. EntryType e \<in> {''file'', ''directory''}}"
    "b \<in> {e. EntryType e \<in> {''file'', ''directory''}}" "c \<in> {e. EntryType e \<in> {''file'', ''directory''}}" for a b c
    using that bytes_not_less_trans [of "EntryName a" "EntryName b" "EntryName c"]
    by (cases "EntryType a = ''file''"; cases "EntryType b = ''file''"; cases "EntryType c = ''file''")
      (simp_all add: entry_less_def)
qed
lemma ParseInt_dec_digits: "strconv_ParseInt (dec_digits n) 64 = (if n < 2 ^ 63 then Some (int n) else None)"
  by (simp add: strconv_ParseInt_def dec_digits_all Let_def)

lemma payload_sent:
  assumes conn: "accepting conn" and c: "rsp_committed c = None" "rsp_written c = 0" "rsp_body c = []"
    and r: "req_Method r \<noteq> ''HEAD''" and code: "bodyAllowedForStatus code"
  shows "code_of (write_payload (secured_rw conn) r code v c) = Some code"
    and "rsp_body (write_payload (secured_rw conn) r code v c) = bytes_of_string (json_encode v)"
proof -
  define pl where "pl = bytes_of_string (json_encode v)"
  define h where "h = setSecurityHeaders (header_Set ''Content-Length'' (dec_digits (length pl))
    (header_Set ''Content-Type'' ''application/json; charset=utf-8'' (rsp_header c)))"
  define c1 where "c1 = response_WriteHeader code (c\<lparr>rsp_header := h\<rparr>)"
  have "header_Get h ''Content-Length'' = dec_digits (length pl)"
    by (simp add: h_def security_keeps_other [OF other_keys(2)])
  then have c1: "rsp_committed c1 = Some (code, h)" "rsp_written c1 = 0" "rsp_body c1 = []"
    "rsp_contentLength c1 = None \<or> rsp_contentLength c1 = Some (length pl)"
    using c by (auto simp: c1_def response_WriteHeader_def ParseInt_dec_digits)
  obtain n' where k: "conn pl (rsp_net c1) = ((length pl, None), n')"
    using conn by (metis accepting_def prod.collapse)
  have w: "write_payload (secured_rw conn) r code v c = snd (rw_Write (secured_rw conn) pl c1)"
    using r by (simp add: write_payload_def Let_def rw_Set_def security_rw_def security_apply_def c1_def h_def pl_def file_keys)
  have "rsp_committed (snd (rw_Write (secured_rw conn) pl c1)) = Some (code, h) \<and> rsp_body (snd (rw_Write (secured_rw conn) pl c1)) = pl"
    using c1 k code
    by (auto simp: security_rw_def security_apply_def response_Write_def response_WriteHeader_def Let_def)
  then show "code_of (write_payload (secured_rw conn) r code v c) = Some code"
    "rsp_body (write_payload (secured_rw conn) r code v c) = bytes_of_string (json_encode v)"
    by (simp_all add: w pl_def)
qed

text \<open>C17. An authorised listing answers with the directory, sorted: over a kernel with legal names and sizes
  the portal sends status 200 and the JSON text of the entries the local backend lists, directories
  before files and each kind in byte order of the names, none lost and none added.\<close>

theorem listing_answer_is_sorted:
  assumes conn: "accepting conn" and dc: "directory_contract K"
    and r: "req_Method r = ''GET''" "req_Path r = BasePath @ ''/api/list''" "authorized p r" "requested_path r True = Inr path"
    and p: "1 \<le> portal_maxEntries p" "portal_maxEntries p \<le> 1000"
    and m: "\<not> mgr_closed m" "mgr_root m = Some fd" "0 \<le> fd" "fd < 2 ^ 31"
    and root: "secureRootFromWorkerFD K fd (mgr_mountID m) (mgr_filesystemType m) (qw_kernel (sv_worker v)) = (Inr root, k1)"
    and l: "local_list K root path (portal_maxEntries p) k1 = (Inr es, k2)"
  shows "\<exists>c s h es'.
    ServeHTTP (response_rw False conn) (isolated_backend (served_session euid K pread)) errText assets p r
      (new_response n) taken (m, v) = Some (Returned, c, taken, s) \<and>
    rsp_committed c = Some (StatusOK, h) \<and> rsp_body c = bytes_of_string (json_encode (listing_json path es')) \<and>
    mset es' = mset es \<and>
    sorted_wrt (\<lambda>a b. EntryType a = ''directory'' \<and> EntryType b = ''file'' \<or>
      EntryType a = EntryType b \<and> \<not> bytes_less (EntryName b) (EntryName a)) es'"
proof -
  let ?S = "served_session euid K pread" and ?es = "sort_Slice entry_less es"
  define c0 where "c0 = security_apply (response_rw False conn) (new_response n)"
  have c0: "rsp_committed c0 = None" "rsp_written c0 = 0" "rsp_body c0 = []"
    by (simp_all add: c0_def security_apply_def new_response_def)
  have ty: "set es \<subseteq> {e. EntryType e \<in> {''file'', ''directory''}}"
    using listing_acceptable(1) [OF dc l [unfolded local_list_def]] by (auto simp: acceptable_entry_def)
  have es: "set ?es = set es" using mset_sort_Slice [of entry_less es] by (metis set_mset_mset)
  have st: "sorted_wrt (\<lambda>a b. EntryType a = ''directory'' \<and> EntryType b = ''file'' \<or>
      EntryType a = EntryType b \<and> \<not> bytes_less (EntryName b) (EntryName a)) ?es"
  proof (rule sorted_wrt_mono_rel [OF _ listing_order.sort_Slice_sorted [OF ty]])
    fix a b assume "a \<in> set ?es" "b \<in> set ?es" "\<not> entry_less b a"
    then show "EntryType a = ''directory'' \<and> EntryType b = ''file'' \<or>
        EntryType a = EntryType b \<and> \<not> bytes_less (EntryName b) (EntryName a)"
      using subsetD [OF ty, of a] subsetD [OF ty, of b] unfolding es
      by (cases "EntryType a = ''file''"; cases "EntryType b = ''file''") (simp_all add: entry_less_def)
  qed
  have ok: "bodyAllowedForStatus StatusOK" by (simp add: bodyAllowedForStatus_def status_codes)
  have nh: "req_Method r \<noteq> ''HEAD''" using r(1) by simp
  define c where "c = writeJSON (secured_rw conn) r StatusOK (listing_json path ?es) c0"
  have c: "code_of c = Some StatusOK" "rsp_body c = bytes_of_string (json_encode (listing_json path ?es))"
    unfolding c_def writeJSON_def by (rule payload_sent [OF conn c0 nh ok])+
  then obtain h where h: "rsp_committed c = Some (StatusOK, h)" by auto
  obtain s where "serveList (secured_rw conn) (isolated_backend ?S) p r c0 (m, v) = (c, s)"
    using manager_list_served [OF dc p requested_path_valid [OF r(4)] m root l, of euid pread] r
    by (simp add: serveList_def reads_only_def isolated_backend_def reported_def c_def)
  then have "ServeHTTP (response_rw False conn) (isolated_backend ?S) errText assets p r (new_response n) taken (m, v) =
      Some (Returned, c, taken, s)"
    using r(2) by (simp add: ServeHTTP_def isStaticEntryPath_def BasePath_def Let_def flip: c0_def)
  then show ?thesis using h c(2) st mset_sort_Slice [of entry_less es] by blast
qed
theorem listing_answer_is_sorted_witness:
  "\<exists>c s h es'.
    ServeHTTP (response_rw False (\<lambda>d (n :: unit). ((length d, None), n)))
      (isolated_backend (served_session 0 (demo_share [''a'', ''c'']) memory_pread)) (\<lambda>e. [])
      \<lparr> portalHTML = [], portalJavaScript = [], downloadWorkerJavaScript = [], portalCSS = [] \<rparr> demo_portal
      (demo_get (BasePath @ ''/api/list'') [] Map.empty) (new_response ()) 0 (demo_manager, demo_session) =
      Some (Returned, c, 0, s) \<and> rsp_committed c = Some (StatusOK, h) \<and>
    rsp_body c = bytes_of_string (json_encode (listing_json [] es')) \<and> size (mset es') = 2"
proof -
  let ?r = "demo_get (BasePath @ ''/api/list'') [] Map.empty"
  have p: "1 \<le> portal_maxEntries demo_portal" "portal_maxEntries demo_portal \<le> 1000" by (simp_all add: demo_portal_def)
  have path: "requested_path ?r True = Inr []"
    by (simp add: requested_path_def demo_get_def parseSafeQuery_def url_ParseQuery_def query_piece_def query_Get_def
        validateRelativePath_def)
  have r: "req_Method ?r = ''GET''" "req_Path ?r = BasePath @ ''/api/list''" by (simp_all add: demo_get_def)
  have l: "local_list (demo_share [''a'', ''c'']) demo_root [] (portal_maxEntries demo_portal) (3, {1}) =
      (Inr [\<lparr> EntryName = ''a'', EntryType = ''file'', EntrySize = 3 \<rparr>,
            \<lparr> EntryName = ''c'', EntryType = ''file'', EntrySize = 3 \<rparr>], (6, {1}))"
    using demo_share_list by (simp add: demo_portal_def)
  show ?thesis
    using listing_answer_is_sorted [OF demo_download_accepted(1) demo_share_contract r demo_authorized path p
        demo_manager_ready(1-4) demo_share_root l, of 0 memory_pread "\<lambda>e. []"
        "\<lparr> portalHTML = [], portalJavaScript = [], downloadWorkerJavaScript = [], portalCSS = [] \<rparr>" "()" 0]
    by (elim exE conjE) (rule exI, rule exI, rule exI, rule exI, intro conjI, assumption+, simp)
qed

section \<open>Authorization\<close>

lemma unauthorized_admission:
  assumes "\<not> authorized p r"
  obtains c' where "file_admission W p r c = Inl c'"
  using assms by (cases "file_admission W p r c") (auto simp: file_admission_def split: if_splits)

lemma unauthorized_list:
  assumes "\<not> authorized p r"
  shows "serveList W B p r c s = (if reads_only r then unauthorized_answer W r c else methodNotAllowed W r c, s)"
  using assms by (simp add: serveList_def)

lemma unauthorized_codes:
  fixes isHead conn
  defines "V \<equiv> security_rw (response_rw isHead conn)"
  assumes a: "\<not> authorized p r" and c: "rsp_committed c = None"
  shows "file_admission V p r c = Inl c' \<Longrightarrow> code_of c' \<in> Some ` {StatusUnauthorized, StatusMethodNotAllowed, StatusNoContent}"
    and "code_of (if reads_only r then unauthorized_answer V r c else methodNotAllowed V r c)
      \<in> Some ` {StatusUnauthorized, StatusMethodNotAllowed, StatusNoContent}"
proof -
  have n: "code_of (rw_Set V k v c) = None" "code_of c = None" for k v using c by (simp_all add: V_def)
  have w: "code_of (rw_WriteHeader V StatusNoContent c) = Some StatusNoContent"
    "code_of (unauthorized_answer V r c) = Some StatusUnauthorized" "code_of (methodNotAllowed V r c) = Some StatusMethodNotAllowed"
    unfolding V_def unauthorized_answer_def methodNotAllowed_def
    by (rule secured_WriteHeader answer_codes(1) n [unfolded V_def])+
  then show "code_of (if reads_only r then unauthorized_answer V r c else methodNotAllowed V r c)
      \<in> Some ` {StatusUnauthorized, StatusMethodNotAllowed, StatusNoContent}" by simp
  show "code_of c' \<in> Some ` {StatusUnauthorized, StatusMethodNotAllowed, StatusNoContent}" if "file_admission V p r c = Inl c'"
    using that a w by (auto simp only: file_admission_def if_True if_False sum.inject split: if_splits)
qed

text \<open>C16. Without the bearer nothing reaches the storage. A request whose bearer is not accepted is answered
  the same whatever backend stands behind the portal, which stays untouched, no download slot is
  taken, and the two data routes answer it with 401, 405, or the bare 204 of a file navigation, never
  with data.\<close>

theorem unauthorized_never_reaches_storage:
  assumes "\<not> authorized p r"
  shows "(\<exists>c'. \<forall>B s. ServeHTTP W B errText assets p r c taken s = Some (Returned, c', taken, s)) \<and>
    (req_Path r \<in> {BasePath @ ''/api/list'', BasePath @ ''/api/file''} \<longrightarrow>
      (\<exists>c' h code. ServeHTTP (response_rw isHead conn) B errText assets p r (new_response n) taken s =
          Some (Returned, c', taken, s) \<and> rsp_committed c' = Some (code, h) \<and>
        code \<in> {StatusUnauthorized, StatusMethodNotAllowed, StatusNoContent}))"
proof
  have same: "ServeHTTP W B errText assets p r c taken s =
      Some (Returned, fst (snd (the (ServeHTTP W B' errText assets p r c taken s'))), taken, s)" for B B' s s'
  proof -
    obtain a where "file_admission (security_rw W) p r (security_apply W c) = Inl a" by (rule unauthorized_admission [OF assms])
    then show ?thesis by (simp add: ServeHTTP_def Let_def unauthorized_list [OF assms] serveFile_def)
  qed
  show "\<exists>c'. \<forall>B s. ServeHTTP W B errText assets p r c taken s = Some (Returned, c', taken, s)"
    by (intro exI allI) (rule same)
  let ?W = "response_rw isHead conn"
  define c0 where "c0 = security_apply ?W (new_response n)"
  have c0: "rsp_committed c0 = None" by (simp add: c0_def security_apply_def new_response_def)
  obtain a where a: "file_admission (security_rw ?W) p r c0 = Inl a" by (rule unauthorized_admission [OF assms])
  let ?l = "if reads_only r then unauthorized_answer (security_rw ?W) r c0 else methodNotAllowed (security_rw ?W) r c0"
  have codes: "code_of a \<in> Some ` {StatusUnauthorized, StatusMethodNotAllowed, StatusNoContent}"
    "code_of ?l \<in> Some ` {StatusUnauthorized, StatusMethodNotAllowed, StatusNoContent}"
    using unauthorized_codes [OF assms c0] a by auto
  have "ServeHTTP ?W B errText assets p r (new_response n) taken s = Some (Returned, ?l, taken, s)"
    if "req_Path r = BasePath @ ''/api/list''"
    using that by (simp add: ServeHTTP_def isStaticEntryPath_def BasePath_def Let_def unauthorized_list [OF assms] flip: c0_def)
  moreover have "ServeHTTP ?W B errText assets p r (new_response n) taken s = Some (Returned, a, taken, s)"
    if "req_Path r = BasePath @ ''/api/file''"
    using that a by (simp add: ServeHTTP_def isStaticEntryPath_def BasePath_def Let_def serveFile_def flip: c0_def)
  ultimately show "req_Path r \<in> {BasePath @ ''/api/list'', BasePath @ ''/api/file''} \<longrightarrow>
      (\<exists>c' h code. ServeHTTP ?W B errText assets p r (new_response n) taken s = Some (Returned, c', taken, s) \<and>
        rsp_committed c' = Some (code, h) \<and> code \<in> {StatusUnauthorized, StatusMethodNotAllowed, StatusNoContent})"
    using codes by (auto simp del: insert_iff split del: if_split)
qed

section \<open>Queries\<close>

lemma path_not_credential: "\<not> credential_key ''path''"
  by (simp add: credential_key_def lower_equals_def lower_rune_def runes_ascii)

lemma check_query_keys_none:
  "check_query_keys q keys = None \<longleftrightarrow> (\<forall>k\<in>set keys. k = ''path'' \<and> length (filter (\<lambda>p. fst p = k) q) = 1)"
  using path_not_credential by (induction q keys rule: check_query_keys.induct) auto

text \<open>C18. The accepted queries are exactly those that decode to nothing or to a single \<open>path\<close> parameter: no
  second value, no other parameter and no credential in the address gets through.\<close>

theorem accepted_queries_exact:
  "parseSafeQuery raw = Inr q \<longleftrightarrow> url_ParseQuery raw = Inr q \<and> (q = [] \<or> (\<exists>v. q = [(''path'', v)]))"
proof -
  have *: "check_query_keys q (remdups (map fst q)) = None \<longleftrightarrow> q = [] \<or> (\<exists>v. q = [(''path'', v)])" for q :: "(string \<times> string) list"
  proof
    assume "check_query_keys q (remdups (map fst q)) = None"
    then have a: "\<forall>k\<in>set (map fst q). k = ''path'' \<and> length (filter (\<lambda>p. fst p = k) q) = 1"
      by (simp only: check_query_keys_none set_remdups)
    then have keys: "\<forall>x\<in>set q. fst x = ''path''" by auto
    show "q = [] \<or> (\<exists>v. q = [(''path'', v)])"
    proof (cases q)
      case (Cons x xs)
      have "filter (\<lambda>p. fst p = ''path'') xs = xs" using keys Cons by (simp add: filter_id_conv)
      moreover have "fst x \<in> set (map fst q)" "fst x = ''path''" using keys Cons by simp_all
      then have "length (filter (\<lambda>p. fst p = ''path'') q) = 1" using bspec [OF a] by metis
      ultimately show ?thesis using keys Cons by (cases x) auto
    qed simp
  next
    assume "q = [] \<or> (\<exists>v. q = [(''path'', v)])"
    then show "check_query_keys q (remdups (map fst q)) = None" by (auto simp: check_query_keys_none)
  qed
  show ?thesis
  proof (cases "url_ParseQuery raw")
    case (Inr q')
    then show ?thesis using * [of q'] by (cases "check_query_keys q' (remdups (map fst q'))") (auto simp: parseSafeQuery_def)
  qed (simp add: parseSafeQuery_def)
qed
theorem unauthorized_never_reaches_storage_witness:
  "\<exists>c' h code.
    ServeHTTP (response_rw False (\<lambda>d (n :: unit). ((length d, None), n))) (isolated_backend (served_session 0 (demo_share []) memory_pread))
      (\<lambda>e. []) \<lparr> portalHTML = [], portalJavaScript = [], downloadWorkerJavaScript = [], portalCSS = [] \<rparr> demo_portal
      \<lparr> req_Method = ''GET'', req_Path = BasePath @ ''/api/file'', req_RawQuery = ''path=a'', req_Header = Map.empty \<rparr>
      (new_response ()) 0 (demo_manager, demo_session) = Some (Returned, c', 0, (demo_manager, demo_session)) \<and>
    rsp_committed c' = Some (code, h) \<and> code \<in> {StatusUnauthorized, StatusMethodNotAllowed, StatusNoContent}"
proof -
  let ?r = "\<lparr> req_Method = ''GET'', req_Path = BasePath @ ''/api/file'', req_RawQuery = ''path=a'', req_Header = Map.empty \<rparr>"
  have "\<not> authorized demo_portal ?r"
    by (simp add: authorized_def bearer_candidate_def header_Values_def validPublicBearer_def publicBearerLen_def publicBearerPrefix_def Let_def)
  from unauthorized_never_reaches_storage [OF this, THEN conjunct2] show ?thesis by simp
qed

section \<open>Download names\<close>

lemma concat_map_inj:
  assumes "\<And>a b u v. f a @ u = f b @ v \<Longrightarrow> a = b" "\<And>a. f a \<noteq> []"
  shows "concat (map f xs) = concat (map f ys) \<Longrightarrow> xs = ys"
proof (induction xs arbitrary: ys)
  case Nil
  then show ?case using assms(2) by (cases ys) auto
next
  case (Cons x xs)
  then obtain y ys' where y: "ys = y # ys'" using assms(2) [of x] by (cases ys) auto
  then have "x = y" using Cons.prems assms(1) [of x "concat (map f xs)" y "concat (map f ys')"] by simp
  then show ?case using Cons y by simp
qed

lemma upperhex_inj: "m < 16 \<Longrightarrow> n < 16 \<Longrightarrow> upperhex m = upperhex n \<Longrightarrow> m = n"
  by (simp add: upperhex_def char_of_eq_iff [symmetric] split: if_splits)

lemma upperhex_code: "n < 16 \<Longrightarrow> of_char (upperhex n) = (if n < 10 then 48 + n else 55 + n)"
  by (simp add: upperhex_def)

lemma percent_byte_prefix: "percent_byte a @ u = percent_byte b @ v \<Longrightarrow> a = b"
proof -
  have "a = b" if "(of_char a :: nat) div 16 = of_char b div 16" "(of_char a :: nat) mod 16 = of_char b mod 16"
    using that by (metis div_mult_mod_eq of_char_eq_iff)
  moreover have "(of_char c :: nat) div 16 < 16" "(of_char c :: nat) mod 16 < 16" for c using nat_of_char_less_256 [of c] by simp_all
  ultimately show "percent_byte a @ u = percent_byte b @ v \<Longrightarrow> a = b"
    using upperhex_inj by (auto simp: percent_byte_def split: if_splits)
qed

lemma quote_byte_prefix: "quote_byte a @ u = quote_byte b @ v \<Longrightarrow> a = b"
  by (auto simp: quote_byte_def split: if_splits)

definition disposition_tail :: "string \<Rightarrow> string" where
  "disposition_tail x =
     (if needsEncoding x then ''*=utf-8'' @ [CHR 0x27, CHR 0x27] @ concat (map percent_byte x)
      else if mime_token x then ''='' @ x
      else ''='' @ [CHR 0x22] @ concat (map quote_byte x) @ [CHR 0x22])"

lemma disposition_safe_name:
  assumes "isSafeVisibleName x"
  shows "formatDownloadContentDisposition x = ''attachment; filename'' @ disposition_tail x"
  using assms
  by (simp add: formatDownloadContentDisposition_def FormatMediaType_def disposition_tail_def mime_token_def tspecial_def
      ascii_lower_def Let_def)

lemma disposition_tail_inj: "disposition_tail x = disposition_tail y \<Longrightarrow> x = y"
proof -
  have q: "quote_byte a \<noteq> []" and p: "percent_byte a \<noteq> []" for a by (simp_all add: quote_byte_def percent_byte_def)
  have "CHR 0x22 \<notin> set x" if "mime_token x" for x using that by (auto simp: mime_token_def tspecial_def list_all_iff)
  then show "disposition_tail x = disposition_tail y \<Longrightarrow> x = y"
    using concat_map_inj [of quote_byte x y, OF quote_byte_prefix q] concat_map_inj [of percent_byte x y, OF percent_byte_prefix p]
    by (fastforce simp: disposition_tail_def split: if_splits)
qed

lemma disposition_tail_printable:
  assumes "isSafeVisibleName x" "c \<in> set (disposition_tail x)"
  shows "0x20 \<le> (of_char c :: nat) \<and> (of_char c :: nat) \<le> 0x7E"
proof -
  have h: "0x20 \<le> (of_char (upperhex n) :: nat) \<and> (of_char (upperhex n) :: nat) \<le> 0x7E" if "n < 16" for n
    using upperhex_code [OF that] that by simp
  have "0x20 \<le> (of_char c :: nat) \<and> (of_char c :: nat) \<le> 0x7E" if pb: "c \<in> set (percent_byte a)" for a
  proof -
    consider "c = CHR ''%''" | "c = upperhex (of_char a div 16)" | "c = upperhex (of_char a mod 16)"
      | "c = a" "\<not> (of_char a :: nat) \<le> 0x20" "\<not> 0x7F \<le> (of_char a :: nat)"
      using pb by (auto simp: percent_byte_def split: if_splits)
    then show ?thesis
    proof cases
      case 2
      then show ?thesis using h [of "of_char a div 16"] nat_of_char_less_256 [of a] by simp
    next
      case 3
      then show ?thesis using h [of "of_char a mod 16"] by simp
    qed simp_all
  qed
  moreover have "0x20 \<le> (of_char a :: nat) \<and> (of_char a :: nat) \<le> 0x7E" if "\<not> needsEncoding x" "a \<in> set x" for a
  proof -
    have "\<not> (((of_char a :: nat) < 0x20 \<or> 0x7E < (of_char a :: nat)) \<and> a \<noteq> CHR 0x09)"
      using that by (simp add: needsEncoding_def list_ex_iff)
    moreover have "(of_char (CHR 0x09) :: nat) = 9" by simp
    ultimately have "(of_char a :: nat) < 0x80 \<and> (of_char a :: nat) \<le> 0x7E \<and> (0x20 \<le> (of_char a :: nat) \<or> a = CHR 0x09)"
      by (cases "a = CHR 0x09") (simp, simp only: simp_thms not_less de_Morgan_disj, linarith)
    moreover obtain rs where "runes x = Some rs" "\<forall>r\<in>set rs. \<not> unicode_IsControl r"
      using assms(1) by (auto simp: isSafeVisibleName_def list_all_iff split: option.splits)
    ultimately show ?thesis using runes_ascii_mem [of x rs a] that(2) by (auto simp: unicode_IsControl_def)
  qed
  moreover have "c \<in> {CHR ''*'', CHR ''='', CHR ''u'', CHR ''t'', CHR ''f'', CHR ''-'', CHR ''8'', CHR 0x27, CHR 0x22, CHR 0x5C} \<or>
      (\<exists>a. c \<in> set (percent_byte a)) \<or> \<not> needsEncoding x \<and> c \<in> set x"
    using assms(2) by (auto simp: disposition_tail_def quote_byte_def split: if_splits)
  ultimately show ?thesis by (elim disjE exE) auto
qed

text \<open>C19. The \<open>Content-Disposition\<close> of a download is safe to put into a header whatever the file is called: it
  is always an attachment, every byte is printable ASCII, so no name can break the header or add
  another, and two different accepted names give different headers.\<close>

theorem content_disposition_safe:
  "prefix ''attachment'' (formatDownloadContentDisposition name) \<and>
   (\<forall>c\<in>set (formatDownloadContentDisposition name). 0x20 \<le> (of_char c :: nat) \<and> (of_char c :: nat) \<le> 0x7E) \<and>
   (isSafeVisibleName name \<and> isSafeVisibleName name' \<and> name \<noteq> name' \<longrightarrow>
     formatDownloadContentDisposition name \<noteq> formatDownloadContentDisposition name')"
proof -
  have f: "formatDownloadContentDisposition x = (if isSafeVisibleName x then ''attachment; filename'' @ disposition_tail x else ''attachment'')"
    for x using disposition_safe_name by (simp add: formatDownloadContentDisposition_def)
  have "prefix ''attachment'' (formatDownloadContentDisposition name)" by (simp add: f)
  moreover have "\<forall>c\<in>set (formatDownloadContentDisposition name). 0x20 \<le> (of_char c :: nat) \<and> (of_char c :: nat) \<le> 0x7E"
    using disposition_tail_printable [of name] by (auto simp: f)
  moreover have "isSafeVisibleName name \<and> isSafeVisibleName name' \<and> name \<noteq> name' \<longrightarrow>
      formatDownloadContentDisposition name \<noteq> formatDownloadContentDisposition name'"
    using disposition_tail_inj [of name name'] by (auto simp: f)
  ultimately show ?thesis by blast
qed

theorem content_disposition_safe_witness:
  "formatDownloadContentDisposition ''a b.txt'' \<noteq> formatDownloadContentDisposition ''a_b.txt''"
proof -
  have "isSafeVisibleName ''a b.txt''" "isSafeVisibleName ''a_b.txt''" by (simp_all add: isSafeVisibleName_def text_eval)
  then show ?thesis using content_disposition_safe [of "''a b.txt''" "''a_b.txt''"] by simp
qed

section \<open>Configured limits\<close>

text \<open>C20. The accepted configurations, exactly. The share root and the verifier file are valid UTF-8 paths
  without a NUL that consist of a slash before each of at least one element, where no element is empty, a
  dot, a double dot or holds a slash; the limits lie between 0 and 1,000 entries and between 0 and 64
  downloads, 0 standing for the largest value. The portal then gets the paths as configured and limits of
  at least one, and nothing else is accepted.\<close>

theorem accepted_configurations_exact:
  "validatePortalConfig config = Inr v \<longleftrightarrow>
   (\<forall>p \<in> {Root config, VerifierFile config}. utf8_ValidString p \<and> CHR 0x00 \<notin> set p \<and>
      (\<exists>es. es \<noteq> [] \<and> (\<forall>e \<in> set es. e \<notin> {[], ''.'', ''..''} \<and> slash \<notin> set e) \<and>
         p = concat (map (\<lambda>e. slash # e) es))) \<and>
   ConfigMaxEntries config \<in> {0..1000} \<and> MaxDownloads config \<in> {0..64} \<and>
   v = \<lparr> rootPath = Root config, verifierPath = VerifierFile config,
         maxEntries = (if ConfigMaxEntries config = 0 then 1000 else nat (ConfigMaxEntries config)),
         maxDownloads = (if MaxDownloads config = 0 then 64 else nat (MaxDownloads config)) \<rparr>"
proof -
  have paths: "(\<forall>p \<in> {Root config, VerifierFile config}. utf8_ValidString p \<and> CHR 0x00 \<notin> set p \<and>
      (\<exists>es. es \<noteq> [] \<and> (\<forall>e \<in> set es. e \<notin> {[], ''.'', ''..''} \<and> slash \<notin> set e) \<and>
         p = concat (map (\<lambda>e. slash # e) es))) \<longleftrightarrow> config_path (Root config) \<and> config_path (VerifierFile config)"
    by (simp add: config_path_def plain_element_def)
  have other: "config_path p \<Longrightarrow> validateAbsoluteConfigPath p f = Inr p"
    "validateAbsoluteConfigPath p f = Inr q \<Longrightarrow> q = p \<and> config_path p" for p q f
    by (simp_all add: validateAbsoluteConfigPath_iff)
  show ?thesis unfolding paths
    by (auto simp: validatePortalConfig_def other DefaultMaxDirectoryEntries_def DefaultMaxActiveDownloads_def Let_def
        split: sum.splits if_splits dest!: other(2))
qed

theorem accepted_configurations_exact_witness:
  "validatePortalConfig \<lparr> Root = ''/srv/share'', VerifierFile = ''/etc/v'', ConfigMaxEntries = 0, MaxDownloads = 3 \<rparr> =
     Inr \<lparr> rootPath = ''/srv/share'', verifierPath = ''/etc/v'', maxEntries = 1000, maxDownloads = 3 \<rparr>"
proof -
  have "\<exists>es. es \<noteq> [] \<and> (\<forall>e \<in> set es. e \<notin> {[], ''.'', ''..''} \<and> slash \<notin> set e) \<and>
      ''/srv/share'' = concat (map (\<lambda>e. slash # e) es)"
    by (rule exI [of _ "[''srv'', ''share'']"]) simp
  moreover have "\<exists>es. es \<noteq> [] \<and> (\<forall>e \<in> set es. e \<notin> {[], ''.'', ''..''} \<and> slash \<notin> set e) \<and>
      ''/etc/v'' = concat (map (\<lambda>e. slash # e) es)"
    by (rule exI [of _ "[''etc'', ''v'']"]) simp
  moreover have "utf8_ValidString ''/srv/share''" "utf8_ValidString ''/etc/v''"
    by (simp_all add: utf8_ValidString_def text_eval)
  ultimately show ?thesis
    by (intro accepted_configurations_exact [THEN iffD2]) (simp del: split_paired_Ex)
qed

end
