(* ===== verification/Spec2Isabelle.thy ===== *)
theory Spec2Isabelle
  imports Worker_Pool Portal_Answers
begin

text \<open>
  Verification of the public file service of ReCasaOS: the opt-in, read-only portal that serves one
  directory over HTTP to holders of a bearer secret (\<open>pkg/publicfiles\<close>).

  \<^bold>\<open>The program.\<close> A coordinator process runs the HTTP portal. It never touches the shared
  directory itself: for the start-up and for every listing and download it starts a disposable
  worker process, passes it the pinned root descriptor over a socket and talks to it in frames. The
  worker limits itself, opens the object beneath the root without following links, compares what
  it reopened with what it pinned, and answers. The coordinator bounds the workers (slots and a
  quarantine for killed children that have not exited), checks everything a worker sends and never
  passes a truncated file off as a complete one. Downloads run under an idle deadline and a minimum
  rate.

  \<^bold>\<open>Theories\<close>, bottom up, with the code they model.

  \<^descr>[Prelude] Machine types, slices, and the interfaces that are stated once as locales: byte codecs
  (\<open>checked_codec\<close>, \<open>total_codec\<close>), inductive invariants (\<open>inductive_invariant\<close>) and refinement of
  executions (\<open>execution_refinement\<close>).

  \<^descr>[Go_Bytes, Go_Text, Go_Strconv, Go_Json, Go_Strings, Go_Encoding, Go_Http, Serve_Content] What the
  sources use of Go's standard library: \<open>encoding/binary\<close>, \<open>strings\<close>, \<open>path\<close>, \<open>unicode/utf8\<close>,
  \<open>strconv\<close>, \<open>encoding/json\<close>, \<open>encoding/hex\<close>, \<open>encoding/base64\<close>, \<open>crypto/sha256\<close>, \<open>net/http\<close> with
  \<open>ServeContent\<close>, \<open>net/url\<close> and \<open>mime\<close>. Lemmas: round trips and canonicity. \<open>Serve_Content\<close> states the
  file and the writer a copy needs (\<open>content_file\<close>, \<open>body_writer\<close>, \<open>content_copy\<close>).

  \<^descr>[Public_Paths] \<open>portal.go\<close>: \<open>isSafeVisibleName\<close>, \<open>validateRelativePath\<close>,
  \<open>validateAbsoluteConfigPath\<close>. Both validators are characterised exactly; an accepted request path
  stays beneath an accepted root.

  \<^descr>[Worker_Protocol] \<open>worker_protocol.go\<close>: frames, fixed-width payloads, JSON requests, directory
  entries. Every encoder and decoder pair interprets a codec locale; what the parent accepts as an
  entry is stated name by name.

  \<^descr>[Worker_Pool] \<open>worker_parent_linux.go\<close>: \<open>startRequestWorker\<close>, \<open>startIsolatedStorageProcess\<close>, \<open>reap\<close>,
  \<open>abort\<close>, \<open>release\<close>, \<open>close\<close>. The state \<open>pool\<close> is the manager with its mutex, slot channel and
  counters, and a \<open>worker\<close> record per request; an event is one step of a goroutine, guarded by what
  the code waits for, and \<open>run\<close> executes any interleaving. Lemmas: the invariant \<open>pool_inv\<close>, the
  bound on unreaped children, exact accounting, draining, what holds after a close or a failed
  signal, and that the channel operations of every execution are an execution of a bounded set.

  \<^descr>[Secure_Root] \<open>fs_linux.go\<close>: opening the root, filesystem identity, listing, and pin, validate,
  reopen. The kernel is a record of system calls over an unknown state. Lemmas: no descriptor leaks,
  an opened file is the pinned one, a listing is bounded and never cut silently.

  \<^descr>[Verifier] \<open>verifier.go\<close>, \<open>verifier_acl_linux.go\<close> and \<open>readVerifierFileSecure\<close> with its helpers from
  \<open>fs_linux.go\<close>: exact formats, the exact access rule, and what a returned verifier went through.

  \<^descr>[Service_Runtime] \<open>runtime_linux.go\<close>: the self check at start-up.

  \<^descr>[Worker_Limits] The part of \<open>worker_child_linux.go\<close> a worker runs before it reads a request:
  environment, resource limits, and the address-space limit from \<open>/proc/self/statm\<close>.

  \<^descr>[Worker_Ipc] \<open>worker_ipc_linux.go\<close>: a frame and its descriptors over a socket, and a pair of packet
  queues (\<open>queue_ipc\<close>) as the socket the two processes are composed over.

  \<^descr>[Worker_Child] \<open>worker_child_linux.go\<close>: the bootstrap, list and file workers.

  \<^descr>[Worker_Parent] \<open>worker_parent_linux.go\<close>: \<open>bootstrap\<close>, \<open>list\<close>, \<open>openRegular\<close> and the \<open>Read\<close>, \<open>Seek\<close>
  and \<open>Close\<close> of a served file, and the system of the two processes (\<open>served\<close>, \<open>served_session\<close>).

  \<^descr>[Isolated_Storage] \<open>storage_local_linux.go\<close>: the isolated storage refines the direct use of the
  secure root, for listing and for opening.

  \<^descr>[Download_Server] \<open>server.go\<close>: the server and its progress-bounded writer. Lemmas: the rate budget
  exactly, and both limits on every deadline of a download.

  \<^descr>[Portal] \<open>portal.go\<close>: the handler. Lemma: every answer carries the header policy (\<open>policy_writer\<close>,
  interpreted on the server's response and on the progress-bounded writer).

  \<^descr>[Portal_Downloads, Portal_Safety, Portal_Answers] The properties that span the components: a download
  delivers the file from the request to the last byte; whatever the worker does, every request is
  answered and no truncated answer looks complete (\<open>guarded_file\<close>, \<open>guarded_copy\<close>); without the bearer
  nothing reaches the storage; the listing answer is sorted (\<open>strict_weak_order\<close>); the accepted
  queries and configurations, exactly; and the download names.

  \<^bold>\<open>Correspondence.\<close> Definitions keep the names of the Go functions; a method carries its receiver
  (\<open>secureRoot_list\<close>, \<open>file_Read\<close>, \<open>manager_list\<close>), and where one function is split, the parts are named
  after what they do. \<open>int64\<close> and \<open>uint64\<close> are 64-bit words, read with \<open>sint\<close> and \<open>unat\<close>; a Go string
  is a list of bytes kept as characters; an error result is the left of a sum or an option; state (kernel,
  socket, response, manager) is passed explicitly in the order of the calls.

  \<^bold>\<open>Loops and fuel.\<close> Loops are structural or have a termination proof; the loop that receives a
  listing ends because an accepted frame is not empty and the text is bounded by 2 MiB. The loop of the
  file worker and the copy of \<open>io.CopyN\<close> are \<open>partial_function\<close>s, and that they return is part of the
  theorems on downloads. Fuel occurs once, in the JSON decoder: twice the length of the input, which is
  shown to be enough for every input.

  \<^bold>\<open>Parameters and their contracts.\<close> The Linux kernel and \<open>golang.org/x/sys/unix\<close>: any answer at any time,
  under \<open>fd_contract\<close> (an opened descriptor is new, a closed one is gone) where descriptors are counted and
  \<open>directory_contract\<close> (names of at most 255 bytes, sizes not negative) where a listing must fit. The
  clock, the connection and the text of the embedded pages are arbitrary. Each contract has a concrete
  kernel that satisfies it.

  \<^bold>\<open>Not modelled.\<close> The systemd test gate, which is empty in production builds, and its reports; the
  exec of a worker, whose outcome is an event of the pool; errors of closing a descriptor, which Linux
  reports after the descriptor is gone; the data races that the mutexes of a served file exclude. A
  descriptor passed over \<open>queue_ipc\<close> keeps its number in a kernel state that both processes share, where
  Linux installs a duplicate; the results over it concern one request at a time. \<open>newIsolatedStorageWith\<close>
  of the pool gives the manager after a successful bootstrap; the bootstrap itself is in
  \<open>Worker_Parent\<close>. The binary around the service, the listener address, other platforms and the whole
  administrative process (\<open>route\<close>, \<open>service\<close>, \<open>drivers\<close>, the other packages) are outside.
\<close>

end
